(* ===== verification/Prelude.thy ===== *)
theory Prelude
  imports Main "HOL-Library.Word" "HOL-Library.Char_ord" "HOL-Library.List_Lexorder"
    "HOL-Library.Signed_Division"
begin

text \<open>
  Shared vocabulary of the development: the outcome type of a Go call (a value, a returned
  error, a run-time panic, or a loop that never ends), its sequencing, the two loop shapes
  the code uses over it, decimal printing, and the generic facts on lists and integers that
  several components need.  Go's \<open>int\<close> is \<open>int\<close> here; where the width of a value matters
  (bytes, the 16-bit length fields of the printer protocol, \<open>int64\<close> products and durations)
  the component uses words.
\<close>

unbundle bit_operations_syntax

type_synonym byte = "8 word"

named_theorems go_simps \<open>sequencing of outcomes\<close>
named_theorems geometry \<open>sizes and row strides\<close>

section \<open>Outcomes of a Go call\<close>

datatype ('e, 'a) go = Val (go_val: 'a) | Fail (go_err: 'e) | Panic (go_msg: string) | Diverge

primrec go_bind :: "('e, 'a) go \<Rightarrow> ('a \<Rightarrow> ('e, 'b) go) \<Rightarrow> ('e, 'b) go" where
  "go_bind (Val a) k = k a"
| "go_bind (Fail e) k = Fail e"
| "go_bind (Panic m) k = Panic m"
| "go_bind Diverge k = Diverge"

definition go_terminates :: "('e, 'a) go \<Rightarrow> bool" where
  "go_terminates m = (case m of Diverge \<Rightarrow> False | _ \<Rightarrow> True)"

primrec go_of_option :: "'a option \<Rightarrow> ('e, 'a) go" where
  "go_of_option None = Diverge"
| "go_of_option (Some a) = Val a"

primrec go_of_sum :: "'e + 'a \<Rightarrow> ('e, 'a) go" where
  "go_of_sum (Inl e) = Fail e"
| "go_of_sum (Inr a) = Val a"

lemma go_bind_Val_iff [go_simps]:
  "go_bind m k = Val b \<longleftrightarrow> (\<exists>a. m = Val a \<and> k a = Val b)"
  by (cases m) auto

lemma go_bind_Fail_iff [go_simps]:
  "go_bind m k = Fail e \<longleftrightarrow> m = Fail e \<or> (\<exists>a. m = Val a \<and> k a = Fail e)"
  by (cases m) auto

lemma go_bind_Panic_iff [go_simps]:
  "go_bind m k = Panic p \<longleftrightarrow> m = Panic p \<or> (\<exists>a. m = Val a \<and> k a = Panic p)"
  by (cases m) auto

lemma go_bind_Diverge_iff [go_simps]:
  "go_bind m k = Diverge \<longleftrightarrow> m = Diverge \<or> (\<exists>a. m = Val a \<and> k a = Diverge)"
  by (cases m) auto

lemma go_bind_assoc: "go_bind (go_bind m k) h = go_bind m (\<lambda>a. go_bind (k a) h)"
  by (cases m) auto

lemma go_bind_right_Val [simp]: "go_bind m Val = m"
  by (cases m) auto

lemma go_terminates_iff: "go_terminates m \<longleftrightarrow> m \<noteq> Diverge"
  by (cases m) (auto simp: go_terminates_def)

lemma go_terminates_bind [intro]:
  "go_terminates m \<Longrightarrow> (\<And>a. m = Val a \<Longrightarrow> go_terminates (k a)) \<Longrightarrow> go_terminates (go_bind m k)"
  by (cases m) (auto simp: go_terminates_iff)

lemma go_terminates_simps [simp]:
  "go_terminates (Val a)" "go_terminates (Fail e)" "go_terminates (Panic p)" "\<not> go_terminates Diverge"
  by (simp_all add: go_terminates_def)

lemma go_of_option_Val_iff [simp]: "go_of_option m = Val a \<longleftrightarrow> m = Some a"
  by (cases m) auto

lemma go_of_sum_Val_iff [simp]: "go_of_sum m = Val a \<longleftrightarrow> m = Inr a"
  by (cases m) auto

lemma go_of_sum_terminates [simp]: "go_terminates (go_of_sum m)"
  by (cases m) auto

lemma go_bind_cong [fundef_cong]:
  "m = m' \<Longrightarrow> (\<And>a. m' = Val a \<Longrightarrow> k a = k' a) \<Longrightarrow> go_bind m k = go_bind m' k'"
  by (cases m') auto

subsection \<open>A range loop whose body may fail\<close>

fun go_fold :: "('x \<Rightarrow> 's \<Rightarrow> ('e, 's) go) \<Rightarrow> 'x list \<Rightarrow> 's \<Rightarrow> ('e, 's) go" where
  "go_fold f [] s = Val s"
| "go_fold f (x # xs) s = go_bind (f x s) (go_fold f xs)"

lemma go_fold_append: "go_fold f (xs @ ys) s = go_bind (go_fold f xs s) (go_fold f ys)"
proof (induction xs arbitrary: s)
  case Nil
  show ?case by simp
next
  case (Cons x xs)
  then show ?case by (cases "f x s") simp_all
qed

lemma go_fold_pure:
  assumes "\<And>x s. x \<in> set xs \<Longrightarrow> I s \<Longrightarrow> f x s = Val (g x s) \<and> I (g x s)" and "I s"
  shows "go_fold f xs s = Val (fold g xs s) \<and> I (fold g xs s)"
  using assms by (induction xs arbitrary: s) auto

lemma go_fold_invariant:
  assumes "go_fold f xs s = Val t" and "I s"
    and "\<And>x s t. x \<in> set xs \<Longrightarrow> I s \<Longrightarrow> f x s = Val t \<Longrightarrow> I t"
  shows "I t"
  using assms by (induction xs arbitrary: s) (auto simp: go_simps)

lemma go_fold_terminates:
  assumes "\<And>x s. x \<in> set xs \<Longrightarrow> go_terminates (f x s)"
  shows "go_terminates (go_fold f xs s)"
  using assms by (induction xs arbitrary: s) auto

fun go_map :: "('x \<Rightarrow> ('e, 'y) go) \<Rightarrow> 'x list \<Rightarrow> ('e, 'y list) go" where
  "go_map f [] = Val []"
| "go_map f (x # xs) = go_bind (f x) (\<lambda>y. go_bind (go_map f xs) (\<lambda>ys. Val (y # ys)))"

lemma go_map_length: "go_map f xs = Val ys \<Longrightarrow> length ys = length xs"
  by (induction xs arbitrary: ys) (auto simp: go_simps)

lemma go_map_nth: "go_map f xs = Val ys \<Longrightarrow> i < length xs \<Longrightarrow> f (xs ! i) = Val (ys ! i)"
  by (induction xs arbitrary: ys i) (auto simp: go_simps nth_Cons split: nat.split)

lemma go_map_terminates:
  assumes "\<And>x. x \<in> set xs \<Longrightarrow> go_terminates (f x)"
  shows "go_terminates (go_map f xs)"
  using assms by (induction xs) (auto intro!: go_terminates_bind)

subsection \<open>A call that returns\<close>

text \<open>It yields a value or an error: it neither panics nor runs for ever.\<close>

definition go_safe :: "('e, 'a) go \<Rightarrow> bool" where
  "go_safe m = (case m of Val _ \<Rightarrow> True | Fail _ \<Rightarrow> True | _ \<Rightarrow> False)"

lemma go_safe_simps [simp]:
  "go_safe (Val a)" "go_safe (Fail e)" "\<not> go_safe (Panic p)" "\<not> go_safe Diverge"
  by (simp_all add: go_safe_def)

lemma go_safe_iff: "go_safe m \<longleftrightarrow> (\<exists>a. m = Val a) \<or> (\<exists>e. m = Fail e)"
  by (cases m) auto

lemma go_safe_bind [intro]:
  "go_safe m \<Longrightarrow> (\<And>a. m = Val a \<Longrightarrow> go_safe (k a)) \<Longrightarrow> go_safe (go_bind m k)"
  by (cases m) auto

lemma go_safe_fold:
  assumes "\<And>x s. x \<in> set xs \<Longrightarrow> go_safe (f x s)"
  shows "go_safe (go_fold f xs s)"
  using assms by (induction xs arbitrary: s) auto

lemma go_safe_map:
  assumes "\<And>x. x \<in> set xs \<Longrightarrow> go_safe (f x)"
  shows "go_safe (go_map f xs)"
  using assms by (induction xs) (auto intro!: go_safe_bind)

lemma go_safe_of_sum [simp]: "go_safe (go_of_sum m)"
  by (cases m) auto

section \<open>Integers\<close>

text \<open>Go's \<open>/\<close> on \<open>int\<close> truncates towards zero, and panics on a zero divisor.\<close>

definition go_div :: "int \<Rightarrow> int \<Rightarrow> ('e, int) go" where
  "go_div a b = (if b = 0 then Panic ''runtime error: integer divide by zero'' else Val (a sdiv b))"

lemma go_div_pos: "0 \<le> a \<Longrightarrow> 0 < b \<Longrightarrow> go_div a b = Val (a div b)"
  by (simp add: go_div_def signed_divide_int_def sgn_if)

lemma go_div_terminates [simp]: "go_terminates (go_div a b)"
  by (simp add: go_div_def)

lemma sdiv_pos: "0 \<le> a \<Longrightarrow> 0 < b \<Longrightarrow> (a::int) sdiv b = a div b"
  by (simp add: signed_divide_int_def sgn_if)

section \<open>Decimal printing\<close>

fun dec_nat :: "nat \<Rightarrow> string" where
  "dec_nat n = (if n < 10 then [char_of (48 + n)] else dec_nat (n div 10) @ [char_of (48 + n mod 10)])"

declare dec_nat.simps [simp del]

definition dec_int :: "int \<Rightarrow> string" where
  "dec_int i = (if i < 0 then CHR ''-'' # dec_nat (nat (- i)) else dec_nat (nat i))"

lemma dec_nat_nonempty [simp]: "dec_nat n \<noteq> []"
  by (subst dec_nat.simps) simp

lemma dec_int_nonempty [simp]: "dec_int i \<noteq> []"
  by (simp add: dec_int_def)

section \<open>Strings\<close>

text \<open>\<open>strings.Split(s, sep)\<close> for a one-byte separator, and \<open>strings.Join\<close>.\<close>

fun split_on :: "char \<Rightarrow> string \<Rightarrow> string list" where
  "split_on c [] = [[]]"
| "split_on c (x # xs) =
     (if x = c then [] # split_on c xs
      else (case split_on c xs of [] \<Rightarrow> [[x]] | y # ys \<Rightarrow> (x # y) # ys))"

fun join_with :: "string \<Rightarrow> string list \<Rightarrow> string" where
  "join_with sep [] = []"
| "join_with sep [s] = s"
| "join_with sep (s # t # ts) = s @ sep @ join_with sep (t # ts)"

lemma split_on_nonempty [simp]: "split_on c s \<noteq> []"
  by (induction s) (auto split: list.split)

lemma join_split_on: "join_with [c] (split_on c s) = s"
proof (induction s)
  case Nil
  show ?case by simp
next
  case (Cons x xs)
  show ?case
  proof (cases "split_on c xs")
    case Nil
    then show ?thesis by simp
  next
    case (Cons y ys)
    with Cons.IH show ?thesis by (cases ys) auto
  qed
qed

lemma split_on_no_sep: "t \<in> set (split_on c s) \<Longrightarrow> c \<notin> set t"
  by (induction s arbitrary: t) (auto split: list.splits if_splits)

lemma join_with_Cons: "ws \<noteq> [] \<Longrightarrow> join_with sep (w # ws) = w @ sep @ join_with sep ws"
  by (cases ws) simp_all

lemma join_with_snoc:
  "ws \<noteq> [] \<Longrightarrow> join_with sep (ws @ [w]) = join_with sep ws @ sep @ w"
proof (induction ws)
  case Nil
  then show ?case by simp
next
  case (Cons v ws)
  then show ?case by (cases ws) (simp_all add: join_with_Cons)
qed

lemma replicate_snoc: "replicate n x @ [x] = replicate (Suc n) x"
  by (metis replicate_Suc replicate_append_same)

section \<open>Lists\<close>

lemma fold_max_init: "fold max xs (a::int) = fold max xs b" if "a \<le> b" "b \<le> fold max xs a"
  using that
proof (induction xs arbitrary: a b)
  case Nil
  then show ?case by simp
next
  case (Cons x xs)
  show ?case
  proof (cases "b \<le> max x a")
    case True
    with Cons.prems have "max x b = max x a" by simp
    then show ?thesis by simp
  next
    case False
    with Cons.prems Cons.IH [of "max x a" "max x b"] show ?thesis by simp
  qed
qed

lemma sorted_fold_Max: "finite S \<Longrightarrow> S \<noteq> {} \<Longrightarrow> Max (insert (0::int) S) \<ge> 0"
  by simp

end
