(* ===== verification/Apperr.thy ===== *)
theory Apperr
  imports Prelude
begin

text \<open>
  Package \<open>internal/apperr\<close> (\<open>error.go\<close>): the closed set of failure kinds, the wrapped error,
  its text, and the classification \<open>Is\<close>.  A Go \<open>error\<close> is a tree: a leaf made by \<open>errors.New\<close>
  or \<open>fmt.Errorf\<close>, an \<open>fmt.Errorf\<close> with one \<open>%w\<close>, an \<open>errors.Join\<close>, or an \<open>*apperr.Error\<close>,
  which may be a typed nil pointer.  The nil \<open>error\<close> interface is \<open>None\<close>.
\<close>

section \<open>Kinds\<close>

text \<open>\<open>KindOther n\<close> is a \<open>Kind\<close> value outside the const block, that is \<open>n < 0\<close> or \<open>n > 5\<close>.\<close>

datatype kind =
    KindUnknown | KindValidation | KindNotFound | KindTransient | KindPermanent | KindUnauthorized
  | KindOther int

fun kind_string :: "kind \<Rightarrow> string" where
  "kind_string KindUnknown = ''unknown''"
| "kind_string KindValidation = ''validation''"
| "kind_string KindNotFound = ''not found''"
| "kind_string KindTransient = ''transient''"
| "kind_string KindPermanent = ''permanent''"
| "kind_string KindUnauthorized = ''unauthorized''"
| "kind_string (KindOther n) = ''apperr.Kind('' @ dec_int n @ '')''"

section \<open>Errors\<close>

datatype goerr =
    Leaf string
  | Wrapf string goerr
  | Joined "goerr list"
  | AppErr kind string "goerr option"
  | NilAppErr

type_synonym 'a res = "(goerr, 'a) go"

text \<open>\<open>apperr.Wrap\<close> always builds a non-nil \<open>*Error\<close>, with or without a cause.\<close>

definition wrap :: "kind \<Rightarrow> string \<Rightarrow> goerr option \<Rightarrow> goerr" where
  "wrap k op err = AppErr k op err"

text \<open>\<open>errors.Join\<close> of the collected errors: nil when there is none.\<close>

definition errors_join :: "goerr list \<Rightarrow> goerr option" where
  "errors_join es = (if es = [] then None else Some (Joined es))"

lemma errors_join_None [simp]: "errors_join es = None \<longleftrightarrow> es = []"
  by (simp add: errors_join_def)

lemma errors_join_Some: "errors_join es = Some e \<longleftrightarrow> es \<noteq> [] \<and> e = Joined es"
  by (auto simp: errors_join_def)

text \<open>\<open>(*Error).Error\<close>: operation, kind and cause, separated by colons where present.\<close>

fun error_text :: "goerr \<Rightarrow> string" where
  "error_text (Leaf s) = s"
| "error_text (Wrapf p e) = p @ error_text e"
| "error_text (Joined es) = join_with [CHR 0x0A] (map error_text es)"
| "error_text (AppErr k op c) =
     (let b = op;
          b = (if k \<noteq> KindUnknown
               then (if length b > 0 then b @ '': '' else b) @ kind_string k else b);
          b = (case c of None \<Rightarrow> b
               | Some e \<Rightarrow> (if length b > 0 then b @ '': '' else b) @ error_text e)
      in if length b = 0 then ''unknown'' else b)"
| "error_text NilAppErr = ''<nil>''"

text \<open>\<open>(*Error).Unwrap\<close>.\<close>

fun unwrap :: "goerr \<Rightarrow> goerr option" where
  "unwrap (AppErr k op c) = c"
| "unwrap (Wrapf p e) = Some e"
| "unwrap _ = None"

text \<open>
  \<open>errors.As(err, &e)\<close> for a target of type \<open>*apperr.Error\<close>: the first \<open>*Error\<close>, typed nil
  included, in the pre-order walk of the error tree.
\<close>

fun errors_as :: "goerr \<Rightarrow> goerr option" and errors_as_any :: "goerr list \<Rightarrow> goerr option" where
  "errors_as (Leaf s) = None"
| "errors_as (Wrapf p e) = errors_as e"
| "errors_as (Joined es) = errors_as_any es"
| "errors_as (AppErr k op c) = Some (AppErr k op c)"
| "errors_as NilAppErr = Some NilAppErr"
| "errors_as_any [] = None"
| "errors_as_any (e # es) = (case errors_as e of Some r \<Rightarrow> Some r | None \<Rightarrow> errors_as_any es)"

lemma errors_as_size:
  "errors_as e = Some r \<Longrightarrow> size r \<le> size e"
  "errors_as_any es = Some r \<Longrightarrow> size r \<le> size_list size es"
  by (induction e and es rule: errors_as_errors_as_any.induct) (auto split: option.splits)

lemma errors_as_shape:
  "errors_as e = Some r \<Longrightarrow> r = NilAppErr \<or> (\<exists>k op c. r = AppErr k op c)"
  "errors_as_any es = Some r \<Longrightarrow> r = NilAppErr \<or> (\<exists>k op c. r = AppErr k op c)"
  by (induction e and es rule: errors_as_errors_as_any.induct) (auto split: option.splits)

text \<open>
  \<open>Is(err, kind)\<close>: the loop takes the first \<open>*Error\<close> below \<open>err\<close>, answers on its kind, and
  otherwise continues with that error's own cause.  It ends because the cause is smaller.
\<close>

function is_kind :: "goerr option \<Rightarrow> kind \<Rightarrow> bool" where
  "is_kind err kind =
     (case err of None \<Rightarrow> False
      | Some x \<Rightarrow>
          (case errors_as x of
             Some (AppErr k op c) \<Rightarrow> (if k = kind then True else is_kind c kind)
           | _ \<Rightarrow> False))"
  by pat_completeness auto
termination
proof (relation "measure (\<lambda>(err, kind). case err of None \<Rightarrow> 0 | Some x \<Rightarrow> size x)", goal_cases)
  case 1
  show ?case by simp
next
  case (2 err kind x e k op c)
  then show ?case
    using errors_as_size(1) [of x e] by (auto split: option.split)
qed

declare is_kind.simps [simp del]

lemma is_kind_None [simp]: "is_kind None k = False"
  by (simp add: is_kind.simps)

lemma is_kind_AppErr [simp]:
  "is_kind (Some (AppErr k op c)) kind = (k = kind \<or> is_kind c kind)"
  by (subst is_kind.simps) simp

lemma is_kind_Leaf [simp]: "is_kind (Some (Leaf s)) k = False"
  by (simp add: is_kind.simps)

lemma is_kind_Wrapf [simp]: "is_kind (Some (Wrapf p e)) k = is_kind (Some e) k"
  by (subst is_kind.simps, subst (2) is_kind.simps) simp

lemma is_kind_NilAppErr [simp]: "is_kind (Some NilAppErr) k = False"
  by (simp add: is_kind.simps)

lemma is_kind_wrap [simp]: "is_kind (Some (wrap k op c)) kind = (k = kind \<or> is_kind c kind)"
  by (simp add: wrap_def)

text \<open>
  The specification of \<open>Is\<close>: the chain of \<open>*Error\<close> values the loop visits.
\<close>

inductive on_chain :: "goerr option \<Rightarrow> goerr \<Rightarrow> bool" where
  here: "errors_as x = Some e \<Longrightarrow> e \<noteq> NilAppErr \<Longrightarrow> on_chain (Some x) e"
| below: "errors_as x = Some (AppErr k op c) \<Longrightarrow> on_chain c e \<Longrightarrow> on_chain (Some x) e"

inductive_cases on_chain_NoneE [elim!]: "on_chain None e"
inductive_cases on_chain_SomeE: "on_chain (Some x) e"

lemma is_kind_on_chain: "is_kind err kind \<longleftrightarrow> (\<exists>op c. on_chain err (AppErr kind op c))"
proof (induction err kind rule: is_kind.induct)
  case (1 err kind)
  show ?case
  proof (cases err)
    case None
    then show ?thesis by auto
  next
    case (Some x)
    show ?thesis
    proof (cases "errors_as x")
      case None
      with Some show ?thesis
        by (subst is_kind.simps) (auto elim: on_chain_SomeE)
    next
      case e: (Some e)
      then consider "e = NilAppErr" | k op c where "e = AppErr k op c"
        using errors_as_shape(1) by blast
      then show ?thesis
      proof cases
        case 1
        with Some e show ?thesis
          by (subst is_kind.simps) (auto elim: on_chain_SomeE)
      next
        case (2 k op c)
        have head: "is_kind (Some x) kind \<longleftrightarrow> k = kind \<or> is_kind c kind"
          using e 2 by (subst is_kind.simps) simp
        have chain: "on_chain (Some x) r \<longleftrightarrow> r = AppErr k op c \<or> on_chain c r" for r
          using e 2 by (auto elim!: on_chain_SomeE intro: on_chain.here on_chain.below)
        show ?thesis
        proof (cases "k = kind")
          case True
          then show ?thesis using Some head chain by blast
        next
          case False
          with "1.IH" [OF Some e 2] Some head chain show ?thesis by auto
        qed
      qed
    qed
  qed
qed

text \<open>A join is searched only up to its first \<open>*Error\<close>: a kind that only a later one has is not found.\<close>

lemma is_kind_misses_join:
  "is_kind (Some (Joined [AppErr KindNotFound ''a'' None, AppErr KindTransient ''b'' None])) KindTransient = False"
  by (simp add: is_kind.simps)

text \<open>An error of another package: it wraps no \<open>*apperr.Error\<close>.\<close>

definition plain_error :: "goerr \<Rightarrow> bool" where
  "plain_error e \<longleftrightarrow> (\<forall>k. \<not> is_kind (Some e) k)"

end
