(* ===== verification/Text.thy ===== *)
theory Text
  imports Apperr
begin

text \<open>
  What the code uses of Go's strings: a string is its bytes (\<open>char list\<close>), \<open>range\<close> walks it
  by UTF-8 decoding (an invalid byte is one replacement rune), \<open>utf8.ValidString\<close>,
  \<open>strings.Fields\<close>, and \<open>fmt.Errorf\<close> with the verbs the repository uses.  The main facts: a
  decoding splits the string into its own bytes, and decoding is local, that is, appending a
  string that does not start with a continuation byte does not change what comes before.
\<close>

section \<open>Decoding\<close>

type_synonym rune = nat

definition rune_error :: rune where
  "rune_error = 0xFFFD"

definition byte_in :: "nat \<Rightarrow> nat \<Rightarrow> char \<Rightarrow> bool" where
  "byte_in lo hi c \<longleftrightarrow> lo \<le> of_char c \<and> of_char c \<le> hi"

text \<open>\<open>utf8.DecodeRuneInString\<close>: the rune and its width in bytes.\<close>

fun decode_rune :: "string \<Rightarrow> rune \<times> nat" where
  "decode_rune [] = (rune_error, 0)"
| "decode_rune (c0 # cs) =
     (let b0 = of_char c0 in
      if b0 < 0x80 then (b0, 1)
      else if b0 < 0xC2 \<or> 0xF4 < b0 then (rune_error, 1)
      else if b0 < 0xE0 then
        (case cs of
           c1 # _ \<Rightarrow> if byte_in 0x80 0xBF c1
                     then ((b0 - 0xC0) * 64 + (of_char c1 - 0x80), 2) else (rune_error, 1)
         | [] \<Rightarrow> (rune_error, 1))
      else if b0 < 0xF0 then
        (case cs of
           c1 # c2 # _ \<Rightarrow>
             if byte_in (if b0 = 0xE0 then 0xA0 else 0x80) (if b0 = 0xED then 0x9F else 0xBF) c1
                \<and> byte_in 0x80 0xBF c2
             then ((b0 - 0xE0) * 4096 + (of_char c1 - 0x80) * 64 + (of_char c2 - 0x80), 3)
             else (rune_error, 1)
         | _ \<Rightarrow> (rune_error, 1))
      else
        (case cs of
           c1 # c2 # c3 # _ \<Rightarrow>
             if byte_in (if b0 = 0xF0 then 0x90 else 0x80) (if b0 = 0xF4 then 0x8F else 0xBF) c1
                \<and> byte_in 0x80 0xBF c2 \<and> byte_in 0x80 0xBF c3
             then ((b0 - 0xF0) * 262144 + (of_char c1 - 0x80) * 4096
                   + (of_char c2 - 0x80) * 64 + (of_char c3 - 0x80), 4)
             else (rune_error, 1)
         | _ \<Rightarrow> (rune_error, 1)))"

lemma decode_rune_width:
  "s \<noteq> [] \<Longrightarrow> 1 \<le> snd (decode_rune s) \<and> snd (decode_rune s) \<le> length s"
  by (cases s) (auto simp: Let_def split: list.split)

declare decode_rune.simps(2) [simp del]

lemma decode_rune_ascii: "(of_char c :: nat) < 0x80 \<Longrightarrow> decode_rune (c # s) = (of_char c, 1)"
  by (simp add: decode_rune.simps(2))

text \<open>The runes of a string with the bytes each was decoded from.\<close>

function runes :: "string \<Rightarrow> (rune \<times> string) list" where
  "runes [] = []"
| "runes (c # cs) =
     (let (r, n) = decode_rune (c # cs) in (r, take n (c # cs)) # runes (drop n (c # cs)))"
  by pat_completeness auto
termination
proof (relation "measure length", goal_cases)
  case 1
  show ?case by simp
next
  case (2 c cs rn r n)
  then have "decode_rune (c # cs) = (r, n)" by simp
  then have "1 \<le> n"
    using decode_rune_width [of "c # cs"] by simp
  then show ?case by simp
qed

declare runes.simps(2) [simp del]

lemma runes_nonempty_chunks: "(r, b) \<in> set (runes s) \<Longrightarrow> b \<noteq> []"
proof (induction s rule: runes.induct)
  case 1
  then show ?case by simp
next
  case (2 c cs)
  obtain r' n where d: "decode_rune (c # cs) = (r', n)" by (cases "decode_rune (c # cs)")
  then have "1 \<le> n" using decode_rune_width [of "c # cs"] by simp
  then have "take n (c # cs) \<noteq> []" by simp
  with 2 d show ?case by (auto simp: runes.simps(2))
qed

lemma concat_runes: "concat (map snd (runes s)) = s"
proof (induction s rule: runes.induct)
  case 1
  show ?case by simp
next
  case (2 c cs)
  then show ?case by (cases "decode_rune (c # cs)") (simp add: runes.simps(2))
qed

definition no_cont :: "string \<Rightarrow> bool" where
  "no_cont t \<longleftrightarrow> (case t of [] \<Rightarrow> True | c # _ \<Rightarrow> (of_char c :: nat) < 0x80 \<or> 0xC0 \<le> (of_char c :: nat))"

lemma decode_rune_append:
  assumes "s \<noteq> []" and "no_cont t"
  shows "decode_rune (s @ t) = decode_rune s"
proof -
  have out: "\<not> byte_in lo hi c" if "c # r = t" "0x80 \<le> lo" "hi \<le> 0xBF" for lo hi c r
    using assms(2) that by (auto simp: no_cont_def byte_in_def)
  obtain c0 cs where s: "s = c0 # cs" using assms(1) by (cases s) auto
  consider "cs = []" | c1 where "cs = [c1]" | c1 c2 where "cs = [c1, c2]"
    | c1 c2 c3 r where "cs = c1 # c2 # c3 # r"
    by (metis list.exhaust)
  then show ?thesis
  proof cases
    case 1
    with s out show ?thesis by (auto simp: decode_rune.simps(2) Let_def split: list.split)
  next
    case 2
    with s out show ?thesis by (auto simp: decode_rune.simps(2) Let_def split: list.split)
  next
    case 3
    with s out show ?thesis by (auto simp: decode_rune.simps(2) Let_def split: list.split)
  next
    case 4
    with s show ?thesis by (simp add: decode_rune.simps(2) Let_def)
  qed
qed

lemma runes_append: "no_cont t \<Longrightarrow> runes (s @ t) = runes s @ runes t"
proof (induction s rule: runes.induct)
  case 1
  then show ?case by simp
next
  case (2 c cs)
  obtain r n where d: "decode_rune (c # cs) = (r, n)" by (cases "decode_rune (c # cs)")
  then have n: "n \<le> length (c # cs)" using decode_rune_width [of "c # cs"] by simp
  have d': "decode_rune (c # cs @ t) = (r, n)"
    using decode_rune_append [of "c # cs" t] 2(2) d by simp
  have split: "drop n (c # cs @ t) = drop n (c # cs) @ t" "take n (c # cs @ t) = take n (c # cs)"
    using n drop_append [of n "c # cs" t] take_append [of n "c # cs" t] by simp_all
  have "runes (drop n (c # cs @ t)) = runes (drop n (c # cs)) @ runes t"
    using 2 d split by simp
  then show ?case
    using d d' split by (simp add: runes.simps(2))
qed

lemma no_cont_ascii [simp]: "(of_char c :: nat) < 0x80 \<Longrightarrow> no_cont (c # t)"
  by (simp add: no_cont_def)

lemma no_cont_Nil [simp]: "no_cont []"
  by (simp add: no_cont_def)

lemma runes_ascii_Cons: "(of_char c :: nat) < 0x80 \<Longrightarrow> runes (c # s) = (of_char c, [c]) # runes s"
  by (simp add: runes.simps(2) decode_rune_ascii)

lemma runes_snoc_ascii:
  "(of_char c :: nat) < 0x80 \<Longrightarrow> runes (s @ [c]) = runes s @ [(of_char c, [c])]"
  by (simp add: runes_append runes_ascii_Cons)

text \<open>\<open>utf8.ValidString\<close>: no position decodes to the one-byte replacement rune.\<close>

definition valid_string :: "string \<Rightarrow> bool" where
  "valid_string s = list_all (\<lambda>(r, b). \<not> (r = rune_error \<and> length b = 1)) (runes s)"

lemma valid_string_append: "no_cont t \<Longrightarrow> valid_string (s @ t) = (valid_string s \<and> valid_string t)"
  by (simp add: valid_string_def runes_append)

lemma valid_string_ascii: "list_all (\<lambda>c. of_char c < (0x80::nat)) s \<Longrightarrow> valid_string s"
  by (induction s) (auto simp: valid_string_def runes_ascii_Cons rune_error_def)

lemma dec_nat_ascii: "list_all (\<lambda>c. of_char c < (0x80::nat)) (dec_nat n)"
proof (induction n rule: dec_nat.induct)
  case (1 n)
  have "n mod 10 < 10" by simp
  then have "48 + n mod 10 < 256" "48 + n mod 10 < 128" by linarith+
  with 1 show ?case by (subst dec_nat.simps) auto
qed

lemma dec_int_ascii: "list_all (\<lambda>c. of_char c < (0x80::nat)) (dec_int i)"
  by (simp add: dec_int_def dec_nat_ascii)

section \<open>Fields\<close>

text \<open>\<open>unicode.IsSpace\<close>.\<close>

definition is_space :: "rune \<Rightarrow> bool" where
  "is_space r \<longleftrightarrow> (9 \<le> r \<and> r \<le> 13) \<or> r = 0x20 \<or> r = 0x85 \<or> r = 0xA0 \<or> r = 0x1680
     \<or> (0x2000 \<le> r \<and> r \<le> 0x200A) \<or> r = 0x2028 \<or> r = 0x2029 \<or> r = 0x202F \<or> r = 0x205F \<or> r = 0x3000"

text \<open>\<open>strings.Fields\<close>: the maximal runs of non-space runes.\<close>

fun fields_from :: "string \<Rightarrow> (rune \<times> string) list \<Rightarrow> string list" where
  "fields_from cur [] = (if cur = [] then [] else [cur])"
| "fields_from cur ((r, b) # cs) =
     (if is_space r then (if cur = [] then fields_from [] cs else cur # fields_from [] cs)
      else fields_from (cur @ b) cs)"

definition split_fields :: "string \<Rightarrow> string list" where
  "split_fields s = fields_from [] (runes s)"

lemma fields_from_nonempty: "w \<in> set (fields_from cur cs) \<Longrightarrow> w \<noteq> []"
  by (induction cur cs rule: fields_from.induct) (auto split: if_splits)

lemma split_fields_nonempty: "w \<in> set (split_fields s) \<Longrightarrow> w \<noteq> []"
  unfolding split_fields_def by (rule fields_from_nonempty)

section \<open>Formatted errors\<close>

datatype fmt_arg = FInt int | FStr string

definition hex_digit :: "nat \<Rightarrow> char" where
  "hex_digit n = char_of (if n < 10 then 48 + n else 87 + n)"

text \<open>
  One rune of \<open>strconv.Quote\<close>; a valid rune outside ASCII is kept as it is (Go escapes the
  unprintable ones among them).
\<close>

definition quote_rune :: "rune \<times> string \<Rightarrow> string" where
  "quote_rune rb = (case rb of (r, b) \<Rightarrow>
     if r = rune_error \<and> length b = 1
     then [CHR 0x5C, CHR ''x'', hex_digit (of_char (hd b) div 16), hex_digit (of_char (hd b) mod 16)]
     else if r = 34 \<or> r = 92 then [CHR 0x5C, char_of r]
     else if r = 7 then [CHR 0x5C, CHR ''a'']
     else if r = 8 then [CHR 0x5C, CHR ''b'']
     else if r = 12 then [CHR 0x5C, CHR ''f'']
     else if r = 10 then [CHR 0x5C, CHR ''n'']
     else if r = 13 then [CHR 0x5C, CHR ''r'']
     else if r = 9 then [CHR 0x5C, CHR ''t'']
     else if r = 11 then [CHR 0x5C, CHR ''v'']
     else if r < 32 \<or> r = 127
     then [CHR 0x5C, CHR ''x'', hex_digit (r div 16), hex_digit (r mod 16)]
     else b)"

definition quote :: "string \<Rightarrow> string" where
  "quote s = [CHR 0x22] @ concat (map quote_rune (runes s)) @ [CHR 0x22]"

definition fmt_verb :: "char \<Rightarrow> fmt_arg \<Rightarrow> string" where
  "fmt_verb v a =
     (case a of FInt n \<Rightarrow> dec_int n | FStr s \<Rightarrow> if v = CHR ''q'' then quote s else s)"

fun sprintf :: "string \<Rightarrow> fmt_arg list \<Rightarrow> string" where
  "sprintf [] as = []"
| "sprintf [c] as = [c]"
| "sprintf (c # v # fs) as =
     (if c = CHR ''%''
      then (case as of [] \<Rightarrow> sprintf fs [] | a # as' \<Rightarrow> fmt_verb v a @ sprintf fs as')
      else c # sprintf (v # fs) as)"

definition errorf :: "string \<Rightarrow> fmt_arg list \<Rightarrow> goerr" where
  "errorf f as = Leaf (sprintf f as)"

lemma is_kind_errorf [simp]: "is_kind (Some (errorf f as)) k = False"
  by (simp add: errorf_def)

lemma errors_as_errorf [simp]: "errors_as (errorf f as) = None"
  by (simp add: errorf_def)

end
