(* ===== verification/Receipt.thy ===== *)
theory Receipt
  imports Text
begin

text \<open>
  Package \<open>internal/receipt\<close>: the printer-agnostic document model, the per-element \<open>Validate\<close>
  methods, \<open>Receipt.Validate\<close> and \<open>EffectiveCopies\<close>.  An \<open>Element\<close> interface value is an
  \<open>element option\<close> (\<open>None\<close> is a nil interface).  The image decoders and the barcode and QR
  encoders are other modules: they are the fields of the record \<open>codecs\<close>, which the
  definitions take as an argument.
\<close>

section \<open>Parameters: image decoding and code generation\<close>

text \<open>
  \<open>image.Image\<close>: bounds, and the colour at a point as alpha-premultiplied 16-bit components
  \<open>(r, g, b, a)\<close>.
\<close>

record image =
  img_min_x :: int
  img_min_y :: int
  img_dx :: int
  img_dy :: int
  img_at :: "int \<Rightarrow> int \<Rightarrow> int \<times> int \<times> int \<times> int"

datatype qr_level = QR_L | QR_M | QR_Q | QR_H

record codecs =
  decode_config :: "byte list \<Rightarrow> goerr + int \<times> int \<times> string"
  decode_pixels :: "byte list \<Rightarrow> goerr + image"
  qr_encode :: "string \<Rightarrow> qr_level \<Rightarrow> goerr + image"
  code128_encode :: "string \<Rightarrow> goerr + image"
  ean_encode :: "string \<Rightarrow> goerr + image"
  code39_encode :: "string \<Rightarrow> bool \<Rightarrow> bool \<Rightarrow> goerr + image"
  twooffive_encode :: "string \<Rightarrow> bool \<Rightarrow> goerr + image"

section \<open>Elements\<close>

record text_el =
  t_content :: string
  t_align :: string
  t_bold :: bool
  t_italic :: bool
  t_underline :: bool
  t_strikethrough :: bool
  t_size :: int

record divider_el =
  d_style :: string
  d_size :: int

record asset_el =
  a_name :: string
  a_width :: int
  a_align :: string

record qrcode_el =
  q_content :: string
  q_size :: int
  q_error_correction :: string

record barcode_el =
  b_content :: string
  b_symbology :: string
  b_height :: int
  b_show_text :: bool

record table_el =
  tb_headers :: "string list"
  tb_rows :: "string list list"

record list_item =
  li_content :: string
  li_checked :: bool
  li_indent :: int

record list_el =
  l_kind :: string
  l_items :: "list_item list"

datatype element =
    EText text_el
  | EHeading string
  | EDivider divider_el
  | ESpacer int
  | EImage "byte list"
  | EAsset asset_el
  | EQRCode qrcode_el
  | EBarcode barcode_el
  | ETable table_el
  | EList list_el
  | EFeed int
  | ECut string
  | EColumns "column list"
and column = Column (col_weight: int) (col_elements: "element option list")

record receipt =
  r_version :: int
  r_copies :: int
  r_elements :: "element option list"

section \<open>Validation\<close>

definition maxTextSize :: int where "maxTextSize = 100"
definition maxDividerSize :: int where "maxDividerSize = 100"
definition maxSpacerHeightDots :: int where "maxSpacerHeightDots = 10000"
definition maxFeedLines :: int where "maxFeedLines = 255"
definition maxBarcodeHeightDots :: int where "maxBarcodeHeightDots = 10000"
definition maxListIndent :: int where "maxListIndent = 8"
definition maxCopies :: int where "maxCopies = 100"
definition MaxImagePixels :: int where "MaxImagePixels = 20000000"
definition DefaultBarcodeHeight :: int where "DefaultBarcodeHeight = 80"
definition DefaultQRCodeSize :: int where "DefaultQRCodeSize = 200"

lemmas receipt_limits =
  maxTextSize_def maxDividerSize_def maxSpacerHeightDots_def maxFeedLines_def
  maxBarcodeHeightDots_def maxListIndent_def maxCopies_def MaxImagePixels_def
  DefaultBarcodeHeight_def DefaultQRCodeSize_def

definition aligns :: "string list" where
  "aligns = ['''', ''left'', ''center'', ''right'']"

definition validate_text :: "text_el \<Rightarrow> goerr option" where
  "validate_text t =
     (if t_content t = '''' then Some (Leaf ''text: content is required'')
      else if t_align t \<notin> set aligns then Some (errorf ''text: invalid align %q'' [FStr (t_align t)])
      else if t_size t < 0 then Some (Leaf ''text: size must not be negative'')
      else if t_size t > maxTextSize
      then Some (errorf ''text: size must not exceed %d, got %d'' [FInt maxTextSize, FInt (t_size t)])
      else None)"

definition validate_heading :: "string \<Rightarrow> goerr option" where
  "validate_heading content =
     (if content = '''' then Some (Leaf ''heading: content is required'') else None)"

definition validate_divider :: "divider_el \<Rightarrow> goerr option" where
  "validate_divider d =
     (if d_style d \<notin> {'''', ''solid'', ''dashed''}
      then Some (errorf ''divider: invalid style %q'' [FStr (d_style d)])
      else if d_size d < 0 then Some (Leaf ''divider: size must not be negative'')
      else if d_size d > maxDividerSize
      then Some (errorf ''divider: size must not exceed %d, got %d'' [FInt maxDividerSize, FInt (d_size d)])
      else None)"

definition validate_spacer :: "int \<Rightarrow> goerr option" where
  "validate_spacer height =
     (if height < 0
      then Some (errorf ''spacer: height must be non-negative, got %d'' [FInt height])
      else if height > maxSpacerHeightDots
      then Some (errorf ''spacer: height must not exceed %d dots, got %d''
                   [FInt maxSpacerHeightDots, FInt height])
      else None)"

definition validate_feed :: "int \<Rightarrow> goerr option" where
  "validate_feed lines =
     (if lines \<le> 0 then Some (errorf ''feed: lines must be positive, got %d'' [FInt lines])
      else if lines > maxFeedLines
      then Some (errorf ''feed: lines must not exceed %d, got %d'' [FInt maxFeedLines, FInt lines])
      else None)"

definition validate_cut :: "string \<Rightarrow> goerr option" where
  "validate_cut mode =
     (if mode \<in> {'''', ''full'', ''partial''} then None
      else Some (errorf ''cut: invalid mode %q'' [FStr mode]))"

definition supportedImageFormatNames :: "string list" where
  "supportedImageFormatNames = [''png'', ''jpeg'', ''gif'', ''bmp'', ''webp'']"

definition SupportedImageFormatsList :: string where
  "SupportedImageFormatsList = join_with '', '' supportedImageFormatNames"

definition IsSupportedImageFormat :: "string \<Rightarrow> bool" where
  "IsSupportedImageFormat format \<longleftrightarrow> format \<in> set supportedImageFormatNames"

text \<open>\<open>int64(cfg.Width) * int64(cfg.Height)\<close>: the product wraps at 64 bits.\<close>

definition pixel_count :: "int \<Rightarrow> int \<Rightarrow> int" where
  "pixel_count w h = sint ((word_of_int w :: 64 word) * (word_of_int h :: 64 word))"

definition too_many_pixels :: "int \<Rightarrow> int \<Rightarrow> goerr" where
  "too_many_pixels w h =
     errorf ''image: %dx%d (%d pixels) exceeds the %d pixel limit''
       [FInt w, FInt h, FInt (pixel_count w h), FInt MaxImagePixels]"

definition unsupported_format :: "string \<Rightarrow> goerr" where
  "unsupported_format format =
     errorf ''image: unsupported format %q (supported: %s)'' [FStr format, FStr SupportedImageFormatsList]"

definition validate_image :: "codecs \<Rightarrow> byte list \<Rightarrow> goerr option" where
  "validate_image cd data =
     (if length data = 0 then Some (Leaf ''image: data is required'')
      else (case decode_config cd data of
              Inl err \<Rightarrow> Some (Wrapf ''image: data does not decode as a supported image format: '' err)
            | Inr (w, h, format) \<Rightarrow>
                if \<not> IsSupportedImageFormat format then Some (unsupported_format format)
                else if pixel_count w h > MaxImagePixels then Some (too_many_pixels w h)
                else None))"

definition validate_asset :: "asset_el \<Rightarrow> goerr option" where
  "validate_asset a =
     (if a_name a = '''' then Some (Leaf ''asset: name is required'')
      else if \<not> valid_string (a_name a)
      then Some (errorf ''asset: name %q is not valid UTF-8'' [FStr (a_name a)])
      else if CHR ''/'' \<in> set (a_name a) \<or> CHR 0x5C \<in> set (a_name a)
              \<or> a_name a = ''.'' \<or> a_name a = ''..''
      then Some (errorf ''asset: invalid name %q'' [FStr (a_name a)])
      else if a_align a \<notin> set aligns then Some (errorf ''asset: invalid align %q'' [FStr (a_align a)])
      else if a_width a < 0 then Some (Leaf ''asset: width must not be negative'')
      else None)"

definition QRCodeErrorCorrectionLevels :: "string list" where
  "QRCodeErrorCorrectionLevels = [''low'', ''medium'', ''quartile'', ''high'']"

definition IsSupportedQRCodeErrorCorrection :: "string \<Rightarrow> bool" where
  "IsSupportedQRCodeErrorCorrection level \<longleftrightarrow> level \<in> set QRCodeErrorCorrectionLevels"

definition RecoveryLevel :: "qrcode_el \<Rightarrow> qr_level" where
  "RecoveryLevel q =
     (if q_error_correction q = ''low'' then QR_L
      else if q_error_correction q = ''quartile'' then QR_Q
      else if q_error_correction q = ''high'' then QR_H
      else QR_M)"

definition validate_qrcode :: "codecs \<Rightarrow> qrcode_el \<Rightarrow> goerr option" where
  "validate_qrcode cd q =
     (if q_content q = '''' then Some (Leaf ''qrcode: content is required'')
      else if \<not> valid_string (q_content q) then Some (Leaf ''qrcode: content must be valid UTF-8'')
      else if q_error_correction q \<noteq> '''' \<and> \<not> IsSupportedQRCodeErrorCorrection (q_error_correction q)
      then Some (errorf ''qrcode: unsupported error_correction %q (supported: %s)''
                   [FStr (q_error_correction q), FStr (join_with '', '' QRCodeErrorCorrectionLevels)])
      else (case qr_encode cd (q_content q) (RecoveryLevel q) of
              Inl err \<Rightarrow> Some (Wrapf ''qrcode: content cannot be encoded: '' err)
            | Inr _ \<Rightarrow> None))"

definition BarcodeSymbologies :: "string list" where
  "BarcodeSymbologies = [''code128'', ''ean13'', ''ean8'', ''upca'', ''code39'', ''itf'']"

definition IsSupportedBarcodeSymbology :: "string \<Rightarrow> bool" where
  "IsSupportedBarcodeSymbology symbology \<longleftrightarrow> symbology \<in> set BarcodeSymbologies"

definition barcode_encode :: "codecs \<Rightarrow> barcode_el \<Rightarrow> goerr + image" where
  "barcode_encode cd b =
     (let c = b_content b; n = int (length c) in
      if b_symbology b = ''code128'' then code128_encode cd c
      else if b_symbology b = ''ean13''
      then (if n \<noteq> 12 \<and> n \<noteq> 13 then Inl (errorf ''ean13 requires 12 or 13 digits, got %d'' [FInt n])
            else ean_encode cd c)
      else if b_symbology b = ''ean8''
      then (if n \<noteq> 7 \<and> n \<noteq> 8 then Inl (errorf ''ean8 requires 7 or 8 digits, got %d'' [FInt n])
            else ean_encode cd c)
      else if b_symbology b = ''upca''
      then (if n \<noteq> 11 \<and> n \<noteq> 12 then Inl (errorf ''upca requires 11 or 12 digits, got %d'' [FInt n])
            else ean_encode cd (''0'' @ c))
      else if b_symbology b = ''code39'' then code39_encode cd c False False
      else if b_symbology b = ''itf'' then twooffive_encode cd c True
      else Inl (errorf ''unsupported symbology %q'' [FStr (b_symbology b)]))"

definition validate_barcode :: "codecs \<Rightarrow> barcode_el \<Rightarrow> goerr option" where
  "validate_barcode cd b =
     (if b_content b = '''' then Some (Leaf ''barcode: content is required'')
      else if \<not> valid_string (b_content b) then Some (Leaf ''barcode: content must be valid UTF-8'')
      else if b_symbology b = '''' then Some (Leaf ''barcode: symbology is required'')
      else if \<not> IsSupportedBarcodeSymbology (b_symbology b)
      then Some (errorf ''barcode: unsupported symbology %q (supported: %s)''
                   [FStr (b_symbology b), FStr (join_with '', '' BarcodeSymbologies)])
      else if b_height b > maxBarcodeHeightDots
      then Some (errorf ''barcode: height must not exceed %d, got %d''
                   [FInt maxBarcodeHeightDots, FInt (b_height b)])
      else (case barcode_encode cd b of
              Inl err \<Rightarrow>
                Some (Wrapf (sprintf ''barcode: content cannot be encoded as %s: ''
                               [FStr (b_symbology b)]) err)
            | Inr _ \<Rightarrow> None))"

text \<open>\<open>Table.Validate\<close>: the two loops return at the first failing header, row or cell.\<close>

definition first_error :: "('a \<Rightarrow> goerr option) \<Rightarrow> 'a list \<Rightarrow> goerr option" where
  "first_error f xs = (case List.map_filter f xs of [] \<Rightarrow> None | e # _ \<Rightarrow> Some e)"

definition validate_header :: "string \<Rightarrow> goerr option" where
  "validate_header h =
     (if \<not> valid_string h then Some (errorf ''table: header %q is not valid UTF-8'' [FStr h]) else None)"

definition validate_row :: "nat \<Rightarrow> nat \<times> string list \<Rightarrow> goerr option" where
  "validate_row n = (\<lambda>(i, row).
     if length row \<noteq> n
     then Some (errorf ''table: row %d has %d columns, want %d (len(headers))''
                  [FInt (int i), FInt (int (length row)), FInt (int n)])
     else if \<not> list_all valid_string row
     then Some (errorf ''table: row %d has a cell that is not valid UTF-8'' [FInt (int i)])
     else None)"

definition validate_table :: "table_el \<Rightarrow> goerr option" where
  "validate_table t =
     (if length (tb_headers t) = 0 then Some (Leaf ''table: headers is required'')
      else if length (tb_rows t) = 0 then Some (Leaf ''table: at least one row is required'')
      else (case first_error validate_header (tb_headers t) of
              Some e \<Rightarrow> Some e
            | None \<Rightarrow> first_error (validate_row (length (tb_headers t)))
                        (enumerate 0 (tb_rows t))))"

text \<open>\<open>List.Validate\<close> collects every item's errors.\<close>

definition validate_item :: "string \<Rightarrow> nat \<times> list_item \<Rightarrow> goerr list" where
  "validate_item kind = (\<lambda>(i, item).
     (if li_content item = ''''
      then [errorf ''list: item %d: content is required'' [FInt (int i)]]
      else if \<not> valid_string (li_content item)
      then [errorf ''list: item %d: content must be valid UTF-8'' [FInt (int i)]]
      else [])
     @ (if li_indent item < 0
        then [errorf ''list: item %d: indent must not be negative'' [FInt (int i)]]
        else if li_indent item > maxListIndent
        then [errorf ''list: item %d: indent %d exceeds the maximum of %d''
                [FInt (int i), FInt (li_indent item), FInt maxListIndent]]
        else [])
     @ (if li_checked item \<and> kind \<noteq> ''checkbox''
        then [errorf ''list: item %d: checked is only valid when kind is %q''
                [FInt (int i), FStr ''checkbox'']]
        else []))"

definition validate_list :: "list_el \<Rightarrow> goerr option" where
  "validate_list l =
     (if l_kind l \<notin> {'''', ''bullet'', ''number'', ''checkbox''}
      then Some (errorf ''list: invalid kind %q'' [FStr (l_kind l)])
      else if length (l_items l) = 0 then Some (Leaf ''list: at least one item is required'')
      else errors_join (concat (map (validate_item (l_kind l)) (enumerate 0 (l_items l)))))"

text \<open>
  \<open>Element.Validate\<close> by dynamic type.  \<open>Columns.Validate\<close> numbers its columns (\<open>i\<close>) and
  their elements (\<open>j\<close>) and wraps each nested error with both numbers.
\<close>

fun validate_element :: "codecs \<Rightarrow> element \<Rightarrow> goerr option"
and validate_columns :: "codecs \<Rightarrow> nat \<Rightarrow> column list \<Rightarrow> goerr list"
and validate_cells :: "codecs \<Rightarrow> nat \<Rightarrow> nat \<Rightarrow> element option list \<Rightarrow> goerr list" where
  "validate_element cd (EText t) = validate_text t"
| "validate_element cd (EHeading c) = validate_heading c"
| "validate_element cd (EDivider d) = validate_divider d"
| "validate_element cd (ESpacer h) = validate_spacer h"
| "validate_element cd (EImage data) = validate_image cd data"
| "validate_element cd (EAsset a) = validate_asset a"
| "validate_element cd (EQRCode q) = validate_qrcode cd q"
| "validate_element cd (EBarcode b) = validate_barcode cd b"
| "validate_element cd (ETable t) = validate_table t"
| "validate_element cd (EList l) = validate_list l"
| "validate_element cd (EFeed n) = validate_feed n"
| "validate_element cd (ECut m) = validate_cut m"
| "validate_element cd (EColumns cols) =
     (if length cols = 0 then Some (Leaf ''columns: at least one column is required'')
      else errors_join (validate_columns cd 0 cols))"
| "validate_columns cd i [] = []"
| "validate_columns cd i (Column w els # cols) =
     (if w < 0 then [errorf ''columns: column %d: weight must not be negative'' [FInt (int i)]] else [])
     @ validate_cells cd i 0 els @ validate_columns cd (Suc i) cols"
| "validate_cells cd i j [] = []"
| "validate_cells cd i j (None # els) =
     errorf ''columns: column %d: element %d: nil element'' [FInt (int i), FInt (int j)]
     # validate_cells cd i (Suc j) els"
| "validate_cells cd i j (Some el # els) =
     (case validate_element cd el of
        Some e \<Rightarrow> [Wrapf (sprintf ''columns: column %d: element %d: '' [FInt (int i), FInt (int j)]) e]
      | None \<Rightarrow> [])
     @ validate_cells cd i (Suc j) els"

fun validate_elements :: "codecs \<Rightarrow> element option list \<Rightarrow> goerr list" where
  "validate_elements cd [] = []"
| "validate_elements cd (None # els) = Leaf ''receipt: nil element'' # validate_elements cd els"
| "validate_elements cd (Some el # els) =
     (case validate_element cd el of Some e \<Rightarrow> [e] | None \<Rightarrow> []) @ validate_elements cd els"

definition validate_receipt :: "codecs \<Rightarrow> receipt \<Rightarrow> goerr option" where
  "validate_receipt cd r =
     (let errs =
        (if r_copies r < 0
         then [errorf ''copies must not be negative, got %d'' [FInt (r_copies r)]] else [])
        @ (if r_copies r > maxCopies
           then [errorf ''copies must not exceed %d, got %d'' [FInt maxCopies, FInt (r_copies r)]]
           else [])
        @ validate_elements cd (r_elements r)
      in (case errors_join errs of
            Some err \<Rightarrow> Some (wrap KindValidation ''receipt.Validate'' (Some err))
          | None \<Rightarrow> None))"

definition EffectiveCopies :: "receipt \<Rightarrow> int" where
  "EffectiveCopies r =
     (if r_copies r < 1 then 1 else if r_copies r > maxCopies then maxCopies else r_copies r)"

end
