(* ===== verification/Job.thy ===== *)
theory Job
  imports Receipt
begin

text \<open>
  Package \<open>internal/queue\<close>, the parts every store and the queue share: \<open>job.go\<close> (the job, its
  states, the idempotency rules) and \<open>store.go\<close> (the \<open>Store\<close> interface).  An interface value
  is the record \<open>store_ops\<close> of its methods over a store state \<open>'s\<close>; the contract its
  comments promise is the locale \<open>job_store\<close>, stated over the abstract content of a store, a
  map from job IDs to jobs.  Times are nanoseconds; \<open>time.Now\<close> and the random job ID are
  arguments of the operations that read them.
\<close>

section \<open>Jobs\<close>

datatype job_state = JobPending | JobRunning | JobDone | JobFailed | JobCancelled

fun job_state_string :: "job_state \<Rightarrow> string" where
  "job_state_string JobPending = ''pending''"
| "job_state_string JobRunning = ''running''"
| "job_state_string JobDone = ''done''"
| "job_state_string JobFailed = ''failed''"
| "job_state_string JobCancelled = ''cancelled''"

text \<open>Rank in the life cycle: the order in which a job moves through its states.\<close>

instantiation job_state :: linorder
begin

definition less_eq_job_state :: "job_state \<Rightarrow> job_state \<Rightarrow> bool" where
  "less_eq_job_state a b \<longleftrightarrow>
     (case a of JobPending \<Rightarrow> (0::nat) | JobRunning \<Rightarrow> 1 | JobDone \<Rightarrow> 2 | JobFailed \<Rightarrow> 3 | JobCancelled \<Rightarrow> 4)
     \<le> (case b of JobPending \<Rightarrow> 0 | JobRunning \<Rightarrow> 1 | JobDone \<Rightarrow> 2 | JobFailed \<Rightarrow> 3 | JobCancelled \<Rightarrow> 4)"

definition less_job_state :: "job_state \<Rightarrow> job_state \<Rightarrow> bool" where
  "less_job_state a b \<longleftrightarrow> a \<le> b \<and> \<not> b \<le> (a::job_state)"

instance
  by standard (auto simp: less_eq_job_state_def less_job_state_def split: job_state.splits)

end

type_synonym time = int

record job =
  j_id :: string
  j_printer :: string
  j_receipt :: receipt
  j_state :: job_state
  j_attempts :: int
  j_last_error :: string
  j_created :: time
  j_updated :: time
  j_key :: string

definition IdempotencyKeyTTL :: int where
  "IdempotencyKeyTTL = 24 * 3600 * 1000000000"

definition sameLogicalRequest :: "job \<Rightarrow> job \<Rightarrow> bool" where
  "sameLogicalRequest a b \<longleftrightarrow> j_printer a = j_printer b \<and> j_receipt a = j_receipt b"

definition idempotencyKeyExpired :: "job \<Rightarrow> time \<Rightarrow> bool" where
  "idempotencyKeyExpired j now \<longleftrightarrow> now - j_created j > IdempotencyKeyTTL"

text \<open>The jobs an idempotency key can match at time \<open>now\<close>.\<close>

definition live_key :: "string \<Rightarrow> time \<Rightarrow> job \<Rightarrow> bool" where
  "live_key key now j \<longleftrightarrow> j_key j = key \<and> \<not> idempotencyKeyExpired j now"

definition claimable :: "string \<Rightarrow> job \<Rightarrow> bool" where
  "claimable p j \<longleftrightarrow> j_state j = JobPending \<and> j_printer j = p"

section \<open>The Store interface\<close>

record 's store_ops =
  st_save :: "job \<Rightarrow> 's \<Rightarrow> goerr option \<times> 's"
  st_get :: "string \<Rightarrow> 's \<Rightarrow> goerr + job"
  st_list :: "'s \<Rightarrow> goerr + job list"
  st_next_pending :: "'s \<Rightarrow> goerr + job option"
  st_claim :: "string \<Rightarrow> time \<Rightarrow> 's \<Rightarrow> (goerr + job option) \<times> 's"
  st_enqueue_idem :: "job \<Rightarrow> time \<Rightarrow> goerr + string \<Rightarrow> 's \<Rightarrow> (goerr + job \<times> bool) \<times> 's"

text \<open>What a fresh and a reactivated job look like.\<close>

definition fresh_job :: "string \<Rightarrow> time \<Rightarrow> job \<Rightarrow> job" where
  "fresh_job i now j =
     j\<lparr>j_id := i, j_state := JobPending, j_created := now, j_updated := now\<rparr>"

definition reactivated :: "time \<Rightarrow> job \<Rightarrow> job" where
  "reactivated now j =
     j\<lparr>j_state := JobPending, j_attempts := 0, j_last_error := '''', j_updated := now\<rparr>"

definition running :: "time \<Rightarrow> job \<Rightarrow> job" where
  "running now j = j\<lparr>j_state := JobRunning, j_updated := now\<rparr>"

lemma job_updates [simp]:
  "j_id (fresh_job i now j) = i" "j_state (fresh_job i now j) = JobPending"
  "j_created (fresh_job i now j) = now" "j_key (fresh_job i now j) = j_key j"
  "j_printer (fresh_job i now j) = j_printer j" "j_receipt (fresh_job i now j) = j_receipt j"
  "j_attempts (fresh_job i now j) = j_attempts j"
  "j_id (reactivated now j) = j_id j" "j_state (reactivated now j) = JobPending"
  "j_attempts (reactivated now j) = 0" "j_last_error (reactivated now j) = ''''"
  "j_created (reactivated now j) = j_created j" "j_key (reactivated now j) = j_key j"
  "j_printer (reactivated now j) = j_printer j" "j_receipt (reactivated now j) = j_receipt j"
  "j_id (running now j) = j_id j" "j_state (running now j) = JobRunning"
  "j_created (running now j) = j_created j" "j_key (running now j) = j_key j"
  "j_printer (running now j) = j_printer j" "j_attempts (running now j) = j_attempts j"
  "j_receipt (running now j) = j_receipt j" "j_last_error (running now j) = j_last_error j"
  by (simp_all add: fresh_job_def reactivated_def running_def)

definition key_conflict :: "string \<Rightarrow> goerr" where
  "key_conflict key =
     wrap KindValidation ''queue.Store.EnqueueIdempotent''
       (Some (errorf ''idempotency key %q already used for a different printer or receipt'' [FStr key]))"

lemma key_conflict_kind [simp]:
  "is_kind (Some (key_conflict key)) k \<longleftrightarrow> k = KindValidation"
  by (auto simp: key_conflict_def)

text \<open>The abstract effect of a successful \<open>EnqueueIdempotent\<close> that matched \<open>old\<close>.\<close>

definition idem_hit :: "time \<Rightarrow> job \<Rightarrow> job" where
  "idem_hit now old = (if j_state old = JobFailed then reactivated now old else old)"

lemma idem_hit_simps [simp]:
  "j_id (idem_hit now j) = j_id j" "j_key (idem_hit now j) = j_key j"
  "j_created (idem_hit now j) = j_created j" "j_printer (idem_hit now j) = j_printer j"
  "j_receipt (idem_hit now j) = j_receipt j" "j_state (idem_hit now j) \<noteq> JobFailed"
  by (simp_all add: idem_hit_def)

text \<open>
  \<open>storable j\<close> says that the store's representation loses nothing of \<open>j\<close>, and \<open>text_ok\<close> that an
  error text may be recorded on a job: always true of the memory store, and true in the bbolt
  store of what its JSON encoding preserves.
\<close>

locale job_store =
  fixes ops :: "'s store_ops" and content :: "'s \<Rightarrow> (string \<rightharpoonup> job)" and invar :: "'s \<Rightarrow> bool"
    and storable :: "job \<Rightarrow> bool" and text_ok :: "string \<Rightarrow> bool"
  assumes content_id: "invar s \<Longrightarrow> content s i = Some j \<Longrightarrow> j_id j = i"
    and content_finite: "invar s \<Longrightarrow> finite (dom (content s))"
    and content_storable: "invar s \<Longrightarrow> content s i = Some j \<Longrightarrow> storable j"
    and storable_update: "storable j \<Longrightarrow> text_ok msg \<Longrightarrow>
          storable (j\<lparr>j_state := st, j_attempts := n, j_last_error := msg, j_updated := t\<rparr>)"
    and storable_text: "storable j \<Longrightarrow> text_ok (j_last_error j)"
    and text_ok_ascii: "list_all (\<lambda>c. of_char c < (0x80::nat)) msg \<Longrightarrow> text_ok msg"
    and save_ok: "invar s \<Longrightarrow> storable j \<Longrightarrow> st_save ops j s = (None, s') \<Longrightarrow>
                    invar s' \<and> content s' = (content s)(j_id j \<mapsto> j)"
    and save_err: "invar s \<Longrightarrow> st_save ops j s = (Some e, s') \<Longrightarrow> s' = s"
    and get_ok: "invar s \<Longrightarrow> st_get ops i s = Inr j \<Longrightarrow> content s i = Some j"
    and get_not_found: "invar s \<Longrightarrow> st_get ops i s = Inl e \<Longrightarrow> is_kind (Some e) KindNotFound \<Longrightarrow>
                          content s i = None"
    and list_ok: "invar s \<Longrightarrow> st_list ops s = Inr js \<Longrightarrow>
                    set js = ran (content s) \<and> sorted (map j_id js) \<and> distinct (map j_id js)"
    and next_pending_none: "invar s \<Longrightarrow> st_next_pending ops s = Inr None \<Longrightarrow>
                    \<forall>j \<in> ran (content s). j_state j \<noteq> JobPending"
    and next_pending_some: "invar s \<Longrightarrow> st_next_pending ops s = Inr (Some j) \<Longrightarrow>
                    j \<in> ran (content s) \<and> j_state j = JobPending
                    \<and> (\<forall>k \<in> ran (content s). j_state k = JobPending \<longrightarrow> j_id j \<le> j_id k)"
    and claim_none: "invar s \<Longrightarrow> st_claim ops p now s = (Inr None, s') \<Longrightarrow>
                    s' = s \<and> (\<forall>j \<in> ran (content s). \<not> claimable p j)"
    and claim_some: "invar s \<Longrightarrow> st_claim ops p now s = (Inr (Some j'), s') \<Longrightarrow>
                    invar s' \<and> (\<exists>j. content s (j_id j) = Some j \<and> claimable p j \<and> j' = running now j
                      \<and> (\<forall>k \<in> ran (content s). claimable p k \<longrightarrow> j_id j \<le> j_id k)
                      \<and> content s' = (content s)(j_id j \<mapsto> j'))"
    and claim_err: "invar s \<Longrightarrow> st_claim ops p now s = (Inl e, s') \<Longrightarrow> s' = s"
    and idem_err: "invar s \<Longrightarrow> st_enqueue_idem ops nj now idr s = (Inl e, s') \<Longrightarrow> s' = s"
    and idem_conflict: "invar s \<Longrightarrow> st_enqueue_idem ops nj now idr s = (Inl e, s') \<Longrightarrow>
                    is_kind (Some e) KindValidation \<Longrightarrow>
                    (\<forall>i. idr = Inr i \<longrightarrow> storable (fresh_job i now nj)) \<Longrightarrow>
                    (\<forall>e'. idr = Inl e' \<longrightarrow> \<not> is_kind (Some e') KindValidation) \<Longrightarrow>
                    \<exists>old \<in> ran (content s). j_key nj \<noteq> '''' \<and> live_key (j_key nj) now old
                      \<and> \<not> sameLogicalRequest old nj"
    and idem_existing: "invar s \<Longrightarrow> st_enqueue_idem ops nj now idr s = (Inr (j, False), s') \<Longrightarrow>
                    invar s' \<and> j_key nj \<noteq> '''' \<and>
                    (\<exists>old \<in> ran (content s). live_key (j_key nj) now old \<and> sameLogicalRequest old nj
                      \<and> j = idem_hit now old \<and> content s' = (content s)(j_id old \<mapsto> j))"
    and idem_fresh: "invar s \<Longrightarrow> st_enqueue_idem ops nj now idr s = (Inr (j, True), s') \<Longrightarrow>
                    (\<forall>i. idr = Inr i \<longrightarrow> storable (fresh_job i now nj)) \<Longrightarrow>
                    invar s' \<and> (j_key nj = '''' \<or> (\<forall>old \<in> ran (content s). \<not> live_key (j_key nj) now old))
                    \<and> (\<exists>i. idr = Inr i \<and> j = fresh_job i now nj \<and> content s' = (content s)(i \<mapsto> j))"
begin

lemma ran_content_id: "invar s \<Longrightarrow> j \<in> ran (content s) \<Longrightarrow> content s (j_id j) = Some j"
  using content_id by (fastforce simp: ran_def)

lemma content_in_ran: "content s i = Some j \<Longrightarrow> j \<in> ran (content s)"
  by (auto simp: ran_def)

end

end
