(* ===== verification/StoreMemory.thy ===== *)
theory StoreMemory
  imports Job "HOL-Library.AList"
begin

text \<open>
  \<open>queue/store_memory.go\<close>: the in-memory \<open>Store\<close>.  The Go map is an association list with
  distinct keys whose order is the (arbitrary) order \<open>range\<close> visits the map in; every
  operation is one critical section under the store's mutex, hence one function here.
\<close>

type_synonym memstore = "(string \<times> job) list"

definition mem_new :: memstore where
  "mem_new = []"

definition mem_save :: "job \<Rightarrow> memstore \<Rightarrow> goerr option \<times> memstore" where
  "mem_save j s = (None, AList.update (j_id j) j s)"

definition mem_get :: "string \<Rightarrow> memstore \<Rightarrow> goerr + job" where
  "mem_get i s =
     (case map_of s i of
        None \<Rightarrow> Inl (wrap KindNotFound ''queue.Store.Get'' (Some (errorf ''job %q not found'' [FStr i])))
      | Some j \<Rightarrow> Inr j)"

definition mem_list :: "memstore \<Rightarrow> goerr + job list" where
  "mem_list s = Inr (sort_key j_id (map snd s))"

text \<open>The scan for the lowest-ID job that satisfies a predicate, shared by two operations.\<close>

fun mem_scan :: "(job \<Rightarrow> bool) \<Rightarrow> memstore \<Rightarrow> (string \<times> job) option \<Rightarrow> (string \<times> job) option" where
  "mem_scan q [] nxt = nxt"
| "mem_scan q ((k, j) # s) nxt =
     (if \<not> q j then mem_scan q s nxt
      else (case nxt of
              None \<Rightarrow> mem_scan q s (Some (k, j))
            | Some (k', j') \<Rightarrow>
                if j_id j < j_id j' then mem_scan q s (Some (k, j)) else mem_scan q s nxt))"

definition mem_next_pending :: "memstore \<Rightarrow> goerr + job option" where
  "mem_next_pending s =
     (case mem_scan (\<lambda>j. j_state j = JobPending) s None of
        None \<Rightarrow> Inr None
      | Some (k, j) \<Rightarrow> Inr (Some j))"

definition mem_claim :: "string \<Rightarrow> time \<Rightarrow> memstore \<Rightarrow> (goerr + job option) \<times> memstore" where
  "mem_claim printerName now s =
     (case mem_scan (claimable printerName) s None of
        None \<Rightarrow> (Inr None, s)
      | Some (k, j) \<Rightarrow>
          let j' = j\<lparr>j_state := JobRunning, j_updated := now\<rparr>
          in (Inr (Some j'), AList.update k j' s))"

definition mem_find_key :: "string \<Rightarrow> time \<Rightarrow> memstore \<Rightarrow> job option" where
  "mem_find_key key now s =
     map_option snd (find (\<lambda>(k, j). j_key j = key \<and> \<not> idempotencyKeyExpired j now) s)"

definition mem_enqueue_idem ::
  "job \<Rightarrow> time \<Rightarrow> goerr + string \<Rightarrow> memstore \<Rightarrow> (goerr + job \<times> bool) \<times> memstore" where
  "mem_enqueue_idem newJob now newID s =
     (case (if j_key newJob \<noteq> '''' then mem_find_key (j_key newJob) now s else None) of
        Some existing \<Rightarrow>
          if \<not> sameLogicalRequest existing newJob then (Inl (key_conflict (j_key newJob)), s)
          else if j_state existing = JobFailed
          then (let result = existing\<lparr>j_state := JobPending, j_attempts := 0,
                                      j_last_error := '''', j_updated := now\<rparr>
                in (Inr (result, False), AList.update (j_id result) result s))
          else (Inr (existing, False), s)
      | None \<Rightarrow>
          (case newID of
             Inl err \<Rightarrow> (Inl (wrap KindPermanent ''queue.Store.EnqueueIdempotent'' (Some err)), s)
           | Inr i \<Rightarrow>
               let j = newJob\<lparr>j_id := i, j_state := JobPending, j_created := now, j_updated := now\<rparr>
               in (Inr (j, True), AList.update i j s)))"

definition mem_ops :: "memstore store_ops" where
  "mem_ops = \<lparr>st_save = mem_save, st_get = mem_get, st_list = mem_list,
              st_next_pending = mem_next_pending, st_claim = mem_claim,
              st_enqueue_idem = mem_enqueue_idem\<rparr>"

lemma mem_ops_simps [simp]:
  "st_save mem_ops = mem_save" "st_get mem_ops = mem_get" "st_list mem_ops = mem_list"
  "st_next_pending mem_ops = mem_next_pending" "st_claim mem_ops = mem_claim"
  "st_enqueue_idem mem_ops = mem_enqueue_idem"
  by (simp_all add: mem_ops_def)

section \<open>The invariant\<close>

text \<open>Keys are distinct and every job is stored under its own ID.\<close>

definition mem_invar :: "memstore \<Rightarrow> bool" where
  "mem_invar s \<longleftrightarrow> distinct (map fst s) \<and> list_all (\<lambda>(k, j). j_id j = k) s"

lemma mem_invar_new: "mem_invar mem_new"
  by (simp add: mem_invar_def mem_new_def)

lemma mem_invar_keys: "mem_invar s \<Longrightarrow> (k, j) \<in> set s \<Longrightarrow> j_id j = k"
  by (auto simp: mem_invar_def list_all_iff)

lemma mem_invar_update:
  assumes "mem_invar s" and "j_id j = k"
  shows "mem_invar (AList.update k j s)"
proof -
  have "(k', j') \<in> set (AList.update k j s) \<Longrightarrow> j_id j' = k'" for k' j'
  proof -
    assume h: "(k', j') \<in> set (AList.update k j s)"
    have d: "distinct (map fst (AList.update k j s))"
      using assms(1) by (simp add: mem_invar_def distinct_update)
    with h have "map_of (AList.update k j s) k' = Some j'" by simp
    then have "((map_of s)(k \<mapsto> j)) k' = Some j'" by (simp add: update_conv')
    then show "j_id j' = k'"
      using assms map_of_SomeD mem_invar_keys by (fastforce split: if_splits)
  qed
  with assms show ?thesis
    by (auto simp: mem_invar_def distinct_update list_all_iff)
qed

lemma mem_content_set: "mem_invar s \<Longrightarrow> map_of s k = Some j \<longleftrightarrow> (k, j) \<in> set s"
  by (simp add: mem_invar_def)

lemma mem_ran: "mem_invar s \<Longrightarrow> ran (map_of s) = snd ` set s"
  by (simp add: ran_distinct mem_invar_def)

lemma mem_map_ids: "mem_invar s \<Longrightarrow> map (j_id \<circ> snd) s = map fst s"
  by (induction s) (auto simp: mem_invar_def)

section \<open>The scan finds the lowest ID\<close>

lemma mem_scan_result:
  "case mem_scan q s nxt of
     None \<Rightarrow> nxt = None \<and> (\<forall>(k, j) \<in> set s. \<not> q j)
   | Some (k, j) \<Rightarrow>
       (nxt = Some (k, j) \<or> (k, j) \<in> set s \<and> q j)
       \<and> (\<forall>(k', j') \<in> set s. q j' \<longrightarrow> j_id j \<le> j_id j')
       \<and> (\<forall>k' j'. nxt = Some (k', j') \<longrightarrow> j_id j \<le> j_id j')"
proof (induction q s nxt rule: mem_scan.induct)
  case (1 q nxt)
  show ?case by (simp split: option.split)
next
  case (2 q k j s nxt)
  consider "\<not> q j" | "q j" "nxt = None"
    | k' j' where "q j" "nxt = Some (k', j')" "j_id j < j_id j'"
    | k' j' where "q j" "nxt = Some (k', j')" "\<not> j_id j < j_id j'"
    by (cases nxt) auto
  then show ?case
  proof cases
    case 1
    with 2 show ?thesis by (auto split: option.splits)
  next
    case c: 2
    with 2(2) show ?thesis by (auto split: option.splits)
  next
    case c: (3 k' j')
    with 2(3) [of "(k', j')" k' j'] show ?thesis
      by (auto split: option.splits dest: order.trans [OF _ less_imp_le])
  next
    case c: (4 k' j')
    with 2(4) [of "(k', j')" k' j'] show ?thesis
      by (auto split: option.splits intro: order.trans)
  qed
qed

lemma mem_scan_None:
  "mem_scan q s None = None \<Longrightarrow> (k, j) \<in> set s \<Longrightarrow> \<not> q j"
  using mem_scan_result [where q = q and s = s and nxt = None] by auto

lemma mem_scan_Some:
  "mem_scan q s None = Some (k, j) \<Longrightarrow>
     (k, j) \<in> set s \<and> q j \<and> (\<forall>(k', j') \<in> set s. q j' \<longrightarrow> j_id j \<le> j_id j')"
  using mem_scan_result [where q = q and s = s and nxt = None] by auto

lemma mem_find_key_Some:
  "mem_find_key key now s = Some j \<Longrightarrow> \<exists>k. (k, j) \<in> set s \<and> live_key key now j"
  by (induction s) (auto simp: mem_find_key_def live_key_def split: if_splits)

lemma mem_find_key_None:
  "mem_find_key key now s = None \<Longrightarrow> (k, j) \<in> set s \<Longrightarrow> \<not> live_key key now j"
  by (auto simp: mem_find_key_def find_None_iff live_key_def)

section \<open>The memory store keeps the Store contract\<close>

interpretation mem: job_store mem_ops map_of mem_invar "\<lambda>_. True" "\<lambda>_. True"
proof (unfold_locales, goal_cases)
  case (1 s i j)
  then show ?case by (auto dest: map_of_SomeD mem_invar_keys)
next
  case (2 s)
  show ?case by (rule finite_dom_map_of)
next
  case (3 s i j)
  show ?case by simp
next
  case (4 j e st n t)
  show ?case by simp
next
  case (5 j)
  show ?case by simp
next
  case (6 msg)
  show ?case by simp
next
  case (7 s j s')
  then show ?case by (auto simp: mem_save_def mem_invar_update update_conv')
next
  case (8 s j e s')
  then show ?case by (simp add: mem_save_def)
next
  case (9 s i j)
  then show ?case by (simp add: mem_get_def split: option.splits)
next
  case (10 s i e)
  then show ?case by (simp add: mem_get_def split: option.splits)
next
  case (11 s js)
  then have js: "js = sort_key j_id (map snd s)" by (simp add: mem_list_def)
  have "distinct (map j_id (map snd s))"
    using 11(1) by (simp only: map_map mem_map_ids mem_invar_def)
  then have "distinct (map j_id js)"
    unfolding js by (metis distinct_map distinct_sort set_sort)
  then show ?case using 11(1) by (simp add: js mem_ran)
next
  case (12 s)
  then have "mem_scan (\<lambda>j. j_state j = JobPending) s None = None"
    by (auto simp: mem_next_pending_def split: option.splits)
  from mem_scan_None [OF this] 12(1) show ?case by (auto simp: mem_ran)
next
  case (13 s j)
  then obtain k where "mem_scan (\<lambda>j. j_state j = JobPending) s None = Some (k, j)"
    by (auto simp: mem_next_pending_def split: option.splits)
  from mem_scan_Some [OF this] 13(1) show ?case by (force simp: mem_ran)
next
  case (14 s p now s')
  then have n: "mem_scan (claimable p) s None = None" and "s' = s"
    by (auto simp: mem_claim_def Let_def split: option.splits)
  with mem_scan_None [OF n] 14(1) show ?case by (auto simp: mem_ran)
next
  case (15 s p now j' s')
  then obtain k j where f: "mem_scan (claimable p) s None = Some (k, j)"
    and j': "j' = running now j" and s': "s' = AList.update k j' s"
    by (auto simp: mem_claim_def running_def Let_def split: option.splits)
  from mem_scan_Some [OF f] have m: "(k, j) \<in> set s" "claimable p j"
    "\<forall>(k', i) \<in> set s. claimable p i \<longrightarrow> j_id j \<le> j_id i" by auto
  with 15(1) have k: "j_id j = k" by (simp add: mem_invar_keys)
  show ?case
    using m k 15(1) by (fastforce simp: s' j' mem_invar_update update_conv' mem_ran mem_content_set)
next
  case (16 s p now e s')
  then show ?case by (auto simp: mem_claim_def Let_def split: option.splits)
next
  case (17 s nj now idr e s')
  then show ?case by (auto simp: mem_enqueue_idem_def Let_def split: option.splits sum.splits if_splits)
next
  case (18 s nj now idr e s')
  then obtain old where o: "mem_find_key (j_key nj) now s = Some old" "j_key nj \<noteq> ''''"
    "\<not> sameLogicalRequest old nj"
    by (auto simp: mem_enqueue_idem_def Let_def split: option.splits sum.splits if_splits)
  from mem_find_key_Some [OF o(1)] o(2,3) 18(1) show ?case by (force simp: mem_ran)
next
  case (19 s nj now idr j s')
  then obtain old where o: "mem_find_key (j_key nj) now s = Some old" "j_key nj \<noteq> ''''"
    "sameLogicalRequest old nj" "j = idem_hit now old"
    and s': "s' = (if j_state old = JobFailed then AList.update (j_id j) j s else s)"
    by (auto simp: mem_enqueue_idem_def idem_hit_def reactivated_def Let_def
          split: option.splits sum.splits if_splits)
  from mem_find_key_Some [OF o(1)] obtain k where m: "(k, old) \<in> set s" "live_key (j_key nj) now old"
    by auto
  with 19(1) have k: "j_id old = k" "map_of s k = Some old"
    by (simp_all add: mem_invar_keys mem_content_set)
  have "content_eq": "map_of s' = (map_of s)(j_id old \<mapsto> j)"
    using k by (auto simp: s' o(4) update_conv' idem_hit_def fun_eq_iff)
  then show ?case
    using o m k 19(1) by (force simp: s' mem_invar_update mem_ran)
next
  case (20 s nj now idr j s')
  then obtain i where i: "idr = Inr i" "j = fresh_job i now nj" "s' = AList.update i j s"
    and n: "j_key nj = '''' \<or> mem_find_key (j_key nj) now s = None"
    by (auto simp: mem_enqueue_idem_def fresh_job_def Let_def split: option.splits sum.splits if_splits)
  have "\<not> live_key (j_key nj) now old" if "j_key nj \<noteq> ''''" "old \<in> ran (map_of s)" for old
    using n that 20(1) mem_find_key_None by (force simp: mem_ran)
  with i 20(1) show ?case by (auto simp: mem_invar_update update_conv')
qed

end
