(* ===== verification/StoreBolt.thy ===== *)
theory StoreBolt
  imports Job
begin

text \<open>
  \<open>queue/store_bolt.go\<close>: the persistent \<open>Store\<close>.  The bbolt library and the JSON encoding of
  a job are parameters: a record \<open>bbolt\<close> of what the code uses of one bucket (a transaction may
  fail to begin or to commit; \<open>Put\<close>, \<open>Get\<close> and the cursor order) and a record \<open>job_codec\<close>.
  Their documented behaviour is stated by \<open>bbolt_ok\<close> and \<open>codec_ok\<close>.  With them the bbolt
  store keeps the same contract as the memory store.
\<close>

section \<open>Parameters\<close>

record ('b, 'd) bbolt =
  bb_begin :: "'b \<Rightarrow> goerr option"
  bb_commit :: "'b \<Rightarrow> goerr option"
  bb_put :: "string \<Rightarrow> 'd \<Rightarrow> 'b \<Rightarrow> goerr + 'b"
  bb_get :: "string \<Rightarrow> 'b \<Rightarrow> 'd option"
  bb_entries :: "'b \<Rightarrow> (string \<times> 'd) list"

record 'd job_codec =
  marshal_job :: "job \<Rightarrow> goerr + 'd"
  unmarshal_job :: "'d \<Rightarrow> goerr + job"
  receipt_ok :: "receipt \<Rightarrow> bool"

text \<open>
  Documented behaviour of bbolt: a cursor walks the keys of a bucket in ascending byte order,
  \<open>Get\<close> agrees with it, \<open>Put\<close> sets one key, and its errors are its own.
\<close>

definition bbolt_ok :: "('b, 'd) bbolt \<Rightarrow> bool" where
  "bbolt_ok db \<longleftrightarrow>
     (\<forall>b. sorted (map fst (bb_entries db b)) \<and> distinct (map fst (bb_entries db b)))
   \<and> (\<forall>b k. bb_get db k b = map_of (bb_entries db b) k)
   \<and> (\<forall>b b' k d. bb_put db k d b = Inr b' \<longrightarrow>
        map_of (bb_entries db b') = (map_of (bb_entries db b))(k \<mapsto> d))
   \<and> (\<forall>b e. bb_begin db b = Some e \<longrightarrow> plain_error e)
   \<and> (\<forall>b e. bb_commit db b = Some e \<longrightarrow> plain_error e)
   \<and> (\<forall>b k d e. bb_put db k d b = Inl e \<longrightarrow> plain_error e)"

text \<open>
  A job JSON keeps: its strings are valid UTF-8 (the encoder replaces other bytes) and its
  receipt survives the encoding.
\<close>

definition bolt_storable :: "'d job_codec \<Rightarrow> job \<Rightarrow> bool" where
  "bolt_storable c j \<longleftrightarrow> valid_string (j_id j) \<and> valid_string (j_printer j)
     \<and> valid_string (j_last_error j) \<and> valid_string (j_key j) \<and> receipt_ok c (j_receipt j)"

definition codec_ok :: "'d job_codec \<Rightarrow> bool" where
  "codec_ok c \<longleftrightarrow>
     (\<forall>j. bolt_storable c j \<longrightarrow> (\<exists>d. marshal_job c j = Inr d \<and> unmarshal_job c d = Inr j))"

section \<open>Transactions\<close>

text \<open>\<open>db.View\<close> and \<open>db.Update\<close>: an error from the function or the commit leaves the bucket as it was.\<close>

definition db_view :: "('b, 'd) bbolt \<Rightarrow> ('b \<Rightarrow> goerr + 'a) \<Rightarrow> 'b \<Rightarrow> goerr + 'a" where
  "db_view db f b = (case bb_begin db b of Some e \<Rightarrow> Inl e | None \<Rightarrow> f b)"

definition db_update :: "('b, 'd) bbolt \<Rightarrow> ('b \<Rightarrow> goerr + 'a \<times> 'b) \<Rightarrow> 'b \<Rightarrow> (goerr + 'a) \<times> 'b" where
  "db_update db f b =
     (case bb_begin db b of
        Some e \<Rightarrow> (Inl e, b)
      | None \<Rightarrow>
          (case f b of
             Inl e \<Rightarrow> (Inl e, b)
           | Inr (a, b') \<Rightarrow>
               (case bb_commit db b' of Some e \<Rightarrow> (Inl e, b) | None \<Rightarrow> (Inr a, b'))))"

lemma db_update_Inl: "db_update db f b = (Inl e, b') \<Longrightarrow>
    b' = b \<and> (bb_begin db b = Some e \<or> f b = Inl e \<or> (\<exists>a c. f b = Inr (a, c) \<and> bb_commit db c = Some e))"
  by (auto simp: db_update_def split: option.splits sum.splits)

lemma db_update_Inr: "db_update db f b = (Inr a, b') \<Longrightarrow> f b = Inr (a, b')"
  by (auto simp: db_update_def split: option.splits sum.splits)

section \<open>Operations\<close>

text \<open>
  \<open>NewBoltStore\<close>: \<open>opn\<close> is \<open>bbolt.Open\<close>, \<open>create\<close> the transaction that creates the jobs bucket, \<open>store\<close> the
  store over an open file.
\<close>

definition NewBoltStore ::
  "(string \<Rightarrow> goerr + 'f) \<Rightarrow> ('f \<Rightarrow> goerr option) \<Rightarrow> ('f \<Rightarrow> 'o) \<Rightarrow> string \<Rightarrow> goerr + 'o" where
  "NewBoltStore opn create store path =
     (case opn path of
        Inl err \<Rightarrow> Inl (wrap KindPermanent ''queue.NewBoltStore'' (Some err))
      | Inr db \<Rightarrow>
          (case create db of
             Some err \<Rightarrow> Inl (wrap KindPermanent ''queue.NewBoltStore'' (Some err))
           | None \<Rightarrow> Inr (store db)))"

definition bolt_put_job :: "('b, 'd) bbolt \<Rightarrow> 'd job_codec \<Rightarrow> job \<Rightarrow> 'b \<Rightarrow> goerr + 'b" where
  "bolt_put_job db c j b =
     (case marshal_job c j of Inl e \<Rightarrow> Inl e | Inr d \<Rightarrow> bb_put db (j_id j) d b)"

definition bolt_save :: "('b, 'd) bbolt \<Rightarrow> 'd job_codec \<Rightarrow> job \<Rightarrow> 'b \<Rightarrow> goerr option \<times> 'b" where
  "bolt_save db c j b =
     (case marshal_job c j of
        Inl err \<Rightarrow> (Some (wrap KindPermanent ''queue.Store.Save'' (Some err)), b)
      | Inr d \<Rightarrow>
          (case db_update db (\<lambda>b. map_sum id (Pair ()) (bb_put db (j_id j) d b)) b of
             (Inl err, b') \<Rightarrow> (Some (wrap KindPermanent ''queue.Store.Save'' (Some err)), b')
           | (Inr _, b') \<Rightarrow> (None, b')))"

definition bolt_get :: "('b, 'd) bbolt \<Rightarrow> 'd job_codec \<Rightarrow> string \<Rightarrow> 'b \<Rightarrow> goerr + job" where
  "bolt_get db c i b =
     (case db_view db
             (\<lambda>b. case bb_get db i b of
                None \<Rightarrow> Inl (wrap KindNotFound ''queue.Store.Get''
                              (Some (errorf ''job %q not found'' [FStr i])))
              | Some d \<Rightarrow> unmarshal_job c d) b of
        Inl err \<Rightarrow>
          if is_kind (Some err) KindNotFound then Inl err
          else Inl (wrap KindPermanent ''queue.Store.Get'' (Some err))
      | Inr j \<Rightarrow> Inr j)"

fun decode_all :: "'d job_codec \<Rightarrow> (string \<times> 'd) list \<Rightarrow> goerr + job list" where
  "decode_all c [] = Inr []"
| "decode_all c ((k, d) # es) =
     (case unmarshal_job c d of
        Inl e \<Rightarrow> Inl e
      | Inr j \<Rightarrow> (case decode_all c es of Inl e \<Rightarrow> Inl e | Inr js \<Rightarrow> Inr (j # js)))"

definition bolt_list :: "('b, 'd) bbolt \<Rightarrow> 'd job_codec \<Rightarrow> 'b \<Rightarrow> goerr + job list" where
  "bolt_list db c b =
     (case db_view db (\<lambda>b. decode_all c (bb_entries db b)) b of
        Inl err \<Rightarrow> Inl (wrap KindPermanent ''queue.Store.List'' (Some err))
      | Inr js \<Rightarrow> Inr js)"

text \<open>The cursor walk that stops at the first job satisfying a predicate.\<close>

fun decode_first :: "'d job_codec \<Rightarrow> (job \<Rightarrow> bool) \<Rightarrow> (string \<times> 'd) list \<Rightarrow> goerr + job option" where
  "decode_first c q [] = Inr None"
| "decode_first c q ((k, d) # es) =
     (case unmarshal_job c d of
        Inl e \<Rightarrow> Inl e
      | Inr j \<Rightarrow> if q j then Inr (Some j) else decode_first c q es)"

definition bolt_next_pending :: "('b, 'd) bbolt \<Rightarrow> 'd job_codec \<Rightarrow> 'b \<Rightarrow> goerr + job option" where
  "bolt_next_pending db c b =
     (case db_view db (\<lambda>b. decode_first c (\<lambda>j. j_state j = JobPending) (bb_entries db b)) b of
        Inl err \<Rightarrow> Inl (wrap KindPermanent ''queue.Store.NextPending'' (Some err))
      | Inr r \<Rightarrow> Inr r)"

definition bolt_claim_tx ::
  "('b, 'd) bbolt \<Rightarrow> 'd job_codec \<Rightarrow> string \<Rightarrow> time \<Rightarrow> 'b \<Rightarrow> goerr + job option \<times> 'b" where
  "bolt_claim_tx db c printerName now b =
     (case decode_first c (claimable printerName) (bb_entries db b) of
        Inl e \<Rightarrow> Inl e
      | Inr None \<Rightarrow> Inr (None, b)
      | Inr (Some j) \<Rightarrow>
          let j' = j\<lparr>j_state := JobRunning, j_updated := now\<rparr>
          in (case bolt_put_job db c j' b of Inl e \<Rightarrow> Inl e | Inr b' \<Rightarrow> Inr (Some j', b')))"

definition bolt_claim ::
  "('b, 'd) bbolt \<Rightarrow> 'd job_codec \<Rightarrow> string \<Rightarrow> time \<Rightarrow> 'b \<Rightarrow> (goerr + job option) \<times> 'b" where
  "bolt_claim db c printerName now b =
     (case db_update db (bolt_claim_tx db c printerName now) b of
        (Inl err, b') \<Rightarrow> (Inl (wrap KindPermanent ''queue.Store.ClaimNextPending'' (Some err)), b')
      | (Inr r, b') \<Rightarrow> (Inr r, b'))"

definition bolt_find_key ::
  "('b, 'd) bbolt \<Rightarrow> 'd job_codec \<Rightarrow> string \<Rightarrow> time \<Rightarrow> 'b \<Rightarrow> goerr + job option" where
  "bolt_find_key db c key now b =
     decode_first c (\<lambda>j. j_key j = key \<and> \<not> idempotencyKeyExpired j now) (bb_entries db b)"

definition bolt_idem_tx ::
  "('b, 'd) bbolt \<Rightarrow> 'd job_codec \<Rightarrow> job \<Rightarrow> time \<Rightarrow> goerr + string \<Rightarrow> 'b
     \<Rightarrow> goerr + (job \<times> bool) \<times> 'b" where
  "bolt_idem_tx db c newJob now newID b =
     (case (if j_key newJob \<noteq> '''' then bolt_find_key db c (j_key newJob) now b else Inr None) of
        Inl err \<Rightarrow> Inl err
      | Inr (Some existing) \<Rightarrow>
          if \<not> sameLogicalRequest existing newJob then Inl (key_conflict (j_key newJob))
          else if j_state existing = JobFailed
          then (let existing = existing\<lparr>j_state := JobPending, j_attempts := 0,
                                        j_last_error := '''', j_updated := now\<rparr>
                in (case bolt_put_job db c existing b of
                      Inl e \<Rightarrow> Inl e | Inr b' \<Rightarrow> Inr ((existing, False), b')))
          else Inr ((existing, False), b)
      | Inr None \<Rightarrow>
          (case newID of
             Inl err \<Rightarrow> Inl err
           | Inr i \<Rightarrow>
               let j = newJob\<lparr>j_id := i, j_state := JobPending, j_created := now, j_updated := now\<rparr>
               in (case bolt_put_job db c j b of Inl e \<Rightarrow> Inl e | Inr b' \<Rightarrow> Inr ((j, True), b'))))"

definition bolt_enqueue_idem ::
  "('b, 'd) bbolt \<Rightarrow> 'd job_codec \<Rightarrow> job \<Rightarrow> time \<Rightarrow> goerr + string \<Rightarrow> 'b
     \<Rightarrow> (goerr + job \<times> bool) \<times> 'b" where
  "bolt_enqueue_idem db c newJob now newID b =
     (case db_update db (bolt_idem_tx db c newJob now newID) b of
        (Inl err, b') \<Rightarrow>
          if is_kind (Some err) KindValidation then (Inl err, b')
          else (Inl (wrap KindPermanent ''queue.Store.EnqueueIdempotent'' (Some err)), b')
      | (Inr r, b') \<Rightarrow> (Inr r, b'))"

definition bolt_ops :: "('b, 'd) bbolt \<Rightarrow> 'd job_codec \<Rightarrow> 'b store_ops" where
  "bolt_ops db c =
     \<lparr>st_save = bolt_save db c, st_get = bolt_get db c, st_list = bolt_list db c,
      st_next_pending = bolt_next_pending db c, st_claim = bolt_claim db c,
      st_enqueue_idem = bolt_enqueue_idem db c\<rparr>"

lemma bolt_ops_simps [simp]:
  "st_save (bolt_ops db c) = bolt_save db c" "st_get (bolt_ops db c) = bolt_get db c"
  "st_list (bolt_ops db c) = bolt_list db c"
  "st_next_pending (bolt_ops db c) = bolt_next_pending db c"
  "st_claim (bolt_ops db c) = bolt_claim db c"
  "st_enqueue_idem (bolt_ops db c) = bolt_enqueue_idem db c"
  by (simp_all add: bolt_ops_def)

section \<open>Content and invariant\<close>

definition decoded :: "'d job_codec \<Rightarrow> 'd \<Rightarrow> job option" where
  "decoded c d = (case unmarshal_job c d of Inl _ \<Rightarrow> None | Inr j \<Rightarrow> Some j)"

lemma decoded_Some [simp]: "decoded c d = Some j \<longleftrightarrow> unmarshal_job c d = Inr j"
  by (simp add: decoded_def split: sum.split)

definition bolt_content :: "('b, 'd) bbolt \<Rightarrow> 'd job_codec \<Rightarrow> 'b \<Rightarrow> (string \<rightharpoonup> job)" where
  "bolt_content db c b i = Option.bind (map_of (bb_entries db b) i) (decoded c)"

text \<open>Every record decodes to a storable job kept under its own ID.\<close>

definition bolt_invar :: "('b, 'd) bbolt \<Rightarrow> 'd job_codec \<Rightarrow> 'b \<Rightarrow> bool" where
  "bolt_invar db c b \<longleftrightarrow> bbolt_ok db \<and> codec_ok c
     \<and> (\<forall>(i, d) \<in> set (bb_entries db b).
          \<exists>j. unmarshal_job c d = Inr j \<and> j_id j = i \<and> bolt_storable c j)"

lemma bolt_entries_map:
  "bbolt_ok db \<Longrightarrow> map_of (bb_entries db b) i = Some d \<longleftrightarrow> (i, d) \<in> set (bb_entries db b)"
  by (simp add: bbolt_ok_def)

lemma bolt_content_Some:
  assumes "bolt_invar db c b"
  shows "bolt_content db c b i = Some j \<longleftrightarrow> (\<exists>d. (i, d) \<in> set (bb_entries db b) \<and> unmarshal_job c d = Inr j)"
  using assms bolt_entries_map [of db b i]
  by (auto simp: bolt_content_def bolt_invar_def bind_eq_Some_conv)

lemma bolt_content_facts:
  assumes "bolt_invar db c b" and "bolt_content db c b i = Some j"
  shows "j_id j = i" and "bolt_storable c j"
  using assms by (auto simp: bolt_content_Some) (auto simp: bolt_invar_def)

lemma bolt_put_job_ok:
  assumes inv: "bolt_invar db c b" and st: "bolt_storable c j" and put: "bolt_put_job db c j b = Inr b'"
  shows "bolt_invar db c b' \<and> bolt_content db c b' = (bolt_content db c b)(j_id j \<mapsto> j)"
proof -
  from inv have db: "bbolt_ok db" and c: "codec_ok c" by (simp_all add: bolt_invar_def)
  from c st obtain d where d: "marshal_job c j = Inr d" "unmarshal_job c d = Inr j"
    by (auto simp: codec_ok_def)
  with put have p: "bb_put db (j_id j) d b = Inr b'" by (simp add: bolt_put_job_def)
  with db have m: "map_of (bb_entries db b') = (map_of (bb_entries db b))(j_id j \<mapsto> d)"
    by (simp add: bbolt_ok_def)
  have "\<exists>j. unmarshal_job c d' = Inr j \<and> j_id j = i \<and> bolt_storable c j"
    if "(i, d') \<in> set (bb_entries db b')" for i d'
  proof -
    from that db have "map_of (bb_entries db b') i = Some d'" by (simp add: bolt_entries_map)
    with m d st inv show ?thesis
      by (auto simp: bolt_invar_def split: if_splits dest!: map_of_SomeD)
  qed
  then have "bolt_invar db c b'" using db c by (auto simp: bolt_invar_def)
  moreover have "bolt_content db c b' = (bolt_content db c b)(j_id j \<mapsto> j)"
    using m d by (auto simp: bolt_content_def decoded_def fun_eq_iff)
  ultimately show ?thesis by simp
qed

lemma bolt_put_job_err:
  assumes "bolt_invar db c b" and "bolt_storable c j" and "bolt_put_job db c j b = Inl e"
  shows "plain_error e"
proof -
  from assms obtain d where "marshal_job c j = Inr d"
    by (auto simp: bolt_invar_def codec_ok_def)
  with assms show ?thesis
    by (auto simp: bolt_put_job_def bolt_invar_def bbolt_ok_def)
qed

lemma decode_all_ok:
  "decode_all c es = Inr js \<Longrightarrow> \<forall>(i, d) \<in> set es. \<exists>j. unmarshal_job c d = Inr j \<and> j_id j = i \<Longrightarrow>
     map j_id js = map fst es \<and> (\<forall>j. j \<in> set js \<longleftrightarrow> (\<exists>i d. (i, d) \<in> set es \<and> unmarshal_job c d = Inr j))"
proof (induction es arbitrary: js)
  case Nil
  then show ?case by simp
next
  case (Cons e es)
  obtain i d where e: "e = (i, d)" by (cases e)
  from Cons.prems e obtain j js' where j: "unmarshal_job c d = Inr j" "j_id j = i"
    and js: "decode_all c es = Inr js'" "js = j # js'"
    by (auto split: sum.splits)
  from Cons.IH [OF js(1)] Cons.prems(2) have
    "map j_id js' = map fst es \<and>
     (\<forall>j. j \<in> set js' \<longleftrightarrow> (\<exists>i d. (i, d) \<in> set es \<and> unmarshal_job c d = Inr j))" by simp
  with e j js(2) show ?case by auto
qed

lemma decode_first_ok:
  "\<forall>(i, d) \<in> set es. \<exists>j. unmarshal_job c d = Inr j \<and> j_id j = i \<Longrightarrow> sorted (map fst es) \<Longrightarrow>
   case decode_first c q es of
     Inl e \<Rightarrow> False
   | Inr None \<Rightarrow> \<forall>(i, d) \<in> set es. \<forall>j. unmarshal_job c d = Inr j \<longrightarrow> \<not> q j
   | Inr (Some j) \<Rightarrow> q j \<and> (\<exists>i d. (i, d) \<in> set es \<and> unmarshal_job c d = Inr j)
       \<and> (\<forall>(i, d) \<in> set es. \<forall>k. unmarshal_job c d = Inr k \<longrightarrow> q k \<longrightarrow> j_id j \<le> j_id k)"
proof (induction es)
  case Nil
  then show ?case by simp
next
  case (Cons e es)
  obtain i d where e: "e = (i, d)" by (cases e)
  from Cons.prems e obtain j where j: "unmarshal_job c d = Inr j" "j_id j = i" by auto
  show ?case
  proof (cases "q j")
    case True
    have "\<forall>(i', d') \<in> set es. \<forall>k. unmarshal_job c d' = Inr k \<longrightarrow> j_id j \<le> j_id k"
      using Cons.prems e j by fastforce
    with True e j show ?thesis by auto
  next
    case False
    with Cons e j show ?thesis by (auto split: sum.splits option.splits)
  qed
qed

lemma bolt_first:
  assumes inv: "bolt_invar db c b"
  shows "decode_first c q (bb_entries db b) \<noteq> Inl e"
    and "decode_first c q (bb_entries db b) = Inr None \<Longrightarrow>
           \<forall>j \<in> ran (bolt_content db c b). \<not> q j"
    and "decode_first c q (bb_entries db b) = Inr (Some j) \<Longrightarrow>
           q j \<and> bolt_content db c b (j_id j) = Some j
           \<and> (\<forall>k \<in> ran (bolt_content db c b). q k \<longrightarrow> j_id j \<le> j_id k)"
proof -
  have ids: "\<forall>(i, d) \<in> set (bb_entries db b). \<exists>j. unmarshal_job c d = Inr j \<and> j_id j = i"
    using inv by (fastforce simp: bolt_invar_def)
  have srt: "sorted (map fst (bb_entries db b))"
    using inv by (simp add: bolt_invar_def bbolt_ok_def)
  note first = decode_first_ok [OF ids srt, of q]
  show "decode_first c q (bb_entries db b) \<noteq> Inl e" using first by auto
  show "\<forall>j \<in> ran (bolt_content db c b). \<not> q j" if "decode_first c q (bb_entries db b) = Inr None"
    using first that inv by (fastforce simp: ran_def bolt_content_Some)
  show "q j \<and> bolt_content db c b (j_id j) = Some j
        \<and> (\<forall>k \<in> ran (bolt_content db c b). q k \<longrightarrow> j_id j \<le> j_id k)"
    if "decode_first c q (bb_entries db b) = Inr (Some j)"
    using first that inv ids by (fastforce simp: ran_def bolt_content_Some)
qed

section \<open>The bbolt store keeps the Store contract\<close>

lemma bolt_storable_update:
  "bolt_storable c j \<Longrightarrow> valid_string e \<Longrightarrow>
     bolt_storable c (j\<lparr>j_state := st, j_attempts := n, j_last_error := e, j_updated := t\<rparr>)"
  by (simp add: bolt_storable_def)

lemma valid_string_Nil [simp]: "valid_string []"
  by (simp add: valid_string_def)

lemma bolt_storable_running [simp]: "bolt_storable c (running now j) = bolt_storable c j"
  by (simp add: bolt_storable_def)

lemma bolt_storable_reactivated: "bolt_storable c j \<Longrightarrow> bolt_storable c (reactivated now j)"
  by (simp add: bolt_storable_def)

lemma bolt_save_cases:
  assumes inv: "bolt_invar db c b"
  shows "bolt_save db c j b = (Some e, b') \<Longrightarrow> b' = b"
    and "bolt_storable c j \<Longrightarrow> bolt_save db c j b = (None, b') \<Longrightarrow> bolt_put_job db c j b = Inr b'"
proof -
  show "b' = b" if "bolt_save db c j b = (Some e, b')"
    using that by (auto simp: bolt_save_def split: sum.splits prod.splits dest: db_update_Inl)
  show "bolt_put_job db c j b = Inr b'" if "bolt_storable c j" "bolt_save db c j b = (None, b')"
  proof -
    from that(2) obtain d where d: "marshal_job c j = Inr d"
      and u: "db_update db (\<lambda>b. map_sum id (Pair ()) (bb_put db (j_id j) d b)) b = (Inr (), b')"
      by (auto simp: bolt_save_def split: sum.splits prod.splits)
    from db_update_Inr [OF u] d show ?thesis
      by (cases "bb_put db (j_id j) d b") (auto simp: bolt_put_job_def)
  qed
qed

lemma bolt_claim_Inr:
  assumes "bolt_claim db c p now b = (Inr r, b')"
  shows "bolt_claim_tx db c p now b = Inr (r, b')"
  using assms by (auto simp: bolt_claim_def split: sum.splits prod.splits dest: db_update_Inr)

lemma bolt_idem_Inr:
  assumes "bolt_enqueue_idem db c nj now idr b = (Inr r, b')"
  shows "bolt_idem_tx db c nj now idr b = Inr (r, b')"
  using assms
  by (auto simp: bolt_enqueue_idem_def split: sum.splits prod.splits if_splits dest: db_update_Inr)

text \<open>
  A validation error of \<open>EnqueueIdempotent\<close> is the key conflict and nothing else, as long as
  every stored record still decodes.
\<close>

lemma bolt_idem_tx_err:
  assumes inv: "bolt_invar db c b" and tx: "bolt_idem_tx db c nj now idr b = Inl e"
    and st: "\<forall>i. idr = Inr i \<longrightarrow> bolt_storable c (fresh_job i now nj)"
    and rand: "\<forall>e'. idr = Inl e' \<longrightarrow> \<not> is_kind (Some e') KindValidation"
    and v: "is_kind (Some e) KindValidation"
  shows "\<exists>old \<in> ran (bolt_content db c b). j_key nj \<noteq> '''' \<and> live_key (j_key nj) now old
           \<and> \<not> sameLogicalRequest old nj"
proof -
  have no_put: "bolt_put_job db c j b \<noteq> Inl e" if "bolt_storable c j" for j
    using bolt_put_job_err [OF inv that] v by (auto simp: plain_error_def)
  have fresh: "bolt_put_job db c (nj\<lparr>j_id := i, j_state := JobPending, j_created := now, j_updated := now\<rparr>) b
      \<noteq> Inl e" if "idr = Inr i" for i
    using no_put st that by (simp add: fresh_job_def)
  show ?thesis
  proof (cases "if j_key nj \<noteq> '''' then bolt_find_key db c (j_key nj) now b else Inr None")
    case (Inl e')
    then show ?thesis using bolt_first(1) [OF inv] by (auto simp: bolt_find_key_def split: if_splits)
  next
    case (Inr r)
    show ?thesis
    proof (cases r)
      case None
      with Inr tx fresh rand v show ?thesis
        by (auto simp: bolt_idem_tx_def Let_def split: sum.splits)
    next
      case (Some old)
      with Inr have k: "j_key nj \<noteq> ''''" and f: "bolt_find_key db c (j_key nj) now b = Inr (Some old)"
        by (auto split: if_splits)
      from f have o: "live_key (j_key nj) now old" "bolt_content db c b (j_id old) = Some old"
        using bolt_first(3) [OF inv] by (auto simp: bolt_find_key_def live_key_def)
      then have "bolt_storable c (reactivated now old)"
        using bolt_content_facts [OF inv] by (simp add: bolt_storable_reactivated)
      then have "\<not> sameLogicalRequest old nj"
        using tx k f no_put
        by (auto simp: bolt_idem_tx_def Let_def reactivated_def split: if_splits sum.splits)
      with k o show ?thesis by (auto intro: ranI)
    qed
  qed
qed

lemma bolt_idem_existing:
  assumes inv: "bolt_invar db c b" and tx: "bolt_idem_tx db c nj now idr b = Inr ((j, False), b')"
  shows "bolt_invar db c b' \<and> j_key nj \<noteq> '''' \<and>
         (\<exists>old \<in> ran (bolt_content db c b). live_key (j_key nj) now old \<and> sameLogicalRequest old nj
            \<and> j = idem_hit now old \<and> bolt_content db c b' = (bolt_content db c b)(j_id old \<mapsto> j))"
proof -
  from tx obtain old where k: "j_key nj \<noteq> ''''"
    and f: "bolt_find_key db c (j_key nj) now b = Inr (Some old)" and same: "sameLogicalRequest old nj"
    and r: "if j_state old = JobFailed
            then j = reactivated now old \<and> bolt_put_job db c j b = Inr b' else j = old \<and> b' = b"
    by (auto simp: bolt_idem_tx_def reactivated_def Let_def split: if_splits sum.splits option.splits)
  from f have o: "live_key (j_key nj) now old" "bolt_content db c b (j_id old) = Some old"
    using bolt_first(3) [OF inv] by (auto simp: bolt_find_key_def live_key_def)
  then have st: "bolt_storable c (reactivated now old)"
    using bolt_content_facts [OF inv] by (simp add: bolt_storable_reactivated)
  have "bolt_invar db c b' \<and> bolt_content db c b' = (bolt_content db c b)(j_id old \<mapsto> j)
        \<and> j = idem_hit now old"
    using r bolt_put_job_ok [OF inv st] o inv by (auto simp: idem_hit_def fun_upd_idem split: if_splits)
  with k o same show ?thesis by (auto intro: ranI)
qed

lemma bolt_idem_fresh:
  assumes inv: "bolt_invar db c b" and tx: "bolt_idem_tx db c nj now idr b = Inr ((j, True), b')"
    and st: "\<forall>i. idr = Inr i \<longrightarrow> bolt_storable c (fresh_job i now nj)"
  shows "bolt_invar db c b'
         \<and> (j_key nj = '''' \<or> (\<forall>old \<in> ran (bolt_content db c b). \<not> live_key (j_key nj) now old))
         \<and> (\<exists>i. idr = Inr i \<and> j = fresh_job i now nj
              \<and> bolt_content db c b' = (bolt_content db c b)(i \<mapsto> j))"
proof -
  from tx obtain i where i: "idr = Inr i" "j = fresh_job i now nj" "bolt_put_job db c j b = Inr b'"
    and n: "j_key nj = '''' \<or> bolt_find_key db c (j_key nj) now b = Inr None"
    by (auto simp: bolt_idem_tx_def fresh_job_def Let_def split: if_splits sum.splits option.splits)
  have "\<forall>old \<in> ran (bolt_content db c b). \<not> live_key (j_key nj) now old" if "j_key nj \<noteq> ''''"
    using n that bolt_first(2) [OF inv] by (auto simp: bolt_find_key_def live_key_def)
  with i st bolt_put_job_ok [OF inv, of j b'] show ?thesis by auto
qed

interpretation bolt: job_store "bolt_ops db c" "bolt_content db c" "bolt_invar db c"
  "bolt_storable c" valid_string
  for db :: "('b, 'd) bbolt" and c :: "'d job_codec"
proof (unfold_locales, goal_cases)
  case (1 s i j)
  then show ?case by (simp add: bolt_content_facts)
next
  case (2 s)
  have "dom (bolt_content db c s) \<subseteq> dom (map_of (bb_entries db s))"
    by (auto simp: bolt_content_def bind_eq_Some_conv)
  then show ?case by (meson finite_dom_map_of finite_subset)
next
  case (3 s i j)
  then show ?case by (simp add: bolt_content_facts)
next
  case (4 j e st n t)
  then show ?case by (rule bolt_storable_update)
next
  case (5 j)
  then show ?case by (simp add: bolt_storable_def)
next
  case (6 msg)
  then show ?case by (rule valid_string_ascii)
next
  case (7 s j s')
  then have "bolt_put_job db c j s = Inr s'" by (simp add: bolt_save_cases)
  from bolt_put_job_ok [OF 7(1,2) this] show ?case .
next
  case (8 s j e s')
  then show ?case by (auto dest: bolt_save_cases(1))
next
  case (9 s i j)
  then have db: "bb_get db i s = map_of (bb_entries db s) i" by (simp add: bolt_invar_def bbolt_ok_def)
  from 9(2) obtain d where "bb_get db i s = Some d" "unmarshal_job c d = Inr j"
    by (auto simp: bolt_get_def db_view_def split: option.splits sum.splits if_splits)
  with db have "map_of (bb_entries db s) i = Some d" "decoded c d = Some j" by simp_all
  then show ?case by (simp only: bolt_content_def Option.bind.simps)
next
  case (10 s i e)
  then have db: "bb_get db i s = map_of (bb_entries db s) i" by (simp add: bolt_invar_def bbolt_ok_def)
  show ?case
  proof (cases "map_of (bb_entries db s) i")
    case None
    then show ?thesis by (simp add: bolt_content_def)
  next
    case (Some d)
    then have "(i, d) \<in> set (bb_entries db s)" by (rule map_of_SomeD)
    with 10(1) obtain j where j: "unmarshal_job c d = Inr j" by (auto simp: bolt_invar_def)
    have "\<not> is_kind (bb_begin db s) KindNotFound"
      using 10(1) by (cases "bb_begin db s") (auto simp: bolt_invar_def bbolt_ok_def plain_error_def)
    with 10(2,3) db Some j show ?thesis
      by (cases "bb_begin db s") (auto simp: bolt_get_def db_view_def)
  qed
next
  case (11 s js)
  then have "decode_all c (bb_entries db s) = Inr js"
    by (auto simp: bolt_list_def db_view_def split: option.splits sum.splits)
  moreover have ids: "\<forall>(i, d) \<in> set (bb_entries db s). \<exists>j. unmarshal_job c d = Inr j \<and> j_id j = i"
    using 11(1) by (fastforce simp: bolt_invar_def)
  ultimately have m: "map j_id js = map fst (bb_entries db s)"
    and e: "\<forall>j. j \<in> set js \<longleftrightarrow> (\<exists>i d. (i, d) \<in> set (bb_entries db s) \<and> unmarshal_job c d = Inr j)"
    using decode_all_ok by blast+
  have "set js = ran (bolt_content db c s)"
    using e 11(1) by (auto simp: ran_def bolt_content_Some)
  with m 11(1) show ?case by (simp add: bolt_invar_def bbolt_ok_def)
next
  case (12 s)
  then have "decode_first c (\<lambda>j. j_state j = JobPending) (bb_entries db s) = Inr None"
    by (auto simp: bolt_next_pending_def db_view_def split: option.splits sum.splits)
  from bolt_first(2) [OF 12(1) this] show ?case .
next
  case (13 s j)
  then have "decode_first c (\<lambda>j. j_state j = JobPending) (bb_entries db s) = Inr (Some j)"
    by (auto simp: bolt_next_pending_def db_view_def split: option.splits sum.splits)
  from bolt_first(3) [OF 13(1) this] show ?case by (auto intro: ranI)
next
  case (14 s p now s')
  then have "bolt_claim_tx db c p now s = Inr (None, s')" by (simp add: bolt_claim_Inr)
  then have "decode_first c (claimable p) (bb_entries db s) = Inr None" "s' = s"
    by (auto simp: bolt_claim_tx_def Let_def split: option.splits sum.splits)
  with bolt_first(2) [OF 14(1)] show ?case by blast
next
  case (15 s p now j' s')
  then have "bolt_claim_tx db c p now s = Inr (Some j', s')" by (simp add: bolt_claim_Inr)
  then obtain j where f: "decode_first c (claimable p) (bb_entries db s) = Inr (Some j)"
    and j': "j' = running now j" "bolt_put_job db c j' s = Inr s'"
    by (auto simp: bolt_claim_tx_def running_def Let_def split: option.splits sum.splits)
  note low = bolt_first(3) [OF 15(1) f]
  then have "bolt_storable c j'" using j'(1) bolt_content_facts(2) [OF 15(1)] by auto
  from bolt_put_job_ok [OF 15(1) this j'(2)] low j'(1) show ?case by auto
next
  case (16 s p now e s')
  then show ?case
    by (auto simp: bolt_claim_def split: sum.splits prod.splits dest: db_update_Inl)
next
  case (17 s nj now idr e s')
  then show ?case
    by (auto simp: bolt_enqueue_idem_def split: sum.splits prod.splits if_splits dest: db_update_Inl)
next
  case (18 s nj now idr e s')
  then obtain err where u: "db_update db (bolt_idem_tx db c nj now idr) s = (Inl err, s')"
    and e: "is_kind (Some err) KindValidation"
    by (auto simp: bolt_enqueue_idem_def split: sum.splits prod.splits if_splits)
  have "\<not> plain_error err" using e by (auto simp: plain_error_def)
  with db_update_Inl [OF u] 18(1) have "bolt_idem_tx db c nj now idr s = Inl err"
    by (auto simp: bolt_invar_def bbolt_ok_def)
  from bolt_idem_tx_err [OF 18(1) this 18(4,5) e] show ?case .
next
  case (19 s nj now idr j s')
  then have "bolt_idem_tx db c nj now idr s = Inr ((j, False), s')" by (simp add: bolt_idem_Inr)
  from bolt_idem_existing [OF 19(1) this] show ?case .
next
  case (20 s nj now idr j s')
  then have "bolt_idem_tx db c nj now idr s = Inr ((j, True), s')" by (simp add: bolt_idem_Inr)
  from bolt_idem_fresh [OF 20(1) this 20(3)] show ?case .
qed

section \<open>An instance of the parameters\<close>

text \<open>An in-memory bucket and an encoding that keeps the job, to instantiate the parameters.\<close>

definition list_bucket :: "(string \<times> 'd) list \<Rightarrow> (string \<times> 'd) list" where
  "list_bucket b = map (\<lambda>k. (k, the (map_of b k))) (sort (remdups (map fst b)))"

definition list_bbolt :: "((string \<times> 'd) list, 'd) bbolt" where
  "list_bbolt = \<lparr>bb_begin = (\<lambda>_. None), bb_commit = (\<lambda>_. None),
     bb_put = (\<lambda>k d b. Inr ((k, d) # b)), bb_get = (\<lambda>k b. map_of b k), bb_entries = list_bucket\<rparr>"

definition plain_codec :: "job job_codec" where
  "plain_codec = \<lparr>marshal_job = Inr, unmarshal_job = Inr, receipt_ok = (\<lambda>_. True)\<rparr>"

lemma map_of_list_bucket: "map_of (list_bucket b) = map_of b"
proof
  fix k
  show "map_of (list_bucket b) k = map_of b k"
  proof (cases "k \<in> fst ` set b")
    case True
    then obtain v where v: "map_of b k = Some v" by (metis map_of_eq_None_iff not_None_eq)
    have "map_of (map (\<lambda>k. (k, the (map_of b k))) ks) k = Some v" if "k \<in> set ks" for ks
      using that v by (induction ks) auto
    with True v show ?thesis by (simp add: list_bucket_def)
  next
    case False
    then have "map_of b k = None" by (simp add: map_of_eq_None_iff)
    moreover have "map_of (list_bucket b) k = None"
      using False by (auto simp: list_bucket_def map_of_eq_None_iff image_iff)
    ultimately show ?thesis by simp
  qed
qed

lemma list_bbolt_ok: "bbolt_ok list_bbolt"
  unfolding bbolt_ok_def
  by (simp add: list_bbolt_def map_of_list_bucket)
     (simp add: list_bucket_def o_def)

lemma plain_codec_ok: "codec_ok plain_codec"
  by (simp add: codec_ok_def plain_codec_def)

lemma bolt_invar_list_bucket:
  "(\<And>i j. map_of b i = Some j \<Longrightarrow> j_id j = i \<and> bolt_storable plain_codec j) \<Longrightarrow>
     bolt_invar list_bbolt plain_codec b"
  using map_of_list_bucket [of b] bolt_entries_map [OF list_bbolt_ok, of b]
  by (auto simp: bolt_invar_def list_bbolt_ok plain_codec_ok)
     (auto simp: list_bbolt_def plain_codec_def)

end
