(* ===== verification/Queue.thy ===== *)
theory Queue
  imports StoreMemory StoreBolt
begin

text \<open>
  Package \<open>internal/queue\<close>, the queue itself: \<open>queue.go\<close>, \<open>cancel.go\<close>, \<open>get.go\<close>, \<open>list.go\<close>,
  \<open>process.go\<close> and \<open>reconcile.go\<close>.  A queue is a store interface with its retry settings.  The
  environment of a worker (the processor, the clock, the backoff sleep, the context) is a
  record of functions over a world state, so the order of the calls is explicit.  The client
  lemmas are proved once, inside \<open>job_store\<close>, and hold of both stores by interpretation.
\<close>

type_synonym duration = "64 word"

record 's queue =
  q_ops :: "'s store_ops"
  q_max_attempts :: int
  q_base_backoff :: duration

definition defaultMaxAttempts :: int where
  "defaultMaxAttempts = 3"

definition defaultBaseBackoff :: duration where
  "defaultBaseBackoff = 5 * 1000000000"

definition NewWithRetry :: "'s store_ops \<Rightarrow> int \<Rightarrow> duration \<Rightarrow> 's queue" where
  "NewWithRetry ops maxAttempts baseBackoff =
     \<lparr>q_ops = ops, q_max_attempts = maxAttempts, q_base_backoff = baseBackoff\<rparr>"

definition NewQueue :: "'s store_ops \<Rightarrow> 's queue" where
  "NewQueue ops = NewWithRetry ops defaultMaxAttempts defaultBaseBackoff"

section \<open>Enqueue, Get, List, Cancel\<close>

text \<open>The source of IDs: \<open>rand\<close> is \<open>rand.Read\<close> of so many bytes, \<open>hex_encode\<close> is \<open>hex.EncodeToString\<close>.\<close>

definition hex_encode :: "byte list \<Rightarrow> string" where
  "hex_encode bs = concat (map (\<lambda>b. [hex_digit (unat b div 16), hex_digit (unat b mod 16)]) bs)"

definition newJobID :: "(nat \<Rightarrow> goerr + byte list) \<Rightarrow> goerr + string" where
  "newJobID rand = (case rand 16 of Inl err \<Rightarrow> Inl err | Inr b \<Rightarrow> Inr (hex_encode b))"

definition queue_Enqueue ::
  "'s queue \<Rightarrow> goerr + string \<Rightarrow> time \<Rightarrow> job \<Rightarrow> 's \<Rightarrow> (goerr + job) \<times> 's" where
  "queue_Enqueue q newID now j s =
     (case newID of
        Inl err \<Rightarrow> (Inl (wrap KindPermanent ''queue.Enqueue'' (Some err)), s)
      | Inr i \<Rightarrow>
          let j = j\<lparr>j_id := i, j_state := JobPending, j_created := now, j_updated := now\<rparr>
          in (case st_save (q_ops q) j s of
                (Some e, s') \<Rightarrow> (Inl e, s')
              | (None, s') \<Rightarrow> (Inr j, s')))"

definition queue_EnqueueIdempotent ::
  "'s queue \<Rightarrow> goerr + string \<Rightarrow> time \<Rightarrow> job \<Rightarrow> string \<Rightarrow> 's \<Rightarrow> (goerr + string) \<times> 's" where
  "queue_EnqueueIdempotent q newID now j key s =
     (case st_enqueue_idem (q_ops q) (j\<lparr>j_key := key\<rparr>) now newID s of
        (Inl err, s') \<Rightarrow> (Inl err, s')
      | (Inr (result, created), s') \<Rightarrow> (Inr (j_id result), s'))"

definition queue_Get :: "'s queue \<Rightarrow> string \<Rightarrow> 's \<Rightarrow> goerr + job" where
  "queue_Get q i s = st_get (q_ops q) i s"

definition queue_List :: "'s queue \<Rightarrow> 's \<Rightarrow> goerr + job list" where
  "queue_List q s = st_list (q_ops q) s"

text \<open>\<open>Cancel\<close> is a read followed by a write, two separate store operations.\<close>

definition cancel_check :: "string \<Rightarrow> time \<Rightarrow> job \<Rightarrow> goerr + job" where
  "cancel_check i now j =
     (if j_state j \<noteq> JobPending
      then Inl (wrap KindValidation ''queue.Cancel''
             (Some (errorf ''job %q is %s, only a pending job can be cancelled''
                      [FStr i, FStr (job_state_string (j_state j))])))
      else Inr (j\<lparr>j_state := JobCancelled, j_updated := now\<rparr>))"

definition queue_Cancel :: "'s queue \<Rightarrow> string \<Rightarrow> time \<Rightarrow> 's \<Rightarrow> goerr option \<times> 's" where
  "queue_Cancel q i now s =
     (case st_get (q_ops q) i s of
        Inl err \<Rightarrow> (Some err, s)
      | Inr j \<Rightarrow>
          (case cancel_check i now j of
             Inl err \<Rightarrow> (Some err, s)
           | Inr j' \<Rightarrow> st_save (q_ops q) j' s))"

section \<open>Processing\<close>

record 'w env =
  env_process :: "job \<Rightarrow> 'w \<Rightarrow> unit res \<times> 'w"
  env_sleep :: "duration \<Rightarrow> 'w \<Rightarrow> 'w"
  env_now :: "'w \<Rightarrow> time"
  env_ctx_err :: "'w \<Rightarrow> bool"

text \<open>
  \<open>callProcessor\<close>: a panic of the processor is recovered and becomes a permanent error.
  \<open>None\<close> means that the processor does not return.
\<close>

definition callProcessor :: "'w env \<Rightarrow> job \<Rightarrow> 'w \<Rightarrow> (goerr option \<times> 'w) option" where
  "callProcessor env j w =
     (case env_process env j w of
        (Val _, w') \<Rightarrow> Some (None, w')
      | (Fail e, w') \<Rightarrow> Some (Some e, w')
      | (Panic r, w') \<Rightarrow>
          Some (Some (wrap KindPermanent ''queue.ProcessNext''
                        (Some (errorf ''panic: %v'' [FStr r]))), w')
      | (Diverge, w') \<Rightarrow> None)"

text \<open>An attempt is counted when it begins, in the copy of the worker; the store learns of it when the attempt is over.\<close>

definition count_attempt :: "job \<Rightarrow> job" where
  "count_attempt nxt = nxt\<lparr>j_attempts := j_attempts nxt + 1\<rparr>"

lemma count_attempt_simps [simp]:
  "j_attempts (count_attempt j) = j_attempts j + 1" "j_id (count_attempt j) = j_id j"
  "j_printer (count_attempt j) = j_printer j" "j_receipt (count_attempt j) = j_receipt j"
  "j_state (count_attempt j) = j_state j" "j_key (count_attempt j) = j_key j" "j_created (count_attempt j) = j_created j"
  by (simp_all add: count_attempt_def)

text \<open>
  The decision after one attempt: whether the job is finished, and the job as it is saved.
\<close>

definition finish_attempt :: "int \<Rightarrow> goerr option \<Rightarrow> time \<Rightarrow> job \<Rightarrow> bool \<times> job" where
  "finish_attempt maxAttempts procErr now nxt =
     (let done = procErr = None \<or> \<not> is_kind procErr KindTransient \<or> j_attempts nxt \<ge> maxAttempts;
          nxt = (if done
                 then (case procErr of
                         Some e \<Rightarrow> nxt\<lparr>j_state := JobFailed, j_last_error := error_text e\<rparr>
                       | None \<Rightarrow> nxt\<lparr>j_state := JobDone\<rparr>)
                 else nxt)
      in (done, nxt\<lparr>j_updated := now\<rparr>))"

lemma finish_attempt_continue:
  "finish_attempt m r now j = (False, j') \<Longrightarrow>
     j_attempts j < m \<and> is_kind r KindTransient \<and> j' = j\<lparr>j_updated := now\<rparr>"
  by (auto simp: finish_attempt_def Let_def split: if_splits)

lemma finish_attempt_done:
  "finish_attempt m r now j = (True, j') \<Longrightarrow>
     (r = None \<and> j' = j\<lparr>j_state := JobDone, j_updated := now\<rparr>)
   \<or> (\<exists>e. r = Some e \<and> (\<not> is_kind r KindTransient \<or> m \<le> j_attempts j)
        \<and> j' = j\<lparr>j_state := JobFailed, j_last_error := error_text e, j_updated := now\<rparr>)"
  by (auto simp: finish_attempt_def Let_def split: if_splits option.splits)

text \<open>
  \<open>runClaimedJob\<close>.  The loop ends because an attempt is only repeated while the job's own
  counter is below the budget.  The result is the store error, if one stopped the loop, with
  the store and world it left; \<open>None\<close> when some call of the processor does not return.
\<close>

function run_claimed_job ::
  "'s store_ops \<Rightarrow> int \<Rightarrow> 'w env \<Rightarrow> duration \<Rightarrow> job \<Rightarrow> 's \<Rightarrow> 'w \<Rightarrow> (goerr option \<times> 's \<times> 'w) option" where
  "run_claimed_job ops maxAttempts env backoff nxt s w =
     (let nxt = count_attempt nxt in
      case callProcessor env nxt w of
        None \<Rightarrow> None
      | Some (procErr, w) \<Rightarrow>
          (case finish_attempt maxAttempts procErr (env_now env w) nxt of
             (done, nxt) \<Rightarrow>
               (case st_save ops nxt s of
                  (Some err, s) \<Rightarrow> Some (Some err, s, w)
                | (None, s) \<Rightarrow>
                    if done then Some (None, s, w)
                    else (let w = env_sleep env backoff w in
                          if env_ctx_err env w then Some (None, s, w)
                          else run_claimed_job ops maxAttempts env (2 * backoff) nxt s w))))"
  by pat_completeness auto
termination
  by (relation "measure (\<lambda>(ops, m, env, b, j, s, w). nat (m - j_attempts j))")
     (auto dest!: finish_attempt_continue [OF sym])

declare run_claimed_job.simps [simp del]

definition ProcessNext ::
  "'s queue \<Rightarrow> 'w env \<Rightarrow> 's \<Rightarrow> 'w \<Rightarrow> (goerr option \<times> 's \<times> 'w) option" where
  "ProcessNext q env s w =
     (case st_next_pending (q_ops q) s of
        Inl err \<Rightarrow> Some (Some err, s, w)
      | Inr None \<Rightarrow> Some (None, s, w)
      | Inr (Some nxt) \<Rightarrow>
          let nxt = nxt\<lparr>j_state := JobRunning, j_updated := env_now env w\<rparr> in
          (case st_save (q_ops q) nxt s of
             (Some err, s) \<Rightarrow> Some (Some err, s, w)
           | (None, s) \<Rightarrow>
               run_claimed_job (q_ops q) (q_max_attempts q) env (q_base_backoff q) nxt s w))"

definition ProcessNextForPrinter ::
  "'s queue \<Rightarrow> 'w env \<Rightarrow> string \<Rightarrow> 's \<Rightarrow> 'w \<Rightarrow> (goerr option \<times> 's \<times> 'w) option" where
  "ProcessNextForPrinter q env printerName s w =
     (case st_claim (q_ops q) printerName (env_now env w) s of
        (Inl err, s) \<Rightarrow> Some (Some err, s, w)
      | (Inr None, s) \<Rightarrow> Some (None, s, w)
      | (Inr (Some nxt), s) \<Rightarrow>
          run_claimed_job (q_ops q) (q_max_attempts q) env (q_base_backoff q) nxt s w)"

section \<open>Reconciliation\<close>

definition interrupted_text :: "int \<Rightarrow> int \<Rightarrow> string" where
  "interrupted_text attempts maxAttempts =
     sprintf ''interrupted: daemon restarted while this job was running (attempt %d of %d)''
       [FInt attempts, FInt maxAttempts]"

definition reconcile_job :: "int \<Rightarrow> time \<Rightarrow> job \<Rightarrow> job" where
  "reconcile_job maxAttempts now j =
     (let n = j_attempts j + 1
      in j\<lparr>j_attempts := n, j_last_error := interrupted_text n maxAttempts,
           j_state := (if n < maxAttempts then JobPending else JobFailed), j_updated := now\<rparr>)"

fun reconcile_jobs ::
  "'s store_ops \<Rightarrow> int \<Rightarrow> time \<Rightarrow> job list \<Rightarrow> int \<Rightarrow> int \<Rightarrow> 's \<Rightarrow> (int \<times> int \<times> goerr option) \<times> 's" where
  "reconcile_jobs ops m now [] retried failed s = ((retried, failed, None), s)"
| "reconcile_jobs ops m now (j # js) retried failed s =
     (if j_state j \<noteq> JobRunning then reconcile_jobs ops m now js retried failed s
      else
        let j' = reconcile_job m now j;
            retried' = (if j_attempts j' < m then retried + 1 else retried);
            failed' = (if j_attempts j' < m then failed else failed + 1)
        in (case st_save ops j' s of
              (Some err, s') \<Rightarrow> ((retried', failed', Some err), s')
            | (None, s') \<Rightarrow> reconcile_jobs ops m now js retried' failed' s'))"

definition Reconcile :: "'s queue \<Rightarrow> time \<Rightarrow> 's \<Rightarrow> (int \<times> int \<times> goerr option) \<times> 's" where
  "Reconcile q now s =
     (case st_list (q_ops q) s of
        Inl err \<Rightarrow> ((0, 0, Some err), s)
      | Inr jobs \<Rightarrow> reconcile_jobs (q_ops q) (q_max_attempts q) now jobs 0 0 s)"

definition reconciled :: "int \<Rightarrow> time \<Rightarrow> job \<Rightarrow> job" where
  "reconciled m now j = (if j_state j = JobRunning then reconcile_job m now j else j)"

lemma reconcile_job_simps [simp]:
  "j_id (reconcile_job m now j) = j_id j" "j_attempts (reconcile_job m now j) = j_attempts j + 1"
  "j_printer (reconcile_job m now j) = j_printer j" "j_key (reconcile_job m now j) = j_key j"
  "j_created (reconcile_job m now j) = j_created j" "j_receipt (reconcile_job m now j) = j_receipt j"
  "j_state (reconcile_job m now j) = (if j_attempts j + 1 < m then JobPending else JobFailed)"
  by (simp_all add: reconcile_job_def Let_def)

lemma reconciled_id [simp]: "j_id (reconciled m now j) = j_id j"
  by (simp add: reconciled_def)

lemma reconciled_not_running: "j_state (reconciled m now j) \<noteq> JobRunning"
  by (simp add: reconciled_def)

lemma interrupted_text_ascii: "list_all (\<lambda>c. of_char c < (0x80::nat)) (interrupted_text a m)"
  by (simp add: interrupted_text_def fmt_verb_def dec_int_ascii)

section \<open>What processing, reconciling and claiming do to a store\<close>

text \<open>
  \<open>run_step m j j'\<close>: \<open>j'\<close> is what processing may leave in the store of the claimed job \<open>j\<close> under
  the attempt budget \<open>m\<close>.
\<close>

definition same_request :: "job \<Rightarrow> job \<Rightarrow> bool" where
  "same_request a b \<longleftrightarrow> j_id a = j_id b \<and> j_printer a = j_printer b \<and> j_receipt a = j_receipt b
     \<and> j_created a = j_created b \<and> j_key a = j_key b"

definition run_step :: "int \<Rightarrow> job \<Rightarrow> job \<Rightarrow> bool" where
  "run_step m j j' \<longleftrightarrow> same_request j j'
     \<and> j_state j' \<in> {JobRunning, JobDone, JobFailed}
     \<and> j_attempts j \<le> j_attempts j' \<and> j_attempts j' \<le> max m (j_attempts j + 1)
     \<and> (j_state j' = JobRunning \<longrightarrow> j' = j \<or> j_attempts j < j_attempts j' \<and> j_attempts j' < m)
     \<and> (j_state j' \<noteq> JobFailed \<longrightarrow> j_last_error j' = j_last_error j)"

lemma run_step_refl: "j_state j = JobRunning \<Longrightarrow> run_step m j j"
  by (simp add: run_step_def same_request_def)

lemma run_step_id: "run_step m j j' \<Longrightarrow> j_id j' = j_id j"
  by (simp add: run_step_def same_request_def)

lemma run_step_trans:
  "run_step m j k \<Longrightarrow> j_state k = JobRunning \<Longrightarrow> run_step m k j' \<Longrightarrow> run_step m j j'"
  unfolding run_step_def same_request_def by auto

lemma finish_attempt_run_step:
  "j_state j = JobRunning \<Longrightarrow>
   finish_attempt m r now (count_attempt j) = (d, j') \<Longrightarrow>
     run_step m j j' \<and> j_attempts j' = j_attempts j + 1
     \<and> (d \<longrightarrow> j_state j' = (if r = None then JobDone else JobFailed))
     \<and> (\<not> d \<longrightarrow> j' = j\<lparr>j_attempts := j_attempts j + 1, j_updated := now\<rparr> \<and> j_attempts j' < m)"
  by (cases r)
     (auto simp: finish_attempt_def count_attempt_def run_step_def same_request_def Let_def split: if_splits)

text \<open>The rule of the loop for what it does to the world alone, whatever the store answers.\<close>

lemma run_claimed_job_world:
  assumes "\<And>j w r w' b. I w \<Longrightarrow> callProcessor env j w = Some (r, w') \<Longrightarrow>
      Q w' \<and> (if env_ctx_err env (env_sleep env b w') then Q (env_sleep env b w') else I (env_sleep env b w'))"
    and "I w" and "run_claimed_job ops m env b j s w = Some (r, s', w')"
  shows "Q w'"
  using assms(2,3)
proof (induction "nat (m - j_attempts j)" arbitrary: b j s w rule: less_induct)
  case less
  let ?j = "count_attempt j"
  from less.prems obtain pr w1 where c: "callProcessor env ?j w = Some (pr, w1)"
    by (auto simp: run_claimed_job.simps [of _ _ _ _ j] Let_def split: option.splits)
  obtain d j1 where f: "finish_attempt m pr (env_now env w1) ?j = (d, j1)" by fastforce
  obtain sv s1 where sv: "st_save ops j1 s = (sv, s1)" by fastforce
  note unf = less.prems(2) [unfolded run_claimed_job.simps [of _ _ _ _ j] Let_def c f sv option.case prod.case]
  note post = assms(1) [OF less.prems(1) c, of b]
  have "Q w'" if "I (env_sleep env b w1)" "run_claimed_job ops m env (2 * b) j1 s1 (env_sleep env b w1) = Some (r, s', w')" "\<not> d"
    by (rule less.hyps [OF _ that(1,2)]) (use that(3) f finish_attempt_continue in fastforce)
  with unf post show ?case by (auto split: option.splits if_splits)
qed

context job_store
begin

lemma storable_updates:
  "storable j \<Longrightarrow> storable (j\<lparr>j_attempts := n, j_updated := t\<rparr>)"
  "storable j \<Longrightarrow> storable (j\<lparr>j_attempts := n, j_state := st, j_updated := t\<rparr>)"
  "storable j \<Longrightarrow> text_ok msg \<Longrightarrow>
     storable (j\<lparr>j_attempts := n, j_state := st, j_last_error := msg, j_updated := t\<rparr>)"
  using storable_update[where j = j and msg = "j_last_error j" and st = "j_state j" and n = n and t = t]
    storable_update[where j = j and msg = "j_last_error j" and st = st and n = n and t = t]
    storable_update[where j = j and msg = msg and st = st and n = n and t = t] storable_text[of j]
  by (cases j; simp)+

lemma finish_attempt_storable:
  "storable j \<Longrightarrow> (\<forall>e. r = Some e \<longrightarrow> text_ok (error_text e)) \<Longrightarrow>
   finish_attempt m r now (count_attempt j) = (d, j') \<Longrightarrow> storable j'"
  by (cases r) (auto simp: finish_attempt_def count_attempt_def Let_def storable_updates split: if_splits)

text \<open>
  The rule of the loop: \<open>I\<close> holds of the job in the store and the world before every attempt, \<open>Q\<close> of the
  result, the job left in the store and the world at the end.
\<close>

lemma run_claimed_job_rule:
  assumes "invar s" "content s (j_id j) = Some j" "j_state j = JobRunning" "I j w"
    and answers: "\<And>k w e w'. I k w \<Longrightarrow> callProcessor env (count_attempt k) w = Some (Some e, w') \<Longrightarrow>
      text_ok (error_text e)"
    and step: "\<And>k w pr w1 d k1 b. I k w \<Longrightarrow> j_state k = JobRunning \<Longrightarrow>
      callProcessor env (count_attempt k) w = Some (pr, w1) \<Longrightarrow>
      finish_attempt m pr (env_now env w1) (count_attempt k) = (d, k1) \<Longrightarrow>
        (\<forall>e. Q (Some e) k w1)
        \<and> (if d then Q None k1 w1
           else if env_ctx_err env (env_sleep env b w1) then Q None k1 (env_sleep env b w1)
           else I k1 (env_sleep env b w1))"
    and "run_claimed_job ops m env b j s w = Some (r, s', w')"
  shows "invar s' \<and> (\<exists>j'. content s' = (content s)(j_id j \<mapsto> j') \<and> Q r j' w')"
  using assms(1-4,7)
proof (induction "nat (m - j_attempts j)" arbitrary: b j s w rule: less_induct)
  case less
  let ?j = "count_attempt j"
  obtain pr w1 where c: "callProcessor env ?j w = Some (pr, w1)"
    using less.prems(5) by (auto simp: run_claimed_job.simps[of _ _ _ _ j] Let_def split: option.splits)
  obtain d j1 where f: "finish_attempt m pr (env_now env w1) ?j = (d, j1)" by fastforce
  note run = finish_attempt_run_step [OF less.prems(3) f] and post = step [OF less.prems(4,3) c f, of b]
  have st: "storable j1"
    using finish_attempt_storable [OF content_storable [OF less.prems(1,2)] _ f] answers [OF less.prems(4)] c by blast
  have id1: "j_id j1 = j_id j" using run run_step_id by blast
  obtain sv s1 where sv: "st_save ops j1 s = (sv, s1)" by fastforce
  note unf = less.prems(5) [unfolded run_claimed_job.simps[of _ _ _ _ j] Let_def c f sv
      option.case prod.case]
  show ?case
  proof (cases sv)
    case (Some e)
    then have "s1 = s" using save_err [OF less.prems(1)] sv by blast
    with unf Some less.prems post show ?thesis by (auto intro!: exI[of _ j] simp: fun_upd_idem)
  next
    case None
    then have s1: "invar s1" "content s1 = (content s)(j_id j \<mapsto> j1)"
      using save_ok [OF less.prems(1) st] sv id1 by auto
    show ?thesis
    proof (cases "d \<or> env_ctx_err env (env_sleep env b w1)")
      case True
      with unf None s1 post show ?thesis by (auto split: if_splits)
    next
      case False
      with unf None have rec: "run_claimed_job ops m env (2 * b) j1 s1 (env_sleep env b w1) = Some (r, s', w')"
        by auto
      have "j_attempts j1 = j_attempts j + 1" "j_attempts j1 < m" "j_state j1 = JobRunning"
        using run False less.prems(3) by auto
      with less.hyps [OF _ s1(1) _ _ _ rec] s1 id1 post False show ?thesis by simp
    qed
  qed
qed

lemma run_claimed_job_spec:
  assumes "invar s" "content s (j_id j) = Some j" "j_state j = JobRunning"
    and "\<And>j w e w'. callProcessor env j w = Some (Some e, w') \<Longrightarrow> text_ok (error_text e)"
    and "run_claimed_job ops m env b j s w = Some (r, s', w')"
  shows "invar s' \<and> (\<exists>j'. content s' = (content s)(j_id j \<mapsto> j') \<and> run_step m j j'
           \<and> (r = None \<longrightarrow> j_attempts j < j_attempts j'))"
proof (rule run_claimed_job_rule [OF assms(1-3) _ _ _ assms(5), where I = "\<lambda>k w. run_step m j k"])
  fix k w pr w1 d k1 b
  assume k: "run_step m j k" "j_state k = JobRunning"
    and f: "finish_attempt m pr (env_now env w1) (count_attempt k) = (d, k1)"
  note s = finish_attempt_run_step [OF k(2) f]
  have "run_step m j k1" using run_step_trans [OF k] s by blast
  moreover have "j_attempts j < j_attempts k1" using k(1) s by (simp add: run_step_def)
  ultimately show "(\<forall>e. run_step m j k \<and> (Some e = None \<longrightarrow> j_attempts j < j_attempts k))
    \<and> (if d then run_step m j k1 \<and> (None = None \<longrightarrow> j_attempts j < j_attempts k1)
       else if env_ctx_err env (env_sleep env b w1) then run_step m j k1 \<and> (None = None \<longrightarrow> j_attempts j < j_attempts k1)
       else run_step m j k1)"
    using k(1) by simp
qed (use assms run_step_refl in auto)

text \<open>The loop returns whenever the processor does.\<close>

lemma run_claimed_job_terminates:
  assumes "\<And>j w. callProcessor env j w \<noteq> None"
  shows "run_claimed_job ops m env b j s w \<noteq> None"
proof (induction "nat (m - j_attempts j)" arbitrary: b j s w rule: less_induct)
  case less
  let ?j = "count_attempt j"
  obtain pr w1 where c: "callProcessor env ?j w = Some (pr, w1)" using assms by fastforce
  obtain d j1 where f: "finish_attempt m pr (env_now env w1) ?j = (d, j1)" by fastforce
  obtain sv s1 where sv: "st_save ops j1 s = (sv, s1)" by fastforce
  have "\<not> d \<Longrightarrow> nat (m - j_attempts j1) < nat (m - j_attempts j)"
    using f finish_attempt_continue by fastforce
  from less.hyps [OF this] show ?case
    by (simp add: run_claimed_job.simps[of _ _ _ _ j] Let_def c f sv split: option.splits)
qed

text \<open>A round of a worker: nothing is claimed, or the printer's pending job with the lowest ID runs.\<close>

lemma process_next_cases:
  assumes "invar s" and "q_ops q = ops"
    and "ProcessNextForPrinter q env p s w = Some (r, s', w')"
  obtains (idle) "s' = s" "w' = w" "r = None \<longrightarrow> (\<forall>j \<in> ran (content s). \<not> claimable p j)"
  | (claimed) j s1 where "invar s1" "content s (j_id j) = Some j" "claimable p j"
      "\<forall>k \<in> ran (content s). claimable p k \<longrightarrow> j_id j \<le> j_id k"
      "content s1 = (content s)(j_id j \<mapsto> running (env_now env w) j)"
      "run_claimed_job ops (q_max_attempts q) env (q_base_backoff q) (running (env_now env w) j) s1 w = Some (r, s', w')"
proof -
  obtain c s1 where c: "st_claim ops p (env_now env w) s = (c, s1)" by fastforce
  note unf = assms(3) [unfolded ProcessNextForPrinter_def assms(2) c prod.case]
  show thesis
  proof (cases c)
    case (Inl e)
    with claim_err [OF assms(1)] c unf show thesis by (intro idle) auto
  next
    case (Inr o1)
    show thesis
    proof (cases o1)
      case None
      with claim_none [OF assms(1)] c Inr unf show thesis by (intro idle) auto
    next
      case (Some j')
      with Inr c claim_some [OF assms(1), of p "env_now env w" j' s1] obtain j where
        "invar s1" "content s (j_id j) = Some j" "claimable p j" "j' = running (env_now env w) j"
        "\<forall>k \<in> ran (content s). claimable p k \<longrightarrow> j_id j \<le> j_id k"
        "content s1 = (content s)(j_id j \<mapsto> j')" by auto
      with unf Inr Some show thesis by (intro claimed) simp_all
    qed
  qed
qed

lemma process_next_for_printer_spec:
  assumes "invar s"
    and "\<And>j w e w'. callProcessor env j w = Some (Some e, w') \<Longrightarrow> text_ok (error_text e)"
    and "q_ops q = ops"
    and "ProcessNextForPrinter q env p s w = Some (r, s', w')"
  shows "invar s' \<and>
    (content s' = content s \<and> s' = s \<and> (r = None \<longrightarrow> (\<forall>j \<in> ran (content s). \<not> claimable p j))
     \<or> (\<exists>j j'. content s (j_id j) = Some j \<and> claimable p j
         \<and> (\<forall>k \<in> ran (content s). claimable p k \<longrightarrow> j_id j \<le> j_id k)
         \<and> run_step (q_max_attempts q) (running (env_now env w) j) j'
         \<and> (r = None \<longrightarrow> j_attempts j < j_attempts j')
         \<and> content s' = (content s)(j_id j \<mapsto> j')))"
  using assms(1,3,4)
proof (cases rule: process_next_cases)
  case idle
  with assms(1) show ?thesis by simp
next
  case (claimed j s1)
  let ?j = "running (env_now env w) j"
  have "content s1 (j_id ?j) = Some ?j" "j_state ?j = JobRunning" using claimed(5) by simp_all
  then have "invar s' \<and> (\<exists>k. content s' = (content s1)(j_id ?j \<mapsto> k) \<and> run_step (q_max_attempts q) ?j k
      \<and> (r = None \<longrightarrow> j_attempts ?j < j_attempts k))"
    by (rule run_claimed_job_spec [OF claimed(1) _ _ _ claimed(6)]) (rule assms(2))
  then obtain k where k: "invar s'" "content s' = (content s1)(j_id ?j \<mapsto> k)" "run_step (q_max_attempts q) ?j k"
      "r = None \<longrightarrow> j_attempts ?j < j_attempts k" by blast
  show ?thesis
    by (rule conjI [OF k(1)], rule disjI2, rule exI [of _ j], rule exI [of _ k]) (use claimed k in simp)
qed

lemma reconcile_job_storable:
  assumes "invar s" and "content s (j_id j) = Some j"
  shows "storable (reconcile_job m now j)"
  using storable_update [where n = "j_attempts j + 1" and t = now and
      st = "if j_attempts j + 1 < m then JobPending else JobFailed",
      OF content_storable [OF assms] text_ok_ascii [OF interrupted_text_ascii [of "j_attempts j + 1" m]]]
  unfolding reconcile_job_def Let_def by (cases j) simp

lemma reconcile_jobs_spec:
  assumes "invar s" "distinct (map j_id js)" "\<And>j. j \<in> set js \<Longrightarrow> content s (j_id j) = Some j"
    and "reconcile_jobs ops m now js a b s = ((ret, fld, None), s')"
  shows "invar s' \<and> content s' = (\<lambda>i. if i \<in> j_id ` set js then map_option (reconciled m now) (content s i) else content s i)
     \<and> ret = a + int (length [j \<leftarrow> js. j_state j = JobRunning \<and> j_attempts j + 1 < m])
     \<and> fld = b + int (length [j \<leftarrow> js. j_state j = JobRunning \<and> \<not> j_attempts j + 1 < m])"
  using assms
proof (induction js arbitrary: a b s)
  case Nil
  then show ?case by simp
next
  case (Cons j js)
  note c = Cons.prems(3)[of j, simplified]
  show ?case
  proof (cases "j_state j = JobRunning")
    case False
    with Cons.prems(4) have "reconcile_jobs ops m now js a b s = ((ret, fld, None), s')" by simp
    from Cons.IH [OF Cons.prems(1) _ _ this] Cons.prems(2,3) c False show ?thesis
      by (auto simp: reconciled_def)
  next
    case True
    let ?j = "reconcile_job m now j"
    have st: "storable ?j" using reconcile_job_storable [OF Cons.prems(1) c] .
    from Cons.prems(4) True obtain s1 where s1: "st_save ops ?j s = (None, s1)"
      and r: "reconcile_jobs ops m now js (if j_attempts ?j < m then a + 1 else a)
                (if j_attempts ?j < m then b else b + 1) s1 = ((ret, fld, None), s')"
      by (auto simp: Let_def split: prod.splits option.splits if_splits)
    from save_ok [OF Cons.prems(1) st s1] have inv: "invar s1"
      and cs: "content s1 = (content s)(j_id j \<mapsto> ?j)" by auto
    have "content s1 (j_id k) = Some k" if "k \<in> set js" for k
      using that Cons.prems(2) Cons.prems(3)[of k] cs by (cases "j_id k = j_id j") (auto simp: image_iff)
    from Cons.IH [OF inv _ this r] Cons.prems(2) cs c True show ?thesis
      by (auto simp: reconciled_def fun_eq_iff)
  qed
qed

text \<open>A listing has each job once, so counting it counts the store.\<close>

lemma list_counts:
  assumes "invar s" "st_list ops s = Inr js"
  shows "length (filter P js) = card {i. \<exists>j. content s i = Some j \<and> P j}"
proof -
  note js = list_ok [OF assms]
  have c: "\<And>j. j \<in> set js \<Longrightarrow> content s (j_id j) = Some j"
    using js ran_content_id [OF assms(1)] by auto
  have "{i. \<exists>j. content s i = Some j \<and> P j} = set (map j_id (filter P js))"
    using js c content_id [OF assms(1)] by (force simp: ran_def image_iff)
  moreover have "distinct (map j_id (filter P js))"
    using js by (simp add: distinct_map_filter)
  ultimately show ?thesis using distinct_card by fastforce
qed

lemma reconcile_spec:
  assumes "invar s" "q_ops q = ops" "Reconcile q now s = ((ret, fld, None), s')"
  shows "invar s' \<and> content s' = (\<lambda>i. map_option (reconciled (q_max_attempts q) now) (content s i))
     \<and> ret = int (card {i. \<exists>j. content s i = Some j \<and> j_state j = JobRunning \<and> j_attempts j + 1 < q_max_attempts q})
     \<and> fld = int (card {i. \<exists>j. content s i = Some j \<and> j_state j = JobRunning \<and> \<not> j_attempts j + 1 < q_max_attempts q})"
proof -
  from assms obtain js where l: "st_list ops s = Inr js"
    and r: "reconcile_jobs ops (q_max_attempts q) now js 0 0 s = ((ret, fld, None), s')"
    by (auto simp: Reconcile_def split: sum.splits)
  note js = list_ok [OF assms(1) l]
  have c: "\<And>j. j \<in> set js \<Longrightarrow> content s (j_id j) = Some j"
    using js ran_content_id [OF assms(1)] by auto
  have dom: "j_id ` set js = dom (content s)"
    using js content_id [OF assms(1)] c by (force simp: ran_def image_iff)
  from reconcile_jobs_spec [OF assms(1) _ c r] js dom show ?thesis
    by (auto simp: list_counts [OF assms(1) l] fun_eq_iff)
qed

end

section \<open>The retry loop against a scripted processor\<close>

text \<open>
  A processor that answers from a list, and a log of the waits: the world is the pair of both.
  \<open>attempts_made\<close> says without recursion how many answers the loop consumes: up to the first
  that is not transient, never more than the budget leaves, and at least one.
\<close>

definition scripted :: "time \<Rightarrow> (unit res list \<times> duration list) env" where
  "scripted now =
     \<lparr>env_process = (\<lambda>j (os, ds). (case os of [] \<Rightarrow> (Val (), ([], ds)) | r # rs \<Rightarrow> (r, (rs, ds)))),
      env_sleep = (\<lambda>d (os, ds). (os, ds @ [d])),
      env_now = (\<lambda>_. now), env_ctx_err = (\<lambda>_. False)\<rparr>"

definition recovered :: "unit res \<Rightarrow> goerr option" where
  "recovered r =
     (case r of Val _ \<Rightarrow> None | Fail e \<Rightarrow> Some e
      | Panic msg \<Rightarrow> Some (wrap KindPermanent ''queue.ProcessNext'' (Some (errorf ''panic: %v'' [FStr msg])))
      | Diverge \<Rightarrow> None)"

definition transient_answer :: "unit res \<Rightarrow> bool" where
  "transient_answer r \<longleftrightarrow> is_kind (recovered r) KindTransient"

definition attempts_made :: "int \<Rightarrow> int \<Rightarrow> unit res list \<Rightarrow> nat" where
  "attempts_made m a os = max 1 (min (nat (m - a)) (Suc (length (takeWhile transient_answer os))))"

definition finished_job :: "time \<Rightarrow> nat \<Rightarrow> unit res \<Rightarrow> job \<Rightarrow> job" where
  "finished_job now n answer j =
     (let j = j\<lparr>j_attempts := j_attempts j + int n, j_updated := now\<rparr> in
      case recovered answer of
        None \<Rightarrow> j\<lparr>j_state := JobDone\<rparr>
      | Some e \<Rightarrow> j\<lparr>j_state := JobFailed, j_last_error := error_text e\<rparr>)"

locale lossless_store = job_store +
  assumes save_total: "\<exists>s'. st_save ops j s = (None, s')"
    and storable_all: "storable j"
begin

lemma save_lossless:
  assumes "invar s"
  obtains s' where "st_save ops j s = (None, s')" "invar s'" "content s' = (content s)(j_id j \<mapsto> j)"
  using save_total [of j s] save_ok [OF assms storable_all] by blast

lemma run_claimed_job_scripted:
  assumes "invar s" and "attempts_made m (j_attempts j) os = n" and "n \<le> length os"
    and "Diverge \<notin> set (take n os)" and "content s (j_id j) = Some j"
  shows "\<exists>s'. run_claimed_job ops m (scripted now) b j s (os, ds)
           = Some (None, s', (drop n os, ds @ map (\<lambda>k. b * 2 ^ k) [0..<n - 1]))
         \<and> content s' = (content s)(j_id j \<mapsto> finished_job now n (os ! (n - 1)) j)"
  using assms
proof (induction os arbitrary: n b j s ds)
  case Nil
  then show ?case by (simp add: attempts_made_def)
next
  case (Cons r rs)
  have n1: "1 \<le> n" using Cons.prems(2) by (auto simp: attempts_made_def)
  have "r \<noteq> Diverge" using Cons.prems(4) n1 by (cases n) auto
  then have c: "callProcessor (scripted now) j' (r # rs, ds) = Some (recovered r, (rs, ds))" for j'
    by (cases r) (auto simp: callProcessor_def scripted_def recovered_def)
  let ?j = "count_attempt j"
  obtain d j1 where f: "finish_attempt m (recovered r) now ?j = (d, j1)" by fastforce
  have d: "d \<longleftrightarrow> \<not> (transient_answer r \<and> j_attempts j + 1 < m)"
    using f by (auto simp: finish_attempt_def transient_answer_def Let_def)
  obtain s1 where s1: "st_save ops j1 s = (None, s1)" "invar s1" "content s1 = (content s)(j_id j1 \<mapsto> j1)"
    using save_lossless [OF Cons.prems(1)] by metis
  have now: "env_now (scripted now) w = now" "env_ctx_err (scripted now) w = False"
    "env_sleep (scripted now) x (os, ds) = (os, ds @ [x])" for w x os ds
    by (simp_all add: scripted_def)
  note unf = run_claimed_job.simps[of _ _ _ _ j] Let_def c now f s1(1) prod.case option.case
  show ?case
  proof (cases d)
    case True
    with d Cons.prems(2) have "n = 1" by (auto simp: attempts_made_def)
    moreover have "j1 = finished_job now 1 r j" "j_id j1 = j_id j"
      using f True by (auto simp: finish_attempt_def count_attempt_def finished_job_def Let_def split: option.splits)
    ultimately show ?thesis using True s1 by (auto simp: unf)
  next
    case False
    have j1: "j1 = j\<lparr>j_attempts := j_attempts j + 1, j_updated := now\<rparr>"
      using f False by (auto simp: finish_attempt_def count_attempt_def Let_def split: if_splits)
    have n: "n = Suc (attempts_made m (j_attempts j1) rs)"
      using False d Cons.prems(2) j1 by (auto simp: attempts_made_def)
    let ?n = "attempts_made m (j_attempts j1) rs"
    have n0: "?n \<ge> 1" by (simp add: attempts_made_def)
    have "content s1 (j_id j1) = Some j1" "?n \<le> length rs" "Diverge \<notin> set (take ?n rs)"
      using n Cons.prems(3,4) s1(3) by auto
    from Cons.IH [OF s1(2) refl this(2,3,1), of "2 * b" "ds @ [b]"] obtain s' where
      s': "run_claimed_job ops m (scripted now) (2 * b) j1 s1 (rs, ds @ [b])
           = Some (None, s', (drop ?n rs, (ds @ [b]) @ map (\<lambda>k. 2 * b * 2 ^ k) [0..<?n - 1]))"
         "content s' = (content s1)(j_id j1 \<mapsto> finished_job now ?n (rs ! (?n - 1)) j1)" by blast
    have "map (\<lambda>k. b * 2 ^ k) [0..<?n] = b # map (\<lambda>k. 2 * b * 2 ^ k) [0..<?n - 1]"
      using n0 by (cases ?n) (simp_all add: map_upt_Suc mult.assoc mult.left_commute del: upt_Suc)
    moreover have "finished_job now ?n (rs ! (?n - 1)) j1 = finished_job now n ((r # rs) ! (n - 1)) j"
      using n n0 j1 by (cases ?n) (auto simp: finished_job_def Let_def split: option.splits)
    moreover have "run_claimed_job ops m (scripted now) b j s (r # rs, ds)
        = run_claimed_job ops m (scripted now) (2 * b) j1 s1 (rs, ds @ [b])"
      by (simp add: unf now False)
    moreover have "j_id j1 = j_id j" by (simp add: j1)
    ultimately show ?thesis
      using s' s1(3) n by (intro exI[of _ s']) simp
  qed
qed

end
section \<open>Enqueue and Cancel\<close>

context job_store
begin

lemma enqueue_spec:
  assumes "invar s" and "storable (fresh_job i now j)" and "q_ops q = ops"
    and "queue_Enqueue q (Inr i) now j s = (Inr j', s')"
  shows "invar s' \<and> j' = fresh_job i now j \<and> content s' = (content s)(i \<mapsto> j')"
  using assms(4) save_ok [OF assms(1,2)]
  by (auto simp: queue_Enqueue_def assms(3) fresh_job_def Let_def split: prod.splits option.splits)

lemma cancel_spec:
  assumes "invar s" and "q_ops q = ops" and "queue_Cancel q i now s = (None, s')"
  shows "invar s' \<and> (\<exists>j. content s i = Some j \<and> j_state j = JobPending
           \<and> content s' = (content s)(i \<mapsto> j\<lparr>j_state := JobCancelled, j_updated := now\<rparr>))"
proof -
  from assms(3) obtain j where j: "st_get ops i s = Inr j" "j_state j = JobPending"
    and sv: "st_save ops (j\<lparr>j_state := JobCancelled, j_updated := now\<rparr>) s = (None, s')"
    by (auto simp: queue_Cancel_def assms(2) cancel_check_def split: sum.splits if_splits)
  note c = get_ok [OF assms(1) j(1)]
  have "storable (j\<lparr>j_state := JobCancelled, j_updated := now\<rparr>)"
    using storable_updates(2) [where n = "j_attempts j" and t = now, OF content_storable [OF assms(1) c]]
    by (cases j) simp
  from save_ok [OF assms(1) this sv] content_id [OF assms(1) c] c j(2) show ?thesis by auto
qed

lemma enqueue_idempotent_spec:
  assumes "invar s" and "q_ops q = ops"
    and "\<forall>i. idr = Inr i \<longrightarrow> storable (fresh_job i now (j\<lparr>j_key := key\<rparr>))"
    and "queue_EnqueueIdempotent q idr now j key s = (Inr i, s')"
  shows "invar s' \<and> (\<exists>j'. content s' = (content s)(i \<mapsto> j') \<and> j_state j' \<noteq> JobFailed \<and> j_key j' = key
           \<and> sameLogicalRequest j' j
           \<and> (if key \<noteq> '''' \<and> (\<exists>old \<in> ran (content s). live_key key now old)
              then \<exists>old. content s i = Some old \<and> live_key key now old \<and> j' = idem_hit now old
              else idr = Inr i \<and> j' = fresh_job i now (j\<lparr>j_key := key\<rparr>)))"
proof -
  let ?nj = "j\<lparr>j_key := key\<rparr>"
  from assms(4) obtain j' cr where r: "st_enqueue_idem ops ?nj now idr s = (Inr (j', cr), s')" "i = j_id j'"
    by (auto simp: queue_EnqueueIdempotent_def assms(2) split: prod.splits sum.splits)
  show ?thesis
  proof (cases cr)
    case True
    with r idem_fresh [OF assms(1) _ assms(3)] show ?thesis
      by (fastforce simp: sameLogicalRequest_def)
  next
    case False
    with r have e: "st_enqueue_idem ops ?nj now idr s = (Inr (j', False), s')" by simp
    from idem_existing [OF assms(1) e] obtain old where o: "old \<in> ran (content s)"
      "live_key key now old" "sameLogicalRequest old ?nj" "j' = idem_hit now old" "key \<noteq> ''''"
      "invar s'" "content s' = (content s)(j_id old \<mapsto> j')" by auto
    have c: "content s (j_id old) = Some old" using o(1) ran_content_id [OF assms(1)] by blast
    have i: "i = j_id old" using r o by simp
    have k: "j_key old = key" using o(2) by (simp add: live_key_def)
    from o c i k show ?thesis by (auto simp: sameLogicalRequest_def intro!: exI[of _ j'])
  qed
qed

end

section \<open>Properties\<close>

definition sample_receipt :: receipt where
  "sample_receipt = \<lparr>r_version = 1, r_copies = 1, r_elements = [Some (EHeading ''Tea'')]\<rparr>"

definition sample_job :: job where
  "sample_job = \<lparr>j_id = ''7f'', j_printer = ''bar'', j_receipt = sample_receipt, j_state = JobPending,
     j_attempts = 0, j_last_error = '''', j_created = 0, j_updated = 0, j_key = ''k''\<rparr>"

definition willing_env :: "unit env" where
  "willing_env = \<lparr>env_process = (\<lambda>j w. (Val (), w)), env_sleep = (\<lambda>d w. w),
                 env_now = (\<lambda>w. 5), env_ctx_err = (\<lambda>w. False)\<rparr>"

abbreviation sample_queue :: "(string \<times> job) list queue" where
  "sample_queue \<equiv> NewQueue (bolt_ops list_bbolt plain_codec)"

lemmas sample_defs = sample_job_def sample_receipt_def NewQueue_def NewWithRetry_def
  defaultMaxAttempts_def defaultBaseBackoff_def

lemma sample_storable [simp]: "bolt_storable plain_codec sample_job"
  by (simp add: bolt_storable_def sample_defs plain_codec_def valid_string_ascii)

lemma sample_ids [simp]:
  "j_id sample_job = ''7f''" "j_state sample_job = JobPending" "j_printer sample_job = ''bar''"
  "j_attempts sample_job = 0"
  by (simp_all add: sample_defs)

lemma sample_bucket: "bolt_storable plain_codec j \<Longrightarrow> j_id j = i \<Longrightarrow> bolt_invar list_bbolt plain_codec [(i, j)]"
  by (rule bolt_invar_list_bucket) (simp split: if_splits)

lemma queue_parts [simp]:
  "q_ops (NewQueue ops) = ops" "q_max_attempts (NewQueue ops) = 3"
  "q_base_backoff (NewQueue ops) = 5000000000"
  by (simp_all add: NewQueue_def NewWithRetry_def defaultMaxAttempts_def defaultBaseBackoff_def)

lemma willing_returns [simp]: "callProcessor willing_env j w = Some (None, w)"
  by (simp add: callProcessor_def willing_env_def)

text \<open>
  (C9) Idempotent submission through the persistent store: a successful
  \<open>Queue.EnqueueIdempotent\<close> returns the ID of a job that asks for the same printer and receipt
  and is not failed.  If the key has a live match, that match is the job (reset to pending when
  it had failed) and no job is created; otherwise exactly one fresh job is.  No other job changes.
\<close>

theorem bolt_enqueue_idempotent:
  assumes "bolt_invar db c b" and "q_ops q = bolt_ops db c"
    and "\<forall>i. idr = Inr i \<longrightarrow> bolt_storable c (fresh_job i now (j\<lparr>j_key := key\<rparr>))"
    and "queue_EnqueueIdempotent q idr now j key b = (Inr i, b')"
  shows "bolt_invar db c b' \<and> (\<exists>j'. bolt_content db c b' = (bolt_content db c b)(i \<mapsto> j')
           \<and> j_state j' \<noteq> JobFailed \<and> j_key j' = key \<and> sameLogicalRequest j' j
           \<and> (if key \<noteq> '''' \<and> (\<exists>old \<in> ran (bolt_content db c b). live_key key now old)
              then \<exists>old. bolt_content db c b i = Some old \<and> live_key key now old \<and> j' = idem_hit now old
              else idr = Inr i \<and> j' = fresh_job i now (j\<lparr>j_key := key\<rparr>)))"
  by (rule bolt.enqueue_idempotent_spec [OF assms])

lemma sample_resubmit:
  "queue_EnqueueIdempotent sample_queue (Inr ''80'') 9 sample_job ''k'' [(''7f'', sample_job)]
     = (Inr ''7f'', [(''7f'', sample_job)])"
  by (simp add: queue_EnqueueIdempotent_def bolt_enqueue_idem_def db_update_def bolt_idem_tx_def
      bolt_find_key_def list_bbolt_def list_bucket_def plain_codec_def sameLogicalRequest_def
      idempotencyKeyExpired_def IdempotencyKeyTTL_def sample_defs)

theorem bolt_enqueue_idempotent_witness:
  "bolt_invar list_bbolt plain_codec [(''7f'', sample_job)]
   \<and> (\<exists>j'. bolt_content list_bbolt plain_codec [(''7f'', sample_job)]
        = (bolt_content list_bbolt plain_codec [(''7f'', sample_job)])(''7f'' \<mapsto> j') \<and> j_key j' = ''k'')"
  using bolt_enqueue_idempotent [OF sample_bucket [OF sample_storable sample_ids(1)] queue_parts(1) _ sample_resubmit]
  by (auto simp: bolt_storable_def fresh_job_def sample_defs plain_codec_def valid_string_ascii)

text \<open>
  (C17) One worker step over the persistent store: \<open>ProcessNextForPrinter\<close> either leaves the
  store alone (with no error only when this printer has no pending job), or takes the pending
  job of this printer with the lowest ID and changes that job alone, whose request is kept,
  whose attempts grow within the budget, and which ends done or failed, or running with
  attempts left when the wait was interrupted.
\<close>

theorem bolt_process_next:
  assumes "bolt_invar db c b"
    and "\<And>j w e w'. callProcessor env j w = Some (Some e, w') \<Longrightarrow> valid_string (error_text e)"
    and "q_ops q = bolt_ops db c"
    and "ProcessNextForPrinter q env p b w = Some (r, b', w')"
  shows "bolt_invar db c b' \<and>
    (bolt_content db c b' = bolt_content db c b \<and> b' = b
       \<and> (r = None \<longrightarrow> (\<forall>j \<in> ran (bolt_content db c b). \<not> claimable p j))
     \<or> (\<exists>j j'. bolt_content db c b (j_id j) = Some j \<and> claimable p j
         \<and> (\<forall>k \<in> ran (bolt_content db c b). claimable p k \<longrightarrow> j_id j \<le> j_id k)
         \<and> run_step (q_max_attempts q) (running (env_now env w) j) j'
         \<and> (r = None \<longrightarrow> j_attempts j < j_attempts j')
         \<and> bolt_content db c b' = (bolt_content db c b)(j_id j \<mapsto> j')))"
  by (rule bolt.process_next_for_printer_spec [OF assms])

lemma sample_process:
  "\<exists>b'. ProcessNextForPrinter sample_queue willing_env ''bar'' [(''7f'', sample_job)] () = Some (None, b', ())"
  by (simp add: ProcessNextForPrinter_def bolt_claim_def db_update_def bolt_claim_tx_def list_bucket_def
      list_bbolt_def plain_codec_def claimable_def bolt_put_job_def Let_def
      run_claimed_job.simps bolt_save_def finish_attempt_def split: prod.splits sum.splits)

theorem bolt_process_next_witness:
  "\<exists>b'. ProcessNextForPrinter sample_queue willing_env ''bar'' [(''7f'', sample_job)] () = Some (None, b', ())
        \<and> bolt_invar list_bbolt plain_codec b'"
proof -
  obtain b' where b': "ProcessNextForPrinter sample_queue willing_env ''bar'' [(''7f'', sample_job)] () = Some (None, b', ())"
    using sample_process by blast
  have "bolt_invar list_bbolt plain_codec b'"
    using bolt_process_next [OF sample_bucket [OF sample_storable sample_ids(1)] _ queue_parts(1) b'] by simp
  with b' show ?thesis by blast
qed

text \<open>
  (C10) Crash recovery over the persistent store: a \<open>Reconcile\<close> without a store error turns every
  running job into a pending one, or a failed one when its budget is spent, counts the
  interrupted attempt, touches no other job, and returns the number of jobs of each sort.
\<close>

theorem bolt_reconcile:
  assumes "bolt_invar db c b" and "q_ops q = bolt_ops db c"
    and "Reconcile q now b = ((ret, fld, None), b')"
  shows "bolt_invar db c b'
     \<and> bolt_content db c b' = (\<lambda>i. map_option (reconciled (q_max_attempts q) now) (bolt_content db c b i))
     \<and> (\<forall>j \<in> ran (bolt_content db c b'). j_state j \<noteq> JobRunning)
     \<and> ret = int (card {i. \<exists>j. bolt_content db c b i = Some j \<and> j_state j = JobRunning
                              \<and> j_attempts j + 1 < q_max_attempts q})
     \<and> fld = int (card {i. \<exists>j. bolt_content db c b i = Some j \<and> j_state j = JobRunning
                              \<and> \<not> j_attempts j + 1 < q_max_attempts q})"
  using bolt.reconcile_spec [OF assms] reconciled_not_running
  by (auto simp: ran_def)

theorem bolt_reconcile_witness:
  "\<exists>b'. Reconcile sample_queue 9 [(''7f'', sample_job\<lparr>j_state := JobRunning\<rparr>)] = ((1, 0, None), b')
        \<and> bolt_invar list_bbolt plain_codec b'
        \<and> (\<forall>j \<in> ran (bolt_content list_bbolt plain_codec b'). j_state j \<noteq> JobRunning)"
proof -
  obtain b' where b': "Reconcile sample_queue 9 [(''7f'', sample_job\<lparr>j_state := JobRunning\<rparr>)] = ((1, 0, None), b')"
    by (simp add: Reconcile_def bolt_list_def db_view_def list_bbolt_def list_bucket_def plain_codec_def
        bolt_save_def db_update_def Let_def)
  have "bolt_storable plain_codec (sample_job\<lparr>j_state := JobRunning\<rparr>)"
    using sample_storable by (simp add: bolt_storable_def)
  from bolt_reconcile [OF sample_bucket [OF this] queue_parts(1) b'] b' show ?thesis by auto
qed

text \<open>
  (C19) The retry loop from the memory store: against a processor that answers from a list, a
  claimed job is attempted until the first answer that is not a transient error, at most as
  often as the budget leaves and at least once, with waits of \<open>b, 2b, 4b, \<dots>\<close> between attempts;
  the job ends done or failed after the last answer, with its attempts counted.
\<close>

interpretation memq: lossless_store mem_ops map_of mem_invar "\<lambda>_. True" "\<lambda>_. True"
  by unfold_locales (simp_all add: mem_save_def)

theorem mem_retry_backoff:
  assumes "mem_invar s" and "attempts_made m (j_attempts j) answers = n" and "n \<le> length answers"
    and "Diverge \<notin> set (take n answers)" and "map_of s (j_id j) = Some j"
  shows "\<exists>s'. run_claimed_job mem_ops m (scripted now) b j s (answers, waits)
           = Some (None, s', (drop n answers, waits @ map (\<lambda>k. b * 2 ^ k) [0..<n - 1]))
         \<and> map_of s' = (map_of s)(j_id j \<mapsto> finished_job now n (answers ! (n - 1)) j)"
  by (rule memq.run_claimed_job_scripted [OF assms])

theorem mem_retry_backoff_witness:
  "\<exists>s'. run_claimed_job mem_ops 3 (scripted 9) 5 sample_job [(''7f'', sample_job)]
           ([Fail (AppErr KindTransient ''p'' None), Fail (AppErr KindTransient ''p'' None), Val ()], [])
         = Some (None, s', ([], [5, 10]))"
  using mem_retry_backoff [of "[(''7f'', sample_job)]" 3 sample_job
      "[Fail (AppErr KindTransient ''p'' None), Fail (AppErr KindTransient ''p'' None), Val ()]" 3 9 5 "[]"]
  by (auto simp: attempts_made_def transient_answer_def recovered_def mem_invar_def upt_rec numeral_2_eq_2)

text \<open>
  The retry loop always returns when each call of the processor does, with every store and
  every budget.
\<close>

lemma retry_loop_returns:
  assumes "\<And>j w. callProcessor env j w \<noteq> None"
  shows "\<exists>r. run_claimed_job (bolt_ops db c) m env b j s w = Some r"
  using bolt.run_claimed_job_terminates [OF assms] by auto

text \<open>
  A job that an earlier run left interrupted and that is then printed keeps the text of that
  interruption as its last error although its state is done.
\<close>

lemma done_job_keeps_last_error:
  "\<exists>s' j'. run_claimed_job mem_ops 3 willing_env 1
             (running 9 (reconcile_job 3 8 (sample_job\<lparr>j_state := JobRunning\<rparr>))) [] () = Some (None, s', ())
     \<and> map_of s' ''7f'' = Some j' \<and> j_state j' = JobDone \<and> j_last_error j' = interrupted_text 1 3"
  by (simp add: run_claimed_job.simps finish_attempt_def count_attempt_def mem_save_def running_def reconcile_job_def
      willing_env_def callProcessor_def sample_job_def Let_def)

text \<open>IDs are as distinct as the bytes they are drawn from.\<close>

lemma hex_digit_inj: "m < 16 \<Longrightarrow> n < 16 \<Longrightarrow> hex_digit m = hex_digit n \<Longrightarrow> m = n"
proof -
  have "list_all (\<lambda>m. list_all (\<lambda>n. hex_digit m = hex_digit n \<longrightarrow> m = n) [0..<16]) [0..<16]" by code_simp
  then show "m < 16 \<Longrightarrow> n < 16 \<Longrightarrow> hex_digit m = hex_digit n \<Longrightarrow> m = n" by (auto simp: list_all_iff)
qed

lemma hex_encode_inj: "hex_encode as = hex_encode bs \<longleftrightarrow> as = bs"
proof (induction as arbitrary: bs)
  case Nil
  show ?case by (cases bs) (simp_all add: hex_encode_def)
next
  case (Cons a as)
  show ?case
  proof (cases bs)
    case Nil
    then show ?thesis by (simp add: hex_encode_def)
  next
    case bs: (Cons b bs')
    have d: "unat x div 16 < 16" "unat x mod 16 < 16" for x :: byte
      using unsigned_less [of x, where 'a = nat] by (simp_all add: less_mult_imp_div_less)
    have "hex_encode (a # as) = hex_encode (b # bs') \<longleftrightarrow>
        hex_digit (unat a div 16) = hex_digit (unat b div 16) \<and> hex_digit (unat a mod 16) = hex_digit (unat b mod 16)
        \<and> hex_encode as = hex_encode bs'" by (simp add: hex_encode_def)
    also have "\<dots> \<longleftrightarrow> unat a div 16 = unat b div 16 \<and> unat a mod 16 = unat b mod 16 \<and> hex_encode as = hex_encode bs'"
      using hex_digit_inj d by metis
    also have "\<dots> \<longleftrightarrow> a = b \<and> as = bs'"
      using Cons.IH by (metis mult_div_mod_eq unsigned_word_eqI)
    finally show ?thesis using bs by simp
  qed
qed

lemma newJobID_ok:
  assumes "newJobID rand = Inr i" and "\<And>n bs. rand n = Inr bs \<Longrightarrow> length bs = n"
  shows "length i = 32"
proof -
  have "length (hex_encode bs) = 2 * length bs" for bs by (induction bs) (simp_all add: hex_encode_def)
  with assms show ?thesis by (auto simp: newJobID_def split: sum.splits)
qed

end
