(* ===== verification/QueueSystem.thy ===== *)
theory QueueSystem
  imports Queue
begin

text \<open>
  The queue as it runs in the daemon: one worker per printer, HTTP handlers that submit jobs, and
  a store they share.  Each step is one atomic store operation of the code (a store call under
  the memory store's mutex or in one bbolt transaction) or the begin of a processor call, so a run is an
  arbitrary interleaving of the workers and the handlers.  A crash may come between any two of them.  A restart
  reads the jobs and reconciles them one store call at a time before the workers start again
  (\<open>cmd/receiptd/shutdown.go\<close>, \<open>run\<close>): it may crash in between or stop at a store error, and the next one
  starts from what it left.  \<open>process_next_is_run\<close> and \<open>reconcile_is_run\<close> link the steps to the functions of
  \<open>Queue\<close>: whatever \<open>ProcessNextForPrinter\<close> and \<open>Reconcile\<close> do is a chain of steps.
\<close>

section \<open>States and steps\<close>

text \<open>\<open>Recovering t js\<close>: \<open>Reconcile\<close> has drawn the time \<open>t\<close> and has the jobs \<open>js\<close> still to look at.\<close>

datatype phase = Up | Stopping | Down | Recovering time "job list"

text \<open>
  \<open>sys_held p\<close> is the job that the worker of printer \<open>p\<close> carries through \<open>runClaimedJob\<close>, as last saved; \<open>sys_busy\<close> are the
  printers whose worker is inside the processor.  \<open>sys_calls i\<close> counts, for the statements only, the calls of
  the processor for job \<open>i\<close> since it was accepted: it was created, or a resubmission made a failed job pending again.
\<close>

record 's qsys =
  sys_store :: 's
  sys_held :: "string \<rightharpoonup> job"
  sys_busy :: "string set"
  sys_calls :: "string \<Rightarrow> nat"
  sys_clock :: time
  sys_phase :: phase

definition serving :: "'s qsys \<Rightarrow> bool" where
  "serving c \<longleftrightarrow> sys_phase c = Up \<or> sys_phase c = Stopping"

definition accepted_anew :: "(string \<rightharpoonup> job) \<Rightarrow> (string \<rightharpoonup> job) \<Rightarrow> string \<Rightarrow> bool" where
  "accepted_anew before after i \<longleftrightarrow>
     (case after i of None \<Rightarrow> False
      | Some j \<Rightarrow> (case before i of None \<Rightarrow> True | Some k \<Rightarrow> j_state k = JobFailed \<and> j_state j = JobPending))"

inductive sys_step ::
  "'s store_ops \<Rightarrow> (job \<Rightarrow> bool) \<Rightarrow> (string \<Rightarrow> bool) \<Rightarrow> ('s \<Rightarrow> (string \<rightharpoonup> job)) \<Rightarrow> int \<Rightarrow> 's qsys \<Rightarrow> 's qsys \<Rightarrow> bool"
  for ops accepted text_ok jobs_of m where
  tick: "0 \<le> d \<Longrightarrow> sys_step ops accepted text_ok jobs_of m c (c\<lparr>sys_clock := sys_clock c + d\<rparr>)"
| submit: "serving c \<Longrightarrow> j_attempts j = 0 \<Longrightarrow>
    (\<And>i. idr = Inr i \<Longrightarrow> jobs_of (sys_store c) i = None \<and> accepted (fresh_job i (sys_clock c) j)) \<Longrightarrow>
    st_enqueue_idem ops j (sys_clock c) idr (sys_store c) = (r, s') \<Longrightarrow>
    sys_step ops accepted text_ok jobs_of m c
      (c\<lparr>sys_store := s',
         sys_calls := (\<lambda>i. if accepted_anew (jobs_of (sys_store c)) (jobs_of s') i then 0 else sys_calls c i)\<rparr>)"
| claim: "serving c \<Longrightarrow> sys_held c p = None \<Longrightarrow>
    st_claim ops p (sys_clock c) (sys_store c) = (Inr (Some j), s') \<Longrightarrow>
    sys_step ops accepted text_ok jobs_of m c (c\<lparr>sys_store := s', sys_held := (sys_held c)(p \<mapsto> j)\<rparr>)"
| call: "serving c \<Longrightarrow> sys_held c p = Some j \<Longrightarrow> p \<notin> sys_busy c \<Longrightarrow>
    sys_step ops accepted text_ok jobs_of m c
      (c\<lparr>sys_busy := insert p (sys_busy c), sys_calls := (sys_calls c)(j_id j := Suc (sys_calls c (j_id j)))\<rparr>)"
| answer: "serving c \<Longrightarrow> sys_held c p = Some j \<Longrightarrow> p \<in> sys_busy c \<Longrightarrow>
    (\<And>e. procErr = Some e \<Longrightarrow> text_ok (error_text e)) \<Longrightarrow>
    finish_attempt m procErr (sys_clock c) (count_attempt j) = (fin, j') \<Longrightarrow>
    st_save ops j' (sys_store c) = (None, s') \<Longrightarrow>
    sys_step ops accepted text_ok jobs_of m c
      (c\<lparr>sys_store := s', sys_busy := sys_busy c - {p}, sys_held := (sys_held c)(p := if fin then None else Some j')\<rparr>)"
| save_failed: "serving c \<Longrightarrow> sys_held c p = Some j \<Longrightarrow> p \<in> sys_busy c \<Longrightarrow>
    finish_attempt m procErr (sys_clock c) (count_attempt j) = (fin, j') \<Longrightarrow>
    st_save ops j' (sys_store c) = (Some e, s') \<Longrightarrow>
    sys_step ops accepted text_ok jobs_of m c
      (c\<lparr>sys_store := s', sys_busy := sys_busy c - {p}, sys_held := (sys_held c)(p := None)\<rparr>)"
| signal: "sys_phase c = Up \<Longrightarrow> sys_step ops accepted text_ok jobs_of m c (c\<lparr>sys_phase := Stopping\<rparr>)"
| wait_cut: "sys_phase c = Stopping \<Longrightarrow> sys_held c p = Some j \<Longrightarrow> p \<notin> sys_busy c \<Longrightarrow>
    sys_step ops accepted text_ok jobs_of m c (c\<lparr>sys_held := (sys_held c)(p := None)\<rparr>)"
| crash: "sys_step ops accepted text_ok jobs_of m c (c\<lparr>sys_held := Map.empty, sys_busy := {}, sys_phase := Down\<rparr>)"
| restart: "sys_phase c = Down \<Longrightarrow> st_list ops (sys_store c) = Inr js \<Longrightarrow>
    sys_step ops accepted text_ok jobs_of m c (c\<lparr>sys_phase := Recovering (sys_clock c) js\<rparr>)"
| pass: "sys_phase c = Recovering t (j # js) \<Longrightarrow> j_state j \<noteq> JobRunning \<Longrightarrow>
    sys_step ops accepted text_ok jobs_of m c (c\<lparr>sys_phase := Recovering t js\<rparr>)"
| resolve: "sys_phase c = Recovering t (j # js) \<Longrightarrow> j_state j = JobRunning \<Longrightarrow>
    st_save ops (reconcile_job m t j) (sys_store c) = (None, s') \<Longrightarrow>
    sys_step ops accepted text_ok jobs_of m c (c\<lparr>sys_store := s', sys_phase := Recovering t js\<rparr>)"
| resolve_failed: "sys_phase c = Recovering t (j # js) \<Longrightarrow> j_state j = JobRunning \<Longrightarrow>
    st_save ops (reconcile_job m t j) (sys_store c) = (Some e, s') \<Longrightarrow>
    sys_step ops accepted text_ok jobs_of m c (c\<lparr>sys_store := s', sys_phase := Down\<rparr>)"
| resume: "sys_phase c = Recovering t [] \<Longrightarrow>
    sys_step ops accepted text_ok jobs_of m c (c\<lparr>sys_phase := Up\<rparr>)"

inductive reachable ::
  "'s store_ops \<Rightarrow> (job \<Rightarrow> bool) \<Rightarrow> (string \<Rightarrow> bool) \<Rightarrow> ('s \<Rightarrow> (string \<rightharpoonup> job)) \<Rightarrow> int \<Rightarrow> 's qsys \<Rightarrow> 's qsys \<Rightarrow> bool"
  for ops accepted text_ok jobs_of m c0 where
  start: "reachable ops accepted text_ok jobs_of m c0 c0"
| more: "reachable ops accepted text_ok jobs_of m c0 c \<Longrightarrow> sys_step ops accepted text_ok jobs_of m c c'
     \<Longrightarrow> reachable ops accepted text_ok jobs_of m c0 c'"

inductive_cases sys_stepE: "sys_step ops accepted text_ok jobs_of m c c'"

lemma serving_upd [simp]:
  "serving (c\<lparr>sys_store := s\<rparr>) = serving c" "serving (c\<lparr>sys_held := h\<rparr>) = serving c"
  "serving (c\<lparr>sys_busy := b\<rparr>) = serving c" "serving (c\<lparr>sys_calls := k\<rparr>) = serving c"
  "serving (c\<lparr>sys_clock := t\<rparr>) = serving c" "serving (c\<lparr>sys_phase := ph\<rparr>) \<longleftrightarrow> ph = Up \<or> ph = Stopping"
  by (simp_all add: serving_def)

section \<open>The functions of the queue are runs of the system\<close>

text \<open>The clock of an environment goes forward in a processor call and in a sleep.\<close>

definition clock_forward :: "'w env \<Rightarrow> bool" where
  "clock_forward env \<longleftrightarrow>
     (\<forall>j w r w'. callProcessor env j w = Some (r, w') \<longrightarrow> env_now env w \<le> env_now env w')
   \<and> (\<forall>d w. env_now env w \<le> env_now env (env_sleep env d w))"

text \<open>What one call of a worker changes besides the store: it holds nothing any more, and a cancelled wait means a signal.\<close>

definition call_over :: "string \<Rightarrow> 's qsys \<Rightarrow> 's qsys \<Rightarrow> bool" where
  "call_over p c c' \<longleftrightarrow> sys_held c' = (sys_held c)(p := None) \<and> sys_busy c' = sys_busy c - {p}
     \<and> sys_clock c \<le> sys_clock c' \<and> serving c'"

abbreviation sys_steps ::
  "'s store_ops \<Rightarrow> (job \<Rightarrow> bool) \<Rightarrow> (string \<Rightarrow> bool) \<Rightarrow> ('s \<Rightarrow> (string \<rightharpoonup> job)) \<Rightarrow> int \<Rightarrow> 's qsys \<Rightarrow> 's qsys \<Rightarrow> bool" where
  "sys_steps ops accepted text_ok jobs_of m \<equiv> (sys_step ops accepted text_ok jobs_of m)\<^sup>*\<^sup>*"

lemma tick_to: "sys_clock c \<le> t \<Longrightarrow> sys_step ops accepted text_ok jobs_of m c (c\<lparr>sys_clock := t\<rparr>)"
  using sys_step.tick [of "t - sys_clock c" ops accepted text_ok jobs_of m c] by simp

lemma claimed_job_is_run:
  assumes "clock_forward env"
    and "\<forall>j w e w'. callProcessor env j w = Some (Some e, w') \<longrightarrow> text_ok (error_text e)"
    and "serving c" and "sys_held c p = Some j" and "p \<notin> sys_busy c" and "sys_clock c \<le> env_now env w"
    and "run_claimed_job ops m env b j (sys_store c) w = Some (r, s', w')"
  shows "\<exists>c'. sys_steps ops accepted text_ok jobs_of m c c' \<and> sys_store c' = s' \<and> call_over p c c'
    \<and> sys_clock c' \<le> env_now env w'"
  using assms(3-7)
proof (induction "nat (m - j_attempts j)" arbitrary: b j c w rule: less_induct)
  case less
  let ?step = "sys_step ops accepted text_ok jobs_of m"
  from less.prems(5) obtain pr w1 where pr: "callProcessor env (count_attempt j) w = Some (pr, w1)"
    by (auto simp: run_claimed_job.simps [of _ _ _ _ j] Let_def split: option.splits)
  obtain d j1 where f: "finish_attempt m pr (env_now env w1) (count_attempt j) = (d, j1)" by fastforce
  obtain sv s1 where sv: "st_save ops j1 (sys_store c) = (sv, s1)" by fastforce
  note unf = less.prems(5) [unfolded run_claimed_job.simps [of _ _ _ _ j] Let_def pr f sv option.case prod.case]
  let ?c1 = "c\<lparr>sys_busy := insert p (sys_busy c), sys_calls := (sys_calls c)(j_id j := Suc (sys_calls c (j_id j)))\<rparr>"
  let ?c2 = "?c1\<lparr>sys_clock := env_now env w1\<rparr>"
  have t: "env_now env w \<le> env_now env w1" "env_now env w1 \<le> env_now env (env_sleep env b w1)"
    using assms(1) pr by (auto simp: clock_forward_def)
  have "?step c ?c1" using less.prems(1-3) by (rule sys_step.call)
  moreover have "?step ?c1 ?c2" by (rule tick_to) (use t less.prems(4) in simp)
  ultimately have run: "?step\<^sup>*\<^sup>* c ?c2" by simp
  show ?case
  proof (cases sv)
    case (Some e)
    let ?c3 = "?c2\<lparr>sys_store := s1, sys_busy := sys_busy ?c2 - {p}, sys_held := (sys_held ?c2)(p := None)\<rparr>"
    have "?step ?c2 ?c3"
      by (rule sys_step.save_failed) (use less.prems(1-3) f sv Some in simp_all)
    with run have "?step\<^sup>*\<^sup>* c ?c3" by (rule rtranclp.rtrancl_into_rtrancl)
    then show ?thesis using unf Some less.prems t
      by (intro exI [of _ ?c3]) (auto simp: call_over_def)
  next
    case None
    let ?c3 = "?c2\<lparr>sys_store := s1, sys_busy := sys_busy ?c2 - {p}, sys_held := (sys_held ?c2)(p := if d then None else Some j1)\<rparr>"
    have "?step ?c2 ?c3"
      by (rule sys_step.answer [where procErr = pr]) (use less.prems(1-3) f sv None assms(2) pr in auto)
    with run have run3: "?step\<^sup>*\<^sup>* c ?c3" by (rule rtranclp.rtrancl_into_rtrancl)
    consider "d" | (cut) "\<not> d" "env_ctx_err env (env_sleep env b w1)" | (again) "\<not> d" "\<not> env_ctx_err env (env_sleep env b w1)" by blast
    then show ?thesis
    proof cases
      case 1
      with unf None run3 less.prems t show ?thesis by (intro exI [of _ ?c3]) (auto simp: call_over_def)
    next
      case cut
      let ?c4 = "?c3\<lparr>sys_phase := Stopping\<rparr>" let ?c5 = "?c4\<lparr>sys_held := (sys_held ?c4)(p := None)\<rparr>"
      have "?step\<^sup>*\<^sup>* ?c3 ?c4"
      proof (cases "sys_phase c = Up")
        case True
        then show ?thesis by (intro r_into_rtranclp sys_step.signal) simp
      next
        case False
        with less.prems(1) have "?c4 = ?c3" by (simp add: serving_def)
        then show ?thesis by simp
      qed
      moreover have "?step ?c4 ?c5" by (rule sys_step.wait_cut) (use cut in simp_all)
      ultimately have "?step\<^sup>*\<^sup>* c ?c5" using run3 by (meson rtranclp.rtrancl_into_rtrancl rtranclp_trans)
      then show ?thesis using unf None cut less.prems t by (intro exI [of _ ?c5]) (auto simp: call_over_def)
    next
      case again
      with unf None have rec: "run_claimed_job ops m env (2 * b) j1 (sys_store ?c3) (env_sleep env b w1) = Some (r, s', w')"
        by simp
      from again f have "nat (m - j_attempts j1) < nat (m - j_attempts j)"
        by (auto dest!: finish_attempt_continue)
      from less.hyps [OF this _ _ _ _ rec] again less.prems(1-4) t obtain c' where
        c': "?step\<^sup>*\<^sup>* ?c3 c'" "sys_store c' = s'" "call_over p ?c3 c'" "sys_clock c' \<le> env_now env w'" by auto
      have "call_over p c c'" using c'(3) less.prems(4) t by (auto simp: call_over_def)
      with c' run3 show ?thesis by (blast intro: rtranclp_trans)
    qed
  qed
qed

lemma reconcile_jobs_is_run:
  assumes "reconcile_jobs ops m t js a b (sys_store c) = ((ret, fld, err), s')"
    and "sys_phase c = Recovering t js"
  shows "sys_steps ops accepted text_ok jobs_of m c
    (c\<lparr>sys_store := s', sys_phase := if err = None then Up else Down\<rparr>)"
  using assms
proof (induction js arbitrary: a b c)
  case Nil
  then show ?case using sys_step.resume [OF Nil(2)] by auto
next
  case (Cons j js)
  let ?step = "sys_step ops accepted text_ok jobs_of m"
  show ?case
  proof (cases "j_state j = JobRunning")
    case False
    let ?c1 = "c\<lparr>sys_phase := Recovering t js\<rparr>"
    from False Cons.prems(1) have "reconcile_jobs ops m t js a b (sys_store ?c1) = ((ret, fld, err), s')" by simp
    from Cons.IH [OF this] have "?step\<^sup>*\<^sup>* ?c1 (?c1\<lparr>sys_store := s', sys_phase := if err = None then Up else Down\<rparr>)" by simp
    moreover have "?step c ?c1" using sys_step.pass [OF Cons.prems(2) False] .
    ultimately show ?thesis by (simp add: converse_rtranclp_into_rtranclp)
  next
    case True
    obtain sv s1 where sv: "st_save ops (reconcile_job m t j) (sys_store c) = (sv, s1)" by fastforce
    note r = Cons.prems(1) [unfolded reconcile_jobs.simps sv Let_def]
    show ?thesis
    proof (cases sv)
      case (Some e)
      with r True have "err = Some e" "s' = s1" by simp_all
      with sys_step.resolve_failed [OF Cons.prems(2) True] sv Some show ?thesis by auto
    next
      case None
      let ?c1 = "c\<lparr>sys_store := s1, sys_phase := Recovering t js\<rparr>"
      from r True None have "\<exists>a b. reconcile_jobs ops m t js a b (sys_store ?c1) = ((ret, fld, err), s')" by auto
      with Cons.IH [of _ _ ?c1] have "?step\<^sup>*\<^sup>* ?c1 (?c1\<lparr>sys_store := s', sys_phase := if err = None then Up else Down\<rparr>)" by auto
      moreover have "?step c ?c1" using sys_step.resolve [OF Cons.prems(2) True] sv None by blast
      ultimately show ?thesis by (simp add: converse_rtranclp_into_rtranclp)
    qed
  qed
qed

text \<open>A whole \<open>Reconcile\<close>, with the error that stopped it if one did.\<close>

lemma reconcile_is_run:
  assumes "Reconcile (NewWithRetry ops m b) (sys_clock c) (sys_store c) = ((ret, fld, err), s')" and "sys_phase c = Down"
  shows "sys_steps ops accepted text_ok jobs_of m c
    (c\<lparr>sys_store := s', sys_phase := if err = None then Up else Down\<rparr>)"
proof (cases "st_list ops (sys_store c)")
  case (Inl e)
  with assms have "c\<lparr>sys_store := s', sys_phase := if err = None then Up else Down\<rparr> = c"
    by (auto simp: Reconcile_def NewWithRetry_def)
  then show ?thesis by simp
next
  case (Inr js)
  let ?c1 = "c\<lparr>sys_phase := Recovering (sys_clock c) js\<rparr>"
  from Inr assms(1) have "reconcile_jobs ops m (sys_clock c) js 0 0 (sys_store ?c1) = ((ret, fld, err), s')"
    by (simp add: Reconcile_def NewWithRetry_def)
  from reconcile_jobs_is_run [OF this] have
    "sys_steps ops accepted text_ok jobs_of m ?c1 (?c1\<lparr>sys_store := s', sys_phase := if err = None then Up else Down\<rparr>)" by simp
  from converse_rtranclp_into_rtranclp [OF sys_step.restart [OF assms(2) Inr] this] show ?thesis by simp
qed

text \<open>A submission through the queue is one step.\<close>

lemma enqueue_is_run:
  assumes "queue_EnqueueIdempotent (NewWithRetry ops m b) idr (sys_clock c) j key (sys_store c) = (r, s')"
    and "serving c" and "j_attempts j = 0"
    and "\<And>i. idr = Inr i \<Longrightarrow> jobs_of (sys_store c) i = None \<and> accepted (fresh_job i (sys_clock c) (j\<lparr>j_key := key\<rparr>))"
  shows "\<exists>calls. sys_step ops accepted text_ok jobs_of m c (c\<lparr>sys_store := s', sys_calls := calls\<rparr>)"
proof -
  obtain r' where "st_enqueue_idem ops (j\<lparr>j_key := key\<rparr>) (sys_clock c) idr (sys_store c) = (r', s')"
    using assms(1) by (auto simp: queue_EnqueueIdempotent_def NewWithRetry_def split: prod.splits sum.splits)
  then show ?thesis
    using sys_step.submit [where c = c and j = "j\<lparr>j_key := key\<rparr>" and idr = idr and jobs_of = jobs_of and accepted = accepted]
      assms(2-4) by fastforce
qed

context job_store
begin

lemma process_next_is_run:
  assumes "invar (sys_store c)" and "q_ops q = ops" and "clock_forward env"
    and "\<forall>j w e w'. callProcessor env j w = Some (Some e, w') \<longrightarrow> text_ok (error_text e)"
    and "serving c" and "sys_held c p = None" and "p \<notin> sys_busy c" and "sys_clock c = env_now env w"
    and "ProcessNextForPrinter q env p (sys_store c) w = Some (r, s', w')"
  shows "\<exists>c'. sys_steps ops storable text_ok content (q_max_attempts q) c c' \<and> sys_store c' = s' \<and> call_over p c c'
    \<and> sys_clock c' \<le> env_now env w'"
proof -
  obtain cl s1 where cl: "st_claim ops p (env_now env w) (sys_store c) = (cl, s1)" by fastforce
  note unf = assms(9) [unfolded ProcessNextForPrinter_def assms(2) cl prod.case]
  show ?thesis
  proof (cases "\<exists>j. cl = Inr (Some j)")
    case False
    then have "s1 = sys_store c"
      using cl claim_err [OF assms(1)] claim_none [OF assms(1)] by (cases cl) auto
    moreover from False unf have "s' = s1" "w' = w" by (auto split: sum.splits option.splits)
    ultimately have "s' = sys_store c" "w' = w" by simp_all
    with assms(5-8) show ?thesis by (intro exI [of _ c]) (auto simp: call_over_def fun_upd_idem)
  next
    case True
    then obtain j where j: "cl = Inr (Some j)" by blast
    let ?c1 = "c\<lparr>sys_store := s1, sys_held := (sys_held c)(p \<mapsto> j)\<rparr>"
    have "sys_step ops storable text_ok content (q_max_attempts q) c ?c1"
      by (rule sys_step.claim) (use assms(5-8) cl j in simp_all)
    moreover have "run_claimed_job ops (q_max_attempts q) env (q_base_backoff q) j (sys_store ?c1) w = Some (r, s', w')"
      using unf j by simp
    from claimed_job_is_run [where p = p, OF assms(3,4) _ _ _ _ this] assms(5,7,8) obtain c' where
      "sys_steps ops storable text_ok content (q_max_attempts q) ?c1 c'" "sys_store c' = s'" "call_over p ?c1 c'"
      "sys_clock c' \<le> env_now env w'" by (auto simp: fun_upd_same)
    ultimately show ?thesis by (auto simp: call_over_def intro: converse_rtranclp_into_rtranclp)
  qed
qed

end

section \<open>The invariants\<close>

text \<open>What a worker holds is what the store has, running and of the worker's own printer.\<close>

definition held_ok :: "(string \<rightharpoonup> job) \<Rightarrow> (string \<rightharpoonup> job) \<Rightarrow> bool" where
  "held_ok jobs held \<longleftrightarrow>
     (\<forall>p j. held p = Some j \<longrightarrow> jobs (j_id j) = Some j \<and> j_state j = JobRunning \<and> j_printer j = p)"

text \<open>Attempts stay within the budget, and below it while there is work to do.\<close>

definition budget_ok :: "int \<Rightarrow> job \<Rightarrow> bool" where
  "budget_ok m j \<longleftrightarrow> 0 \<le> j_attempts j \<and> j_attempts j \<le> m
     \<and> (j_state j \<in> {JobPending, JobRunning} \<longrightarrow> j_attempts j < m)"

text \<open>Two jobs under one key were created more than a key's life time apart.\<close>

definition keys_ok :: "time \<Rightarrow> (string \<rightharpoonup> job) \<Rightarrow> bool" where
  "keys_ok now jobs \<longleftrightarrow>
     (\<forall>j \<in> ran jobs. j_created j \<le> now)
   \<and> (\<forall>a b j k. jobs a = Some j \<longrightarrow> jobs b = Some k \<longrightarrow> a \<noteq> b \<longrightarrow> j_key j = j_key k \<longrightarrow> j_key j \<noteq> [] \<longrightarrow>
        \<bar>j_created j - j_created k\<bar> > IdempotencyKeyTTL)"

text \<open>
  The calls made for a job are counted in the store, but for one: the call that is running, or one whose end did
  not reach the store.
\<close>

definition calls_limit :: "job option \<Rightarrow> int" where
  "calls_limit x = (case x of None \<Rightarrow> 0 | Some j \<Rightarrow> j_attempts j + (if j_state j = JobRunning then 1 else 0))"

definition calls_ok :: "(string \<rightharpoonup> job) \<Rightarrow> (string \<rightharpoonup> job) \<Rightarrow> string set \<Rightarrow> (string \<Rightarrow> nat) \<Rightarrow> bool" where
  "calls_ok jobs held busy calls \<longleftrightarrow>
     (\<forall>i. int (calls i) \<le> calls_limit (jobs i))
   \<and> (\<forall>p j. held p = Some j \<longrightarrow> p \<notin> busy \<longrightarrow> int (calls (j_id j)) \<le> j_attempts j)"

text \<open>While \<open>Reconcile\<close> runs, what it has still to look at is as it was read, and has every running job.\<close>

definition recovery_ok :: "(string \<rightharpoonup> job) \<Rightarrow> phase \<Rightarrow> bool" where
  "recovery_ok jobs ph \<longleftrightarrow> (\<forall>t js. ph = Recovering t js \<longrightarrow> distinct (map j_id js)
     \<and> (\<forall>j \<in> set js. jobs (j_id j) = Some j) \<and> (\<forall>i j. jobs i = Some j \<longrightarrow> j_state j = JobRunning \<longrightarrow> j \<in> set js))"

definition sys_ok :: "int \<Rightarrow> (string \<rightharpoonup> job) \<Rightarrow> 's qsys \<Rightarrow> bool" where
  "sys_ok m jobs c \<longleftrightarrow> held_ok jobs (sys_held c) \<and> (\<forall>j \<in> ran jobs. budget_ok m j)
     \<and> keys_ok (sys_clock c) jobs \<and> (\<not> serving c \<longrightarrow> sys_held c = Map.empty)
     \<and> calls_ok jobs (sys_held c) (sys_busy c) (sys_calls c) \<and> recovery_ok jobs (sys_phase c)"

lemma recovery_ok_serving: "serving c \<Longrightarrow> recovery_ok jobs (sys_phase c)"
  by (auto simp: recovery_ok_def serving_def)

lemma recovery_ok_simps [simp]: "recovery_ok jobs Up" "recovery_ok jobs Stopping" "recovery_ok jobs Down"
  by (simp_all add: recovery_ok_def)

lemma held_ok_upd:
  "held_ok jobs held \<Longrightarrow> (\<And>p j. held p = Some j \<Longrightarrow> j_id j \<noteq> i) \<Longrightarrow> held_ok (jobs(i \<mapsto> k)) held"
  by (auto simp: held_ok_def)

lemma held_ok_free:
  assumes "held_ok jobs held" "jobs i = Some k" "j_state k \<noteq> JobRunning" "held p = Some j"
  shows "j_id j \<noteq> i"
proof
  assume eq: "j_id j = i"
  have j: "jobs (j_id j) = Some j" "j_state j = JobRunning"
    using assms(1,4) unfolding held_ok_def by blast+
  from j(1) have "j = k" unfolding eq assms(2) by simp
  with j(2) assms(3) show False by simp
qed

lemma held_ok_drop: "held_ok jobs held \<Longrightarrow> held_ok jobs (held(p := None))"
  by (auto simp: held_ok_def)

lemma held_ok_one:
  "held_ok jobs held \<Longrightarrow> held p = Some j \<Longrightarrow> held p' = Some j' \<Longrightarrow> j_id j = j_id j' \<Longrightarrow> p = p' \<and> j = j'"
  unfolding held_ok_def by (metis option.inject)

lemma held_ok_replace:
  assumes "held_ok jobs (held(p := None))" "\<And>p' j'. p' \<noteq> p \<Longrightarrow> held p' = Some j' \<Longrightarrow> j_id j' \<noteq> j_id j"
    and "j_state j = JobRunning" "j_printer j = p"
  shows "held_ok (jobs(j_id j \<mapsto> j)) (held(p \<mapsto> j))"
  using assms by (auto simp: held_ok_def split: if_splits)

lemma ran_upd_subset: "j \<in> ran (jobs(i \<mapsto> k)) \<Longrightarrow> j = k \<or> j \<in> ran jobs"
  by (auto simp: ran_def split: if_splits)

lemma keys_ok_upd:
  "keys_ok now jobs \<Longrightarrow> jobs i = Some k \<Longrightarrow> j_key j = j_key k \<Longrightarrow> j_created j = j_created k \<Longrightarrow>
     keys_ok now (jobs(i \<mapsto> j))"
  by (fastforce simp: keys_ok_def ran_def)

lemma keys_ok_fresh:
  assumes "keys_ok now jobs" and "jobs i = None" and "j_created j = now"
    and "j_key j = [] \<or> (\<forall>old \<in> ran jobs. \<not> live_key (j_key j) now old)"
  shows "keys_ok now (jobs(i \<mapsto> j))"
proof -
  have "now - j_created k > IdempotencyKeyTTL" if "jobs b = Some k" "j_key k = j_key j" "j_key j \<noteq> []" for b k
    using that assms(4) by (auto simp: live_key_def idempotencyKeyExpired_def ran_def)
  then show ?thesis using assms(1-3)
    by (fastforce simp: keys_ok_def ran_def abs_if)
qed

lemma budget_ok_finish:
  "budget_ok m j \<Longrightarrow> j_state j = JobRunning \<Longrightarrow>
   finish_attempt m r now (count_attempt j) = (d, j') \<Longrightarrow> budget_ok m j'"
  using finish_attempt_run_step [of j m r now d j'] by (auto simp: budget_ok_def split: if_splits)

lemma accepted_anew_upd:
  "accepted_anew jobs (jobs(i \<mapsto> k)) x \<longleftrightarrow>
     x = i \<and> (case jobs i of None \<Rightarrow> True | Some old \<Rightarrow> j_state old = JobFailed \<and> j_state k = JobPending)"
  by (auto simp: accepted_anew_def split: option.splits)

lemma calls_okD: "calls_ok jobs held busy calls \<Longrightarrow> jobs i = Some j \<Longrightarrow>
    int (calls i) \<le> j_attempts j + (if j_state j = JobRunning then 1 else 0)"
  by (drule calls_ok_def [THEN iffD1, THEN conjunct1, THEN spec [of _ i]]) (simp add: calls_limit_def)

lemma calls_ok_accepted:
  assumes "calls_ok jobs held busy calls" and "held_ok jobs held" and "0 \<le> j_attempts k"
    and "jobs i = Some k \<or> j_state k = JobPending \<and> (case jobs i of None \<Rightarrow> True | Some old \<Rightarrow> j_state old = JobFailed)"
  shows "calls_ok (jobs(i \<mapsto> k)) held busy (\<lambda>x. if accepted_anew jobs (jobs(i \<mapsto> k)) x then 0 else calls x)"
proof -
  have "\<not> accepted_anew jobs (jobs(i \<mapsto> k)) (j_id j)" if "held p = Some j" for p j
    using assms(2) that by (fastforce simp: accepted_anew_upd held_ok_def split: option.splits)
  moreover have "int (if accepted_anew jobs (jobs(i \<mapsto> k)) i then 0 else calls i) \<le> calls_limit (Some k)"
    using assms(3,4) calls_okD [OF assms(1), of i]
    by (auto simp: accepted_anew_upd calls_limit_def split: option.splits)
  ultimately show ?thesis using assms(1) by (auto simp: calls_ok_def accepted_anew_upd)
qed

lemma calls_ok_claimed:
  assumes "calls_ok jobs held busy calls" and "jobs (j_id j) = Some k" and "j_state k \<noteq> JobRunning"
    and "j_attempts j = j_attempts k" and "j_state j = JobRunning"
  shows "calls_ok (jobs(j_id j \<mapsto> j)) (held(p \<mapsto> j)) busy calls"
proof -
  have "int (calls (j_id j)) \<le> j_attempts j" using calls_okD [OF assms(1,2)] assms(3,4) by simp
  then show ?thesis using assms(1,5) by (auto simp: calls_ok_def calls_limit_def)
qed

lemma calls_ok_drop: "calls_ok jobs held busy calls \<Longrightarrow> calls_ok jobs (held(p := None)) (busy - {p}) calls"
  by (auto simp: calls_ok_def)

lemma calls_ok_called:
  assumes "calls_ok jobs held busy calls" and "held_ok jobs held" and "held p = Some j" and "p \<notin> busy"
  shows "calls_ok jobs held (insert p busy) (calls(j_id j := Suc (calls (j_id j))))"
proof -
  have "jobs (j_id j) = Some j" "j_state j = JobRunning" using assms(2,3) by (auto simp: held_ok_def)
  moreover have "int (calls (j_id j)) \<le> j_attempts j" using assms(1,3,4) unfolding calls_ok_def by blast
  moreover have "j_id k \<noteq> j_id j" if "held q = Some k" "q \<noteq> p" for q k
    using held_ok_one [OF assms(2,3) that(1)] that(2) by auto
  ultimately show ?thesis using assms(1) by (auto simp: calls_ok_def calls_limit_def)
qed

lemma calls_ok_counted:
  assumes "calls_ok jobs held busy calls" and "jobs (j_id j) = Some j" and "j_attempts j' = j_attempts j + 1"
    and "\<And>q k. held q = Some k \<Longrightarrow> q \<noteq> p \<Longrightarrow> j_id k \<noteq> j_id j" and "h = None \<or> h = Some j' \<and> j_id j' = j_id j"
  shows "calls_ok (jobs(j_id j \<mapsto> j')) (held(p := h)) (busy - {p}) calls"
proof -
  have "int (calls (j_id j)) \<le> j_attempts j'"
    using calls_okD [OF assms(1,2)] assms(3) by (auto split: if_splits)
  with assms show ?thesis by (auto simp: calls_ok_def calls_limit_def split: if_splits)
qed

lemma recovery_okD:
  assumes "recovery_ok jobs (Recovering t (j # js))"
  shows "jobs (j_id j) = Some j" "\<forall>k \<in> set js. jobs (j_id k) = Some k \<and> j_id k \<noteq> j_id j" "distinct (map j_id js)"
    "\<forall>i k. jobs i = Some k \<longrightarrow> j_state k = JobRunning \<longrightarrow> k = j \<or> k \<in> set js"
proof -
  from assms have "distinct (map j_id (j # js))" "\<forall>k \<in> set (j # js). jobs (j_id k) = Some k"
    "\<forall>i k. jobs i = Some k \<longrightarrow> j_state k = JobRunning \<longrightarrow> k \<in> set (j # js)"
    unfolding recovery_ok_def by blast+
  then show "jobs (j_id j) = Some j" "\<forall>k \<in> set js. jobs (j_id k) = Some k \<and> j_id k \<noteq> j_id j" "distinct (map j_id js)"
    "\<forall>i k. jobs i = Some k \<longrightarrow> j_state k = JobRunning \<longrightarrow> k = j \<or> k \<in> set js"
    by (simp_all add: image_iff) metis
qed

section \<open>Every step keeps the invariants\<close>

context job_store
begin

lemma submit_ok:
  assumes inv: "invar (sys_store c)" and ok: "sys_ok m (content (sys_store c)) c" and m: "1 \<le> m"
    and "serving c" and "j_attempts j = 0"
    and new: "\<And>i. idr = Inr i \<Longrightarrow> content (sys_store c) i = None \<and> storable (fresh_job i (sys_clock c) j)"
    and run: "st_enqueue_idem ops j (sys_clock c) idr (sys_store c) = (r, s')"
  shows "invar s' \<and> sys_ok m (content s') (c\<lparr>sys_store := s',
    sys_calls := (\<lambda>i. if accepted_anew (content (sys_store c)) (content s') i then 0 else sys_calls c i)\<rparr>)"
proof -
  let ?jobs = "content (sys_store c)"
  have st: "\<forall>i. idr = Inr i \<longrightarrow> storable (fresh_job i (sys_clock c) j)" using new by blast
  have old: "held_ok ?jobs (sys_held c)" "keys_ok (sys_clock c) ?jobs" "\<forall>j \<in> ran ?jobs. budget_ok m j"
    "calls_ok ?jobs (sys_held c) (sys_busy c) (sys_calls c)" using ok by (simp_all add: sys_ok_def)
  have post: "sys_ok m (?jobs(i \<mapsto> k)) (c\<lparr>sys_store := s',
      sys_calls := (\<lambda>x. if accepted_anew ?jobs (?jobs(i \<mapsto> k)) x then 0 else sys_calls c x)\<rparr>)"
    if "held_ok (?jobs(i \<mapsto> k)) (sys_held c)" "keys_ok (sys_clock c) (?jobs(i \<mapsto> k))" "budget_ok m k"
      "?jobs i = Some k \<or> j_state k = JobPending \<and> (case ?jobs i of None \<Rightarrow> True | Some old \<Rightarrow> j_state old = JobFailed)" for i k
    using that old assms(4) calls_ok_accepted [OF old(4,1) _ that(4)]
    by (auto simp: sys_ok_def budget_ok_def recovery_ok_serving dest!: ran_upd_subset)
  consider (err) e where "r = Inl e" | (new) j' where "r = Inr (j', True)" | (old) j' where "r = Inr (j', False)"
    by (metis (full_types) obj_sumE surj_pair)
  then show ?thesis
  proof cases
    case err
    with run have "s' = sys_store c" using idem_err [OF inv] by blast
    moreover have "accepted_anew ?jobs ?jobs = (\<lambda>x. False)" by (auto simp: accepted_anew_def fun_eq_iff split: option.split)
    ultimately show ?thesis using inv ok by (simp add: sys_ok_def serving_def)
  next
    case (new j')
    from idem_fresh [OF inv run [unfolded new] st] obtain i where
      i: "invar s'" "idr = Inr i" "j' = fresh_job i (sys_clock c) j" "content s' = ?jobs(i \<mapsto> j')"
        "j_key j = '''' \<or> (\<forall>old \<in> ran ?jobs. \<not> live_key (j_key j) (sys_clock c) old)" by blast
    have none: "?jobs i = None" using assms(6) i(2) by blast
    have "held_ok (?jobs(i \<mapsto> j')) (sys_held c)"
      using old(1) none by (intro held_ok_upd) (auto simp: held_ok_def)
    moreover have "keys_ok (sys_clock c) (?jobs(i \<mapsto> j'))"
      using old(2) none i(3,5) by (intro keys_ok_fresh) auto
    ultimately show ?thesis
      unfolding i(4) using post i(1,3) none m assms(5) by (simp add: budget_ok_def)
  next
    case (old j')
    from idem_existing [OF inv run [unfolded old]] obtain k where
      o: "invar s'" "k \<in> ran ?jobs" "j' = idem_hit (sys_clock c) k" "content s' = ?jobs(j_id k \<mapsto> j')" by blast
    have at: "?jobs (j_id k) = Some k" using ran_content_id [OF inv o(2)] .
    have kb: "budget_ok m k" using ok o(2) by (simp add: sys_ok_def)
    have "held_ok (?jobs(j_id k \<mapsto> j')) (sys_held c)"
    proof (cases "j_state k = JobFailed")
      case True
      then show ?thesis
        using ok held_ok_free [where jobs = ?jobs, OF _ at] by (intro held_ok_upd) (auto simp: sys_ok_def)
    next
      case False
      with o(3) at ok show ?thesis by (simp add: idem_hit_def sys_ok_def fun_upd_idem)
    qed
    moreover have "keys_ok (sys_clock c) (?jobs(j_id k \<mapsto> j'))"
      using ok at o(3) by (intro keys_ok_upd) (auto simp: sys_ok_def)
    moreover have "budget_ok m j'" using kb o(3) m by (auto simp: budget_ok_def idem_hit_def)
    moreover have "?jobs (j_id k) = Some j' \<or> j_state j' = JobPending \<and> (case ?jobs (j_id k) of None \<Rightarrow> True | Some old \<Rightarrow> j_state old = JobFailed)"
      using at o(3) by (simp add: idem_hit_def)
    ultimately show ?thesis unfolding o(4) using post o(1) by blast
  qed
qed

lemma claim_ok:
  assumes inv: "invar (sys_store c)" and ok: "sys_ok m (content (sys_store c)) c" and "serving c"
    and run: "st_claim ops p (sys_clock c) (sys_store c) = (Inr (Some j), s')"
  shows "invar s' \<and> sys_ok m (content s') (c\<lparr>sys_store := s', sys_held := (sys_held c)(p \<mapsto> j)\<rparr>)"
proof -
  let ?jobs = "content (sys_store c)"
  from claim_some [OF inv run] obtain k where
    k: "invar s'" "?jobs (j_id k) = Some k" "claimable p k" "j = running (sys_clock c) k"
      "content s' = ?jobs(j_id k \<mapsto> j)" by auto
  have ids: "j_id j = j_id k" using k(4) by simp
  have "held_ok (?jobs(j_id k \<mapsto> j)) ((sys_held c)(p \<mapsto> j))"
    using held_ok_replace [of ?jobs "sys_held c" p j] held_ok_free [where jobs = ?jobs, OF _ k(2)] ok k(3,4)
    by (auto simp: sys_ok_def claimable_def intro: held_ok_drop)
  moreover have "keys_ok (sys_clock c) (?jobs(j_id k \<mapsto> j))"
    using ok k by (intro keys_ok_upd) (auto simp: sys_ok_def)
  moreover have "budget_ok m k" using ok k(2) by (auto simp: sys_ok_def ran_def)
  then have "\<forall>j \<in> ran (?jobs(j_id k \<mapsto> j)). budget_ok m j"
    using ok k(3,4) by (auto simp: sys_ok_def budget_ok_def claimable_def dest!: ran_upd_subset)
  moreover have "calls_ok (?jobs(j_id k \<mapsto> j)) ((sys_held c)(p \<mapsto> j)) (sys_busy c) (sys_calls c)"
    using calls_ok_claimed [of ?jobs _ _ _ j k p] k ok by (simp add: sys_ok_def claimable_def)
  ultimately show ?thesis using assms(3) k(1,5) recovery_ok_serving [OF assms(3)] by (simp add: sys_ok_def)
qed

lemma answer_ok:
  assumes inv: "invar (sys_store c)" and ok: "sys_ok m (content (sys_store c)) c" and "serving c"
    and held: "sys_held c p = Some j" and texts: "\<And>e. procErr = Some e \<Longrightarrow> text_ok (error_text e)"
    and f: "finish_attempt m procErr (sys_clock c) (count_attempt j) = (fin, j')"
    and sv: "st_save ops j' (sys_store c) = (None, s')"
  shows "invar s' \<and> sys_ok m (content s')
    (c\<lparr>sys_store := s', sys_busy := sys_busy c - {p}, sys_held := (sys_held c)(p := if fin then None else Some j')\<rparr>)"
proof -
  let ?jobs = "content (sys_store c)" let ?h = "if fin then None else Some j'"
  have j: "?jobs (j_id j) = Some j" "j_state j = JobRunning" "j_printer j = p"
    using ok held by (auto simp: sys_ok_def held_ok_def)
  note fa = finish_attempt_run_step [OF j(2) f]
  then have same: "same_request j j'" by (simp add: run_step_def)
  have "storable j'" using finish_attempt_storable [OF content_storable [OF inv j(1)] _ f] texts by blast
  from save_ok [OF inv this sv] same have s': "invar s'" "content s' = ?jobs(j_id j \<mapsto> j')"
    by (auto simp: same_request_def)
  have others: "j_id k \<noteq> j_id j" if "sys_held c q = Some k" "q \<noteq> p" for q k
    using held_ok_one [of _ "sys_held c" p j q k] ok held that by (auto simp: sys_ok_def)
  have drop: "held_ok (?jobs(j_id j \<mapsto> j')) ((sys_held c)(p := None))"
    using ok others by (intro held_ok_upd [OF held_ok_drop]) (auto simp: sys_ok_def split: if_splits)
  have "held_ok (?jobs(j_id j \<mapsto> j')) ((sys_held c)(p := ?h))"
  proof (cases fin)
    case False
    with fa j have run: "j_state j' = JobRunning" "j_printer j' = p" "j_id j' = j_id j" by auto
    have "held_ok ?jobs ((sys_held c)(p := None))" using ok by (auto simp: sys_ok_def intro: held_ok_drop)
    from held_ok_replace [OF this _ run(1,2)] others run(3) False show ?thesis by auto
  qed (use drop in simp)
  moreover have "keys_ok (sys_clock c) (?jobs(j_id j \<mapsto> j'))"
    using ok same by (intro keys_ok_upd [where jobs = ?jobs, OF _ j(1)]) (simp_all add: sys_ok_def same_request_def)
  moreover have "budget_ok m j'" using budget_ok_finish [OF _ j(2) f] ok j(1) by (auto simp: sys_ok_def ran_def)
  then have "\<forall>k \<in> ran (?jobs(j_id j \<mapsto> j')). budget_ok m k" using ok by (auto simp: sys_ok_def dest!: ran_upd_subset)
  moreover have "calls_ok (?jobs(j_id j \<mapsto> j')) ((sys_held c)(p := ?h)) (sys_busy c - {p}) (sys_calls c)"
    using ok fa same j(1) others by (intro calls_ok_counted) (auto simp: sys_ok_def same_request_def)
  ultimately show ?thesis using assms(3) s' recovery_ok_serving [OF assms(3)] by (simp add: sys_ok_def)
qed

lemma resolve_ok:
  assumes inv: "invar (sys_store c)" and ok: "sys_ok m (content (sys_store c)) c"
    and ph: "sys_phase c = Recovering t (j # js)" and "j_state j = JobRunning"
    and sv: "st_save ops (reconcile_job m t j) (sys_store c) = (None, s')"
  shows "content (sys_store c) (j_id j) = Some j \<and> content s' = (content (sys_store c))(j_id j \<mapsto> reconcile_job m t j)
    \<and> invar s' \<and> sys_ok m (content s') (c\<lparr>sys_store := s', sys_phase := Recovering t js\<rparr>)"
proof -
  let ?jobs = "content (sys_store c)" let ?j = "reconcile_job m t j"
  have "recovery_ok ?jobs (Recovering t (j # js))" using ok ph by (simp add: sys_ok_def)
  note rec = recovery_okD [OF this]
  have none: "sys_held c = Map.empty" using ok ph by (simp add: sys_ok_def serving_def)
  from save_ok [OF inv reconcile_job_storable [OF inv rec(1)] sv] have
    s': "invar s'" "content s' = ?jobs(j_id j \<mapsto> ?j)" by simp_all
  have jb: "budget_ok m j" using ok rec(1) by (auto simp: sys_ok_def ran_def)
  then have "budget_ok m ?j" using assms(4) by (simp add: budget_ok_def)
  then have "\<forall>k \<in> ran (?jobs(j_id j \<mapsto> ?j)). budget_ok m k" using ok by (auto simp: sys_ok_def dest!: ran_upd_subset)
  moreover have "keys_ok (sys_clock c) (?jobs(j_id j \<mapsto> ?j))"
    using ok by (intro keys_ok_upd [where jobs = ?jobs, OF _ rec(1)]) (simp_all add: sys_ok_def)
  moreover have "calls_ok (?jobs(j_id j \<mapsto> ?j)) (sys_held c) (sys_busy c) (sys_calls c)"
  proof -
    have co: "calls_ok ?jobs (sys_held c) (sys_busy c) (sys_calls c)" using ok by (simp add: sys_ok_def)
    from calls_okD [OF this rec(1)] assms(4) have "int (sys_calls c (j_id j)) \<le> calls_limit (Some ?j)"
      by (simp add: calls_limit_def)
    with co none show ?thesis by (simp add: calls_ok_def)
  qed
  moreover have "recovery_ok (?jobs(j_id j \<mapsto> ?j)) (Recovering t js)"
    unfolding recovery_ok_def using rec(2-4) by (auto split: if_splits) (metis content_id [OF inv])
  ultimately show ?thesis using s' rec(1) none by (simp add: sys_ok_def held_ok_def)
qed

lemma sys_step_ok:
  assumes step: "sys_step ops storable text_ok content m c c'" and m: "1 \<le> m"
    and inv: "invar (sys_store c)" and ok: "sys_ok m (content (sys_store c)) c"
  shows "invar (sys_store c') \<and> sys_ok m (content (sys_store c')) c'"
  using step
proof cases
  case (submit j idr r s')
  then show ?thesis using submit_ok [OF inv ok m submit(2-5)] by simp
next
  case (claim p j s')
  then show ?thesis using claim_ok [OF inv ok] by simp
next
  case (call p j)
  then have "calls_ok (content (sys_store c)) (sys_held c) (insert p (sys_busy c))
      ((sys_calls c)(j_id j := Suc (sys_calls c (j_id j))))"
    using ok by (intro calls_ok_called) (auto simp: sys_ok_def)
  with call inv ok show ?thesis by (simp add: sys_ok_def)
next
  case (answer p j procErr fin j' s')
  then show ?thesis using answer_ok [OF inv ok answer(2,3,5-7)] by simp
next
  case (save_failed p j procErr fin j' e s')
  then have "s' = sys_store c" using save_err [OF inv] by blast
  with save_failed inv ok show ?thesis by (auto simp: sys_ok_def intro: held_ok_drop calls_ok_drop)
next
  case (wait_cut p j)
  then have "sys_busy c - {p} = sys_busy c" by simp
  with calls_ok_drop [of _ "sys_held c" "sys_busy c" _ p] wait_cut inv ok show ?thesis
    by (auto simp: sys_ok_def serving_def intro: held_ok_drop)
next
  case crash
  with inv ok show ?thesis by (auto simp: sys_ok_def held_ok_def calls_ok_def)
next
  case (restart js)
  have "recovery_ok (content (sys_store c)) (Recovering (sys_clock c) js)"
    using list_ok [OF inv restart(3)] ran_content_id [OF inv] by (auto simp: recovery_ok_def ran_def)
  with restart inv ok show ?thesis by (auto simp: sys_ok_def serving_def)
next
  case (pass t j js)
  have "recovery_ok (content (sys_store c)) (Recovering t js)"
    using ok pass(2,3) unfolding sys_ok_def recovery_ok_def by auto
  with pass inv ok show ?thesis by (auto simp: sys_ok_def serving_def)
next
  case (resolve t j js s')
  have "invar s' \<and> sys_ok m (content s') (c\<lparr>sys_store := s', sys_phase := Recovering t js\<rparr>)"
    using resolve_ok [OF inv ok resolve(2-4)] by blast
  with resolve show ?thesis by simp
next
  case (resolve_failed t j js e s')
  then have "s' = sys_store c" using save_err [OF inv] by blast
  with resolve_failed inv ok show ?thesis by (auto simp: sys_ok_def serving_def)
qed (use inv ok in \<open>auto simp: sys_ok_def keys_ok_def serving_def\<close>)

lemma reachable_ok:
  assumes "reachable ops storable text_ok content m c0 c" and "1 \<le> m"
    and "invar (sys_store c0)" and "sys_ok m (content (sys_store c0)) c0"
  shows "invar (sys_store c) \<and> sys_ok m (content (sys_store c)) c"
  using assms by (induction rule: reachable.induct) (auto dest: sys_step_ok)

text \<open>When the workers start, no job is left running.\<close>

lemma resume_no_orphans:
  "sys_ok m (content (sys_store c)) c \<Longrightarrow> sys_phase c = Recovering t [] \<Longrightarrow> content (sys_store c) i = Some j \<Longrightarrow>
   j_state j \<noteq> JobRunning"
  by (auto simp: sys_ok_def recovery_ok_def)

end

section \<open>Properties\<close>

text \<open>
  The daemon starts over a store another run left: jobs within the budget, keys apart, nothing held, and no call
  counted yet.
\<close>

definition initial :: "int \<Rightarrow> (string \<rightharpoonup> job) \<Rightarrow> 's qsys \<Rightarrow> bool" where
  "initial m jobs c \<longleftrightarrow> sys_phase c = Down \<and> sys_held c = Map.empty \<and> (\<forall>i. sys_calls c i = 0)
     \<and> (\<forall>j \<in> ran jobs. budget_ok m j) \<and> keys_ok (sys_clock c) jobs"

lemma initial_ok: "initial m jobs c \<Longrightarrow> sys_ok m jobs c"
  by (auto simp: initial_def sys_ok_def held_ok_def calls_ok_def calls_limit_def budget_ok_def ran_def split: option.split)

text \<open>
  (C7) No job is printed by two workers: however the workers and handlers over the persistent store interleave with crashes, with
  restarts, and with further crashes or store errors in the middle of a restart's \<open>Reconcile\<close>, the jobs two workers hold are different,
  each worker holds a job of its own printer, and the store has that job running exactly as the worker holds it, so
  a save of a worker never overwrites a newer version; and no worker holds a job unless the recovery is complete.
\<close>

theorem no_double_printing:
  assumes "reachable (bolt_ops db cd) (bolt_storable cd) valid_string (bolt_content db cd) m c0 c"
    and "1 \<le> m" and "bolt_invar db cd (sys_store c0)"
    and "initial m (bolt_content db cd (sys_store c0)) c0"
  shows "\<forall>p j. sys_held c p = Some j \<longrightarrow>
           bolt_content db cd (sys_store c) (j_id j) = Some j \<and> j_state j = JobRunning \<and> j_printer j = p
           \<and> (\<forall>p' j'. sys_held c p' = Some j' \<longrightarrow> j_id j' = j_id j \<longrightarrow> p' = p) \<and> serving c"
proof -
  from bolt.reachable_ok [OF assms(1-3) initial_ok [OF assms(4)]]
  have ok: "held_ok (bolt_content db cd (sys_store c)) (sys_held c)" "\<not> serving c \<longrightarrow> sys_held c = Map.empty"
    by (simp_all add: sys_ok_def)
  show ?thesis
  proof (intro allI impI)
    fix p j assume h: "sys_held c p = Some j"
    then have "serving c" using ok(2) by auto
    with h ok(1) held_ok_one [OF ok(1) h]
    show "bolt_content db cd (sys_store c) (j_id j) = Some j \<and> j_state j = JobRunning \<and> j_printer j = p
           \<and> (\<forall>p' j'. sys_held c p' = Some j' \<longrightarrow> j_id j' = j_id j \<longrightarrow> p' = p) \<and> serving c"
      unfolding held_ok_def by metis
  qed
qed

text \<open>
  (C8) The attempt budget over all crashes and restarts: counted from the submission that accepted a job (its
  creation, or the resubmission that made the failed job pending again), the processor is called for the job at most as often as the
  budget, a call that a crash or a store error cut off included; the stored counter stays within the budget, below it
  for a pending or running job, and misses at most the one call whose end has not reached the store.
\<close>

theorem attempt_budget:
  assumes "reachable (bolt_ops db cd) (bolt_storable cd) valid_string (bolt_content db cd) m c0 c"
    and "1 \<le> m" and "bolt_invar db cd (sys_store c0)"
    and "initial m (bolt_content db cd (sys_store c0)) c0"
  shows "int (sys_calls c i) \<le> m
    \<and> (case bolt_content db cd (sys_store c) i of None \<Rightarrow> sys_calls c i = 0
       | Some j \<Rightarrow> 0 \<le> j_attempts j \<and> j_attempts j \<le> m
           \<and> (j_state j = JobPending \<or> j_state j = JobRunning \<longrightarrow> j_attempts j < m)
           \<and> int (sys_calls c i) \<le> j_attempts j + (if j_state j = JobRunning then 1 else 0))"
proof -
  from bolt.reachable_ok [OF assms(1-3) initial_ok [OF assms(4)]]
  have ok: "\<forall>j \<in> ran (bolt_content db cd (sys_store c)). budget_ok m j"
    "int (sys_calls c i) \<le> calls_limit (bolt_content db cd (sys_store c) i)"
    by (simp_all add: sys_ok_def calls_ok_def)
  show ?thesis
  proof (cases "bolt_content db cd (sys_store c) i")
    case None
    with ok(2) assms(2) show ?thesis by (simp add: calls_limit_def)
  next
    case (Some j)
    with ok(1) have "budget_ok m j" by (auto simp: ran_def)
    with ok(2) Some show ?thesis by (auto simp: calls_limit_def budget_ok_def split: if_splits)
  qed
qed

text \<open>
  (C11) At most one job per live idempotency key: two different jobs of the store under the same
  non-empty key are never both live, so a retried submission has one job to find.
\<close>

theorem one_live_job_per_key:
  assumes "reachable (bolt_ops db cd) (bolt_storable cd) valid_string (bolt_content db cd) m c0 c"
    and "1 \<le> m" and "bolt_invar db cd (sys_store c0)"
    and "initial m (bolt_content db cd (sys_store c0)) c0"
    and "bolt_content db cd (sys_store c) a = Some j" and "bolt_content db cd (sys_store c) b = Some k"
    and "key \<noteq> []" and "live_key key (sys_clock c) j" and "live_key key (sys_clock c) k"
  shows "a = b"
proof (rule ccontr)
  assume "a \<noteq> b"
  then have "\<bar>j_created j - j_created k\<bar> > IdempotencyKeyTTL \<and> j_created j \<le> sys_clock c \<and> j_created k \<le> sys_clock c"
    using bolt.reachable_ok [OF assms(1-3) initial_ok [OF assms(4)]] assms(5-9)
    by (auto simp: sys_ok_def keys_ok_def live_key_def ran_def)
  with assms(8,9) show False by (auto simp: live_key_def idempotencyKeyExpired_def)
qed

text \<open>A run to witness the three: restart over an empty store, one submission, one claim.\<close>

definition run0 :: "(string \<times> job) list qsys" where
  "run0 = \<lparr>sys_store = [], sys_held = Map.empty, sys_busy = {}, sys_calls = (\<lambda>i. 0), sys_clock = 0, sys_phase = Down\<rparr>"

definition run_job :: job where
  "run_job = running 0 (fresh_job (j_id sample_job) 0 sample_job)"

definition run3 :: "(string \<times> job) list qsys" where
  "run3 = \<lparr>sys_store = [(j_id sample_job, run_job), (j_id sample_job, fresh_job (j_id sample_job) 0 sample_job)],
     sys_held = [j_printer sample_job \<mapsto> run_job], sys_busy = {}, sys_calls = (\<lambda>i. 0), sys_clock = 0, sys_phase = Up\<rparr>"

abbreviation sample_reachable :: "(string \<times> job) list qsys \<Rightarrow> bool" where
  "sample_reachable \<equiv> reachable (bolt_ops list_bbolt plain_codec) (bolt_storable plain_codec) valid_string
     (bolt_content list_bbolt plain_codec) 3 run0"

text \<open>The example goes one way: the sample job comes in, is claimed, and its processor is called.\<close>

definition run5 :: "(string \<times> job) list qsys" where
  "run5 = run3\<lparr>sys_busy := {j_printer sample_job}, sys_calls := (\<lambda>i. 0)(j_id sample_job := 1)\<rparr>"

abbreviation sample_step :: "(string \<times> job) list qsys \<Rightarrow> (string \<times> job) list qsys \<Rightarrow> bool" where
  "sample_step \<equiv> sys_step (bolt_ops list_bbolt plain_codec) (bolt_storable plain_codec) valid_string
     (bolt_content list_bbolt plain_codec) 3"

lemma run3_reachable: "sample_reachable run3"
proof -
  let ?j = "fresh_job (j_id sample_job) 0 sample_job"
  let ?r = "run0\<lparr>sys_phase := Recovering 0 []\<rparr>" let ?c1 = "run0\<lparr>sys_phase := Up\<rparr>"
  let ?c2 = "?c1\<lparr>sys_store := [(j_id sample_job, ?j)]\<rparr>"
  have st: "bolt_storable plain_codec ?j" using sample_storable by (simp add: bolt_storable_def fresh_job_def)
  have "sample_step run0 (run0\<lparr>sys_phase := Recovering (sys_clock run0) []\<rparr>)"
    by (rule sys_step.restart)
      (simp_all add: run0_def bolt_list_def db_view_def list_bbolt_def list_bucket_def)
  then have "sample_step run0 ?r" by (simp add: run0_def)
  moreover have "sample_step ?r (?r\<lparr>sys_phase := Up\<rparr>)" by (rule sys_step.resume) simp
  then have "sample_step ?r ?c1" by simp
  moreover have "sample_step ?c1 (?c1\<lparr>sys_store := [(j_id sample_job, ?j)], sys_calls := (\<lambda>i. if accepted_anew
      (bolt_content list_bbolt plain_codec (sys_store ?c1)) (bolt_content list_bbolt plain_codec [(j_id sample_job, ?j)]) i
      then 0 else sys_calls ?c1 i)\<rparr>)"
    by (rule sys_step.submit [where idr = "Inr (j_id sample_job)" and j = sample_job and r = "Inr (?j, True)"])
      (use st in \<open>simp_all add: run0_def serving_def bolt_content_def bolt_enqueue_idem_def db_update_def bolt_idem_tx_def
        bolt_find_key_def list_bbolt_def list_bucket_def plain_codec_def bolt_put_job_def fresh_job_def Let_def\<close>)
  then have "sample_step ?c1 ?c2" by (simp add: run0_def cong: if_cong)
  moreover have "sample_step ?c2
      (?c2\<lparr>sys_store := sys_store run3, sys_held := (sys_held ?c2)(j_printer sample_job \<mapsto> run_job)\<rparr>)"
    by (rule sys_step.claim)
      (simp_all add: serving_def run0_def run3_def run_job_def bolt_claim_def db_update_def bolt_claim_tx_def
        list_bbolt_def list_bucket_def plain_codec_def claimable_def bolt_put_job_def running_def Let_def fresh_job_def)
  then have "sample_step ?c2 run3" by (simp add: run0_def run3_def)
  ultimately show ?thesis by (meson reachable.intros)
qed

lemma run5_reachable: "sample_reachable run5"
proof -
  have "sample_step run3 (run3\<lparr>sys_busy := insert (j_printer sample_job) (sys_busy run3),
      sys_calls := (sys_calls run3)(j_id run_job := Suc (sys_calls run3 (j_id run_job)))\<rparr>)"
    by (rule sys_step.call) (simp_all add: run3_def serving_def)
  then have "sample_step run3 run5" by (simp add: run5_def run3_def run_job_def)
  with run3_reachable show ?thesis by (rule reachable.more)
qed

lemma run0_ok:
  "bolt_invar list_bbolt plain_codec (sys_store run0)"
  "initial 3 (bolt_content list_bbolt plain_codec (sys_store run0)) run0"
  by (rule bolt_invar_list_bucket)
     (simp_all add: run0_def initial_def keys_ok_def bolt_content_def list_bbolt_def list_bucket_def ran_def)

lemma run3_job: "bolt_content list_bbolt plain_codec (sys_store run3) (j_id sample_job) = Some run_job"
  by (simp add: run3_def bolt_content_def list_bbolt_def map_of_list_bucket plain_codec_def decoded_def)

lemma run_job_live: "live_key (j_key sample_job) (sys_clock run3) run_job"
  by (simp add: live_key_def idempotencyKeyExpired_def IdempotencyKeyTTL_def run_job_def run3_def)

lemma run_job_key: "j_key sample_job \<noteq> []"
  by (simp add: sample_job_def)

theorem no_double_printing_witness:
  "sys_held run3 (j_printer sample_job) = Some run_job
   \<and> bolt_content list_bbolt plain_codec (sys_store run3) (j_id run_job) = Some run_job"
  using no_double_printing [OF run3_reachable _ run0_ok, rule_format, of "j_printer sample_job" run_job]
  by (simp add: run3_def)

theorem attempt_budget_witness: "sys_calls run5 (j_id sample_job) = 1 \<and> int (sys_calls run5 (j_id sample_job)) \<le> 3"
  using attempt_budget [OF run5_reachable _ run0_ok, of "j_id sample_job"] by (simp add: run5_def)

theorem one_live_job_per_key_witness:
  "{b. bolt_content list_bbolt plain_codec (sys_store run3) b = Some run_job} = {j_id sample_job}"
proof -
  have "b = j_id sample_job" if "bolt_content list_bbolt plain_codec (sys_store run3) b = Some run_job" for b
    by (rule one_live_job_per_key [OF run3_reachable _ run0_ok that run3_job run_job_key run_job_live run_job_live])
      simp
  then have "{b. bolt_content list_bbolt plain_codec (sys_store run3) b = Some run_job} \<subseteq> {j_id sample_job}"
    by blast
  with run3_job show ?thesis by blast
qed

text \<open>
  \<open>Cancel\<close> is not atomic: when a worker claims the job between the read and the write, the
  cancellation succeeds on a job that is being printed, and the worker then overwrites it.
\<close>

lemma cancel_races_with_claim:
  "\<exists>seen cancelled held s1 s2 s3.
     mem_get (j_id sample_job) [(j_id sample_job, sample_job)] = Inr seen
   \<and> mem_claim (j_printer sample_job) 5 [(j_id sample_job, sample_job)] = (Inr (Some held), s1)
   \<and> cancel_check (j_id sample_job) 6 seen = Inr cancelled \<and> mem_save cancelled s1 = (None, s2)
   \<and> map_of s2 (j_id sample_job) = Some cancelled \<and> j_state cancelled = JobCancelled
   \<and> j_state held = JobRunning
   \<and> mem_save (snd (finish_attempt 3 None 7 held)) s2 = (None, s3)
   \<and> map_option j_state (map_of s3 (j_id sample_job)) = Some JobDone"
  by (simp add: mem_get_def mem_claim_def claimable_def cancel_check_def mem_save_def finish_attempt_def sample_job_def Let_def)

end
