(* ===== verification/Spool.thy ===== *)
theory Spool
  imports QueueSystem
begin

text \<open>
  What the queue promises, as an abstract machine: a spool of orders.  Every step of the queue system, with
  its workers, handlers, crashes and restarts (complete, cut off by a crash, or stopped by a store error) over any store that
  keeps the \<open>Store\<close> contract, is a step of the spool or changes nothing there; what holds of every run of the spool
  therefore holds of the queue.
\<close>

section \<open>Simulation\<close>

text \<open>A machine, the machine it implements, the view that relates them, and an invariant the relation needs.\<close>

locale simulation =
  fixes step :: "'c \<Rightarrow> 'c \<Rightarrow> bool" and spec :: "'a \<Rightarrow> 'a \<Rightarrow> bool" and view :: "'c \<Rightarrow> 'a" and good :: "'c \<Rightarrow> bool"
  assumes keeps: "good c \<Longrightarrow> step c c' \<Longrightarrow> good c'"
    and simulates: "good c \<Longrightarrow> step c c' \<Longrightarrow> view c' = view c \<or> spec (view c) (view c')"
begin

lemma run_good: "step\<^sup>*\<^sup>* c c' \<Longrightarrow> good c \<Longrightarrow> good c'"
  by (induction rule: rtranclp_induct) (auto intro: keeps)

lemma run_simulated: "step\<^sup>*\<^sup>* c c' \<Longrightarrow> good c \<Longrightarrow> spec\<^sup>*\<^sup>* (view c) (view c')"
proof (induction rule: rtranclp_induct)
  case (step d e)
  with simulates [OF run_good [OF step(1,4)] step(2)] show ?case by (auto intro: rtranclp.rtrancl_into_rtrancl)
qed simp

text \<open>What every step of the specification keeps, every run of the machine keeps.\<close>

lemma transfer:
  assumes "step\<^sup>*\<^sup>* c c'" and "good c" and "\<forall>a b. P a \<longrightarrow> spec a b \<longrightarrow> P b" and "P (view c)"
  shows "P (view c')"
  using run_simulated [OF assms(1,2)] assms(4) by (induction rule: rtranclp_induct) (use assms(3) in blast)+

end

section \<open>The spool\<close>

datatype order_state = Queued | Printing | Printed | Rejected | Withdrawn

record order =
  o_printer :: string
  o_receipt :: receipt
  o_key :: string
  o_placed :: time
  o_state :: order_state
  o_tries :: int

type_synonym spool = "string \<rightharpoonup> order"

text \<open>After a crash, the try that was cut off counts.\<close>

definition put_back :: "int \<Rightarrow> order \<Rightarrow> order" where
  "put_back m x = x\<lparr>o_state := (if o_tries x + 1 < m then Queued else Rejected), o_tries := o_tries x + 1\<rparr>"

text \<open>
  The steps of a spool under the budget \<open>m\<close>.  An order is placed under a free number, with a key only when
  no order of the last day has it; a rejected order can be placed again; a printer takes its queued order with the lowest
  number; a try ends the order or is repeated within the budget, or is put back, one order at a time.
\<close>

inductive spool_step :: "int \<Rightarrow> spool \<Rightarrow> spool \<Rightarrow> bool" for m where
  placed: "A i = None \<Longrightarrow> o_state x = Queued \<Longrightarrow> o_tries x = 0 \<Longrightarrow>
    o_key x \<noteq> '''' \<longrightarrow> (\<forall>y \<in> ran A. o_key y = o_key x \<longrightarrow> o_placed x - o_placed y > IdempotencyKeyTTL) \<Longrightarrow>
    spool_step m A (A(i \<mapsto> x))"
| placed_again: "A i = Some x \<Longrightarrow> o_state x = Rejected \<Longrightarrow> o_key x \<noteq> '''' \<Longrightarrow>
    spool_step m A (A(i \<mapsto> x\<lparr>o_state := Queued, o_tries := 0\<rparr>))"
| taken: "A i = Some x \<Longrightarrow> o_state x = Queued \<Longrightarrow>
    (\<forall>k y. A k = Some y \<longrightarrow> o_printer y = o_printer x \<longrightarrow> o_state y = Queued \<longrightarrow> i \<le> k) \<Longrightarrow>
    spool_step m A (A(i \<mapsto> x\<lparr>o_state := Printing\<rparr>))"
| attempted: "A i = Some x \<Longrightarrow> o_state x = Printing \<Longrightarrow> o_tries x < m \<Longrightarrow>
    st \<in> {Printed, Rejected} \<or> st = Printing \<and> o_tries x + 1 < m \<Longrightarrow>
    spool_step m A (A(i \<mapsto> x\<lparr>o_state := st, o_tries := o_tries x + 1\<rparr>))"
| recovered: "A i = Some x \<Longrightarrow> o_state x = Printing \<Longrightarrow> spool_step m A (A(i \<mapsto> put_back m x))"

inductive_cases spool_stepE: "spool_step m A B"

text \<open>An order keeps its number and its request for ever, and a printed or withdrawn one is final.\<close>

definition same_order :: "order \<Rightarrow> order \<Rightarrow> bool" where
  "same_order x y \<longleftrightarrow> o_printer x = o_printer y \<and> o_receipt x = o_receipt y \<and> o_key x = o_key y \<and> o_placed x = o_placed y"

definition outlives :: "spool \<Rightarrow> string \<Rightarrow> order \<Rightarrow> bool" where
  "outlives A i x \<longleftrightarrow> (\<exists>y. A i = Some y \<and> same_order x y \<and> (o_state x \<in> {Printed, Withdrawn} \<longrightarrow> y = x))"

lemma spool_step_outlives: "outlives A i x \<Longrightarrow> spool_step m A B \<Longrightarrow> outlives B i x"
  by (erule spool_stepE) (auto simp: outlives_def same_order_def put_back_def)

section \<open>The queue is a spool\<close>

fun order_state_of :: "job_state \<Rightarrow> order_state" where
  "order_state_of JobPending = Queued"
| "order_state_of JobRunning = Printing"
| "order_state_of JobDone = Printed"
| "order_state_of JobFailed = Rejected"
| "order_state_of JobCancelled = Withdrawn"

definition order_of :: "job \<Rightarrow> order" where
  "order_of j = \<lparr>o_printer = j_printer j, o_receipt = j_receipt j, o_key = j_key j, o_placed = j_created j,
     o_state = order_state_of (j_state j), o_tries = j_attempts j\<rparr>"

definition spool_of :: "(string \<rightharpoonup> job) \<Rightarrow> spool" where
  "spool_of jobs = (\<lambda>i. map_option order_of (jobs i))"

lemma order_of_simps [simp]:
  "o_printer (order_of j) = j_printer j" "o_receipt (order_of j) = j_receipt j" "o_key (order_of j) = j_key j"
  "o_placed (order_of j) = j_created j" "o_state (order_of j) = order_state_of (j_state j)"
  "o_tries (order_of j) = j_attempts j"
  by (simp_all add: order_of_def)

lemma order_state_of_eq [simp]:
  "order_state_of s = Queued \<longleftrightarrow> s = JobPending" "order_state_of s = Printing \<longleftrightarrow> s = JobRunning"
  "order_state_of s = Printed \<longleftrightarrow> s = JobDone" "order_state_of s = Rejected \<longleftrightarrow> s = JobFailed"
  "order_state_of s = Withdrawn \<longleftrightarrow> s = JobCancelled"
  by (cases s; simp)+

lemma spool_of_upd [simp]: "spool_of (jobs(i \<mapsto> j)) = (spool_of jobs)(i \<mapsto> order_of j)"
  by (simp add: spool_of_def fun_eq_iff)

lemma spool_of_eq: "spool_of jobs i = Some x \<longleftrightarrow> (\<exists>j. jobs i = Some j \<and> x = order_of j)"
  by (auto simp: spool_of_def)

lemma order_of_reconciled: "order_of (reconcile_job m t j) = put_back m (order_of j)"
  by (simp add: order_of_def put_back_def)

lemma order_of_reactivated: "order_of (reactivated t j) = (order_of j)\<lparr>o_state := Queued, o_tries := 0\<rparr>"
  by (simp add: order_of_def)

lemma order_of_running: "order_of (running t j) = (order_of j)\<lparr>o_state := Printing\<rparr>"
  by (simp add: order_of_def)

lemma order_of_run_step:
  "run_step m j j' \<Longrightarrow> order_of j' = (order_of j)\<lparr>o_state := order_state_of (j_state j'), o_tries := j_attempts j'\<rparr>"
  by (simp add: order_of_def run_step_def same_request_def)

context job_store
begin

lemma sys_step_spool:
  assumes step: "sys_step ops storable text_ok content m c c'"
    and inv: "invar (sys_store c)" and ok: "sys_ok m (content (sys_store c)) c"
  shows "spool_of (content (sys_store c')) = spool_of (content (sys_store c))
    \<or> spool_step m (spool_of (content (sys_store c))) (spool_of (content (sys_store c')))"
proof -
  let ?A = "spool_of (content (sys_store c))"
  from step show ?thesis
  proof cases
    case (submit j idr r s')
    have st: "\<forall>i. idr = Inr i \<longrightarrow> storable (fresh_job i (sys_clock c) j)" using submit by blast
    consider (err) e where "r = Inl e" | (new) j' where "r = Inr (j', True)" | (old) j' where "r = Inr (j', False)"
      by (metis (full_types) obj_sumE surj_pair)
    then show ?thesis
    proof cases
      case err
      with submit have "s' = sys_store c" using idem_err [OF inv] by blast
      with submit show ?thesis by simp
    next
      case new
      with submit idem_fresh [OF inv _ st] obtain i where
        i: "idr = Inr i" "j' = fresh_job i (sys_clock c) j" "content s' = (content (sys_store c))(i \<mapsto> j')"
          "j_key j = '''' \<or> (\<forall>old \<in> ran (content (sys_store c)). \<not> live_key (j_key j) (sys_clock c) old)" by blast
      have "spool_step m ?A (?A(i \<mapsto> order_of j'))"
        using submit i by (intro spool_step.placed)
          (auto simp: spool_of_def ran_def live_key_def idempotencyKeyExpired_def)
      with submit i(3) show ?thesis by simp
    next
      case old
      with submit idem_existing [OF inv] obtain o1 where
        o: "j_key j \<noteq> ''''" "o1 \<in> ran (content (sys_store c))" "live_key (j_key j) (sys_clock c) o1" "j' = idem_hit (sys_clock c) o1"
          "content s' = (content (sys_store c))(j_id o1 \<mapsto> j')" by blast
      have at: "?A (j_id o1) = Some (order_of o1)"
        using ran_content_id [OF inv o(2)] by (simp add: spool_of_def)
      show ?thesis
      proof (cases "j_state o1 = JobFailed")
        case True
        with spool_step.placed_again [where A = ?A and m = m, OF at] o submit show ?thesis
          by (simp add: idem_hit_def order_of_reactivated live_key_def)
      next
        case False
        with o submit at show ?thesis by (simp add: idem_hit_def fun_upd_idem)
      qed
    qed
  next
    case (claim p j s')
    from claim_some [OF inv claim(4)] obtain k where
      k: "content (sys_store c) (j_id k) = Some k" "claimable p k" "j = running (sys_clock c) k"
        "\<forall>q \<in> ran (content (sys_store c)). claimable p q \<longrightarrow> j_id k \<le> j_id q"
        "content s' = (content (sys_store c))(j_id k \<mapsto> j)" by auto
    have at: "?A (j_id k) = Some (order_of k)" using k(1) by (simp add: spool_of_def)
    have low: "\<forall>i y. ?A i = Some y \<longrightarrow> o_printer y = o_printer (order_of k)
        \<longrightarrow> o_state y = Queued \<longrightarrow> j_id k \<le> i"
      using k(2,4) content_id [OF inv] by (fastforce simp: spool_of_eq claimable_def ran_def)
    from spool_step.taken [where A = ?A and m = m, OF at _ low] k claim show ?thesis by (simp add: order_of_running claimable_def)
  next
    case (answer p j procErr fin j' s')
    from ok answer(3) have j: "content (sys_store c) (j_id j) = Some j" "j_state j = JobRunning"
      by (auto simp: sys_ok_def held_ok_def)
    note f = finish_attempt_run_step [OF j(2) answer(6)]
    then have run: "run_step m j j'" "j_attempts j' = j_attempts j + 1" by blast+
    have st: "order_state_of (j_state j') \<in> {Printed, Rejected} \<or> order_state_of (j_state j') = Printing \<and> j_attempts j + 1 < m"
      using f j(2) by (cases fin) (auto split: if_splits)
    have "storable j'"
      using finish_attempt_storable [OF content_storable [OF inv j(1)] _ answer(6)] answer(5) by blast
    from save_ok [OF inv this answer(7)] run_step_id [OF run(1)] have
      s': "content s' = (content (sys_store c))(j_id j \<mapsto> j')" by simp
    have at: "?A (j_id j) = Some (order_of j)" using j(1) by (simp add: spool_of_def)
    have "j_attempts j < m" using ok j by (auto simp: sys_ok_def budget_ok_def ran_def)
    with spool_step.attempted [where A = ?A and m = m and st = "order_state_of (j_state j')", OF at] st j(2) s' run order_of_run_step [OF run(1)] answer
    show ?thesis by simp
  next
    case (save_failed p j procErr fin j' e s')
    then have "s' = sys_store c" using save_err [OF inv] by blast
    with save_failed show ?thesis by simp
  next
    case (resolve t j js s')
    from resolve_ok [OF inv ok resolve(2-4)] have r: "content (sys_store c) (j_id j) = Some j"
      "content s' = (content (sys_store c))(j_id j \<mapsto> reconcile_job m t j)" by blast+
    have "?A (j_id j) = Some (order_of j)" using r(1) by (simp add: spool_of_def)
    from spool_step.recovered [where A = ?A and m = m, OF this] resolve r(2) show ?thesis by (simp add: order_of_reconciled)
  next
    case (resolve_failed t j js e s')
    then have "s' = sys_store c" using save_err [OF inv] by blast
    with resolve_failed show ?thesis by simp
  qed simp_all
qed

lemma reachable_run: "reachable ops storable text_ok content m c0 c \<longleftrightarrow> (sys_step ops storable text_ok content m)\<^sup>*\<^sup>* c0 c"
proof
  show "reachable ops storable text_ok content m c0 c \<Longrightarrow> (sys_step ops storable text_ok content m)\<^sup>*\<^sup>* c0 c"
    by (induction rule: reachable.induct) (auto intro: rtranclp.rtrancl_into_rtrancl)
  show "(sys_step ops storable text_ok content m)\<^sup>*\<^sup>* c0 c \<Longrightarrow> reachable ops storable text_ok content m c0 c"
    by (induction rule: rtranclp_induct) (auto intro: reachable.intros)
qed

text \<open>Any store that keeps the contract makes the queue system an implementation of the spool.\<close>

abbreviation spool_view :: "'s qsys \<Rightarrow> spool" where
  "spool_view c \<equiv> spool_of (content (sys_store c))"

abbreviation sound :: "int \<Rightarrow> 's qsys \<Rightarrow> bool" where
  "sound m c \<equiv> 1 \<le> m \<and> invar (sys_store c) \<and> sys_ok m (content (sys_store c)) c"

lemma queue_simulation:
  "simulation (sys_step ops storable text_ok content m) (spool_step m) spool_view (sound m)"
  using sys_step_ok sys_step_spool by unfold_locales blast+

end

interpretation boltsys: simulation "sys_step (bolt_ops db cd) (bolt_storable cd) valid_string (bolt_content db cd) m"
  "spool_step m" "\<lambda>c. spool_of (bolt_content db cd (sys_store c))"
  "\<lambda>c. 1 \<le> m \<and> bolt_invar db cd (sys_store c) \<and> sys_ok m (bolt_content db cd (sys_store c)) c" for db cd m
  by (rule bolt.queue_simulation)

interpretation memsys: simulation "sys_step mem_ops (\<lambda>_. True) (\<lambda>_. True) map_of m"
  "spool_step m" "\<lambda>c. spool_of (map_of (sys_store c))"
  "\<lambda>c. 1 \<le> m \<and> mem_invar (sys_store c) \<and> sys_ok m (map_of (sys_store c)) c" for m
  by (rule mem.queue_simulation)

section \<open>Properties\<close>

text \<open>
  (C5) The queue implements a spool: every run of the daemon's queue over the persistent store, whatever the
  interleaving of workers, handlers, crashes and restarts, with crashes and store errors in the middle of a
  restart's \<open>Reconcile\<close>, is a run of the abstract spool between the orders its jobs stand for.
\<close>

theorem queue_refines_spool:
  assumes "reachable (bolt_ops db cd) (bolt_storable cd) valid_string (bolt_content db cd) m c0 c"
    and "1 \<le> m" and "bolt_invar db cd (sys_store c0)"
    and "initial m (bolt_content db cd (sys_store c0)) c0"
  shows "(spool_step m)\<^sup>*\<^sup>* (spool_of (bolt_content db cd (sys_store c0))) (spool_of (bolt_content db cd (sys_store c)))"
  by (rule boltsys.run_simulated [OF assms(1) [unfolded bolt.reachable_run]]) (simp add: assms(2,3) initial_ok [OF assms(4)])

theorem queue_refines_spool_witness:
  "(spool_step 3)\<^sup>*\<^sup>* Map.empty [j_id sample_job \<mapsto> order_of run_job]"
proof -
  have "spool_of (bolt_content list_bbolt plain_codec (sys_store run0)) = Map.empty"
    by (simp add: spool_of_def bolt_content_def list_bbolt_def map_of_list_bucket run0_def fun_eq_iff)
  moreover have "spool_of (bolt_content list_bbolt plain_codec (sys_store run3)) = [j_id sample_job \<mapsto> order_of run_job]"
    by (auto simp: spool_of_def run3_def bolt_content_def list_bbolt_def map_of_list_bucket plain_codec_def decoded_def fun_eq_iff)
  ultimately show ?thesis using queue_refines_spool [OF run3_reachable _ run0_ok] by simp
qed

text \<open>
  (C4) An accepted job is never lost and a printed one never printed again: once a job is in the persistent
  store, every later state of the daemon, after any crashes and restarts, also ones cut off in the middle of
  \<open>Reconcile\<close>, has it with the same request; once it is done, it stays done with the same count of attempts, and no worker ever holds it again.
\<close>

theorem accepted_jobs_kept:
  assumes "reachable (bolt_ops db cd) (bolt_storable cd) valid_string (bolt_content db cd) m c0 c1"
    and "1 \<le> m" and "bolt_invar db cd (sys_store c0)"
    and "initial m (bolt_content db cd (sys_store c0)) c0"
    and "reachable (bolt_ops db cd) (bolt_storable cd) valid_string (bolt_content db cd) m c1 c2"
    and "bolt_content db cd (sys_store c1) i = Some j"
  shows "\<exists>k. bolt_content db cd (sys_store c2) i = Some k \<and> same_request j k
    \<and> (j_state j = JobDone \<longrightarrow> j_state k = JobDone \<and> j_attempts k = j_attempts j
         \<and> (\<forall>p h. sys_held c2 p = Some h \<longrightarrow> j_id h \<noteq> i))"
proof -
  note ok1 = bolt.reachable_ok [OF assms(1-3) initial_ok [OF assms(4)]]
  then have ok2: "bolt_invar db cd (sys_store c2)" "sys_ok m (bolt_content db cd (sys_store c2)) c2"
    using bolt.reachable_ok [OF assms(5,2)] by blast+
  have "outlives (spool_of (bolt_content db cd (sys_store c1))) i (order_of j)"
    using assms(6) by (auto simp: outlives_def same_order_def spool_of_eq)
  from boltsys.transfer [where P = "\<lambda>A. outlives A i (order_of j)", OF assms(5) [unfolded bolt.reachable_run] _ _ this]
  have "outlives (spool_of (bolt_content db cd (sys_store c2))) i (order_of j)"
    using ok1 assms(2) spool_step_outlives by blast
  then obtain k where k: "bolt_content db cd (sys_store c2) i = Some k" "same_order (order_of j) (order_of k)"
    "j_state j = JobDone \<longrightarrow> order_of k = order_of j" by (auto simp: outlives_def spool_of_eq)
  have ids: "j_id j = i" "j_id k = i"
    using bolt.content_id [OF _ assms(6)] bolt.content_id [OF ok2(1) k(1)] ok1 by simp_all
  have "j_state k = JobDone \<and> j_attempts k = j_attempts j" if "j_state j = JobDone"
  proof -
    have "order_of k = order_of j" using k(3) that by blast
    then have "o_state (order_of k) = o_state (order_of j)" "o_tries (order_of k) = o_tries (order_of j)"
      by (rule arg_cong)+
    with that show ?thesis by simp
  qed
  moreover have "j_id h \<noteq> i" if "j_state k = JobDone" "sys_held c2 p = Some h" for p h
    using ok2(2) that k(1) by (auto simp: sys_ok_def held_ok_def)
  ultimately show ?thesis using k ids by (auto simp: same_order_def same_request_def)
qed

text \<open>To witness it, the run goes on: the job is done, the daemon crashes and starts again.\<close>

definition done_job :: job where
  "done_job = run_job\<lparr>j_attempts := 1, j_state := JobDone, j_updated := 0\<rparr>"

definition run4 :: "(string \<times> job) list qsys" where
  "run4 = run5\<lparr>sys_store := (j_id sample_job, done_job) # sys_store run3, sys_busy := {}, sys_held := Map.empty\<rparr>"

lemma run4_step: "sample_step run5 run4"
proof -
  have "sample_step run5 (run5\<lparr>sys_store := (j_id sample_job, done_job) # sys_store run3,
      sys_busy := sys_busy run5 - {j_printer sample_job},
      sys_held := (sys_held run5)(j_printer sample_job := if True then None else Some done_job)\<rparr>)"
    by (rule sys_step.answer [where procErr = None and j = run_job])
      (simp_all add: run5_def run3_def run_job_def done_job_def serving_def count_attempt_def finish_attempt_def
        bolt_save_def db_update_def bolt_put_job_def list_bbolt_def plain_codec_def Let_def)
  then show ?thesis by (simp add: run4_def run5_def run3_def)
qed

lemma run4_again: "reachable (bolt_ops list_bbolt plain_codec) (bolt_storable plain_codec) valid_string
     (bolt_content list_bbolt plain_codec) 3 run4 (run4\<lparr>sys_phase := Up\<rparr>)"
proof -
  let ?down = "run4\<lparr>sys_held := Map.empty, sys_busy := {}, sys_phase := Down\<rparr>"
  have "Reconcile (NewWithRetry (bolt_ops list_bbolt plain_codec) 3 1) (sys_clock ?down) (sys_store ?down) = ((0, 0, None), sys_store run4)"
    by (simp add: run4_def run5_def run3_def run_job_def done_job_def Reconcile_def NewWithRetry_def bolt_list_def db_view_def
        list_bbolt_def list_bucket_def plain_codec_def fresh_job_def)
  from reconcile_is_run [OF this, of "bolt_storable plain_codec" valid_string "bolt_content list_bbolt plain_codec"]
  have "sample_step\<^sup>*\<^sup>* ?down (?down\<lparr>sys_store := sys_store run4, sys_phase := Up\<rparr>)" by simp
  moreover have "sample_step run4 ?down" by (rule sys_step.crash)
  moreover have "?down\<lparr>sys_store := sys_store run4, sys_phase := Up\<rparr> = run4\<lparr>sys_phase := Up\<rparr>" by (simp add: run4_def)
  ultimately have "sample_step\<^sup>*\<^sup>* run4 (run4\<lparr>sys_phase := Up\<rparr>)" by (simp only: converse_rtranclp_into_rtranclp)
  then show "reachable (bolt_ops list_bbolt plain_codec) (bolt_storable plain_codec) valid_string
     (bolt_content list_bbolt plain_codec) 3 run4 (run4\<lparr>sys_phase := Up\<rparr>)" by (simp add: bolt.reachable_run)
qed

theorem accepted_jobs_kept_witness:
  "\<exists>k. bolt_content list_bbolt plain_codec (sys_store (run4\<lparr>sys_phase := Up\<rparr>)) (j_id sample_job) = Some k
     \<and> same_request done_job k \<and> j_state k = JobDone \<and> j_attempts k = 1"
proof -
  have d: "bolt_content list_bbolt plain_codec (sys_store run4) (j_id sample_job) = Some done_job"
    by (simp add: run4_def bolt_content_def list_bbolt_def map_of_list_bucket plain_codec_def decoded_def)
  have r: "sample_reachable run4" by (rule reachable.more [OF run5_reachable run4_step])
  from accepted_jobs_kept [OF r _ run0_ok run4_again d] show ?thesis by (auto simp: done_job_def)
qed

end
