(* ===== verification/Stores.thy ===== *)
theory Stores
  imports Queue
begin

text \<open>
  The two providers of the \<open>Store\<close> interface against each other: the contract determines every
  answer, so the persistent store and the memory store are interchangeable as long as neither fails.
\<close>

section \<open>Calls and answers\<close>

datatype store_call =
  CallSave job
| CallGet string
| CallList
| CallNextPending
| CallClaim string time
| CallEnqueue job time "goerr + string"

datatype store_answer =
  Saved
| Got job
| NoSuchJob
| Listed "job list"
| Claimed "job option"
| Enqueued job bool
| KeyConflict
| Broken

text \<open>What a caller can tell of the answer to a call; all errors of the store itself count as one.\<close>

fun perform :: "'s store_ops \<Rightarrow> store_call \<Rightarrow> 's \<Rightarrow> store_answer \<times> 's" where
  "perform ops (CallSave j) s = (case st_save ops j s of (None, s) \<Rightarrow> (Saved, s) | (Some e, s) \<Rightarrow> (Broken, s))"
| "perform ops (CallGet i) s =
     ((case st_get ops i s of Inr j \<Rightarrow> Got j
       | Inl e \<Rightarrow> if is_kind (Some e) KindNotFound then NoSuchJob else Broken), s)"
| "perform ops CallList s = ((case st_list ops s of Inr js \<Rightarrow> Listed js | Inl e \<Rightarrow> Broken), s)"
| "perform ops CallNextPending s = ((case st_next_pending ops s of Inr j \<Rightarrow> Claimed j | Inl e \<Rightarrow> Broken), s)"
| "perform ops (CallClaim p now) s =
     (case st_claim ops p now s of (Inr j, s) \<Rightarrow> (Claimed j, s) | (Inl e, s) \<Rightarrow> (Broken, s))"
| "perform ops (CallEnqueue j now idr) s =
     (case st_enqueue_idem ops j now idr s of
        (Inr (j, new), s) \<Rightarrow> (Enqueued j new, s)
      | (Inl e, s) \<Rightarrow> ((if is_kind (Some e) KindValidation then KeyConflict else Broken), s))"

text \<open>The jobs a call brings along can be stored, and the error of the ID generator is not a conflict.\<close>

fun call_ok :: "(job \<Rightarrow> bool) \<Rightarrow> store_call \<Rightarrow> bool" where
  "call_ok fits (CallSave j) \<longleftrightarrow> fits j"
| "call_ok fits (CallEnqueue j now idr) \<longleftrightarrow>
     (case idr of Inr i \<Rightarrow> fits (fresh_job i now j) | Inl e \<Rightarrow> \<not> is_kind (Some e) KindValidation)"
| "call_ok fits call \<longleftrightarrow> True"

text \<open>At most one job is live under the key of a submission, as in every state the queue reaches.\<close>

fun key_unique :: "(string \<rightharpoonup> job) \<Rightarrow> store_call \<Rightarrow> bool" where
  "key_unique jobs (CallEnqueue j now idr) \<longleftrightarrow>
     (\<forall>a \<in> ran jobs. \<forall>b \<in> ran jobs. live_key (j_key j) now a \<longrightarrow> live_key (j_key j) now b \<longrightarrow> a = b)"
| "key_unique jobs call \<longleftrightarrow> True"

section \<open>One store's answers\<close>

text \<open>The relation between a call, the content before it, the answer and the content after it, as the contract has it.\<close>

definition lowest :: "(string \<rightharpoonup> job) \<Rightarrow> (job \<Rightarrow> bool) \<Rightarrow> job \<Rightarrow> bool" where
  "lowest jobs q j \<longleftrightarrow> j \<in> ran jobs \<and> q j \<and> (\<forall>k \<in> ran jobs. q k \<longrightarrow> j_id j \<le> j_id k)"

fun answers :: "(string \<rightharpoonup> job) \<Rightarrow> store_call \<Rightarrow> store_answer \<Rightarrow> (string \<rightharpoonup> job) \<Rightarrow> bool" where
  "answers jobs (CallSave j) a jobs' \<longleftrightarrow> a = Saved \<and> jobs' = jobs(j_id j \<mapsto> j)"
| "answers jobs (CallGet i) a jobs' \<longleftrightarrow> jobs' = jobs \<and> a = (case jobs i of Some j \<Rightarrow> Got j | None \<Rightarrow> NoSuchJob)"
| "answers jobs CallList a jobs' \<longleftrightarrow> jobs' = jobs \<and>
     (\<exists>js. a = Listed js \<and> set js = ran jobs \<and> sorted (map j_id js) \<and> distinct (map j_id js))"
| "answers jobs CallNextPending a jobs' \<longleftrightarrow> jobs' = jobs \<and>
     (a = Claimed None \<and> (\<forall>j \<in> ran jobs. j_state j \<noteq> JobPending)
      \<or> (\<exists>j. a = Claimed (Some j) \<and> lowest jobs (\<lambda>j. j_state j = JobPending) j))"
| "answers jobs (CallClaim p now) a jobs' \<longleftrightarrow>
     (a = Claimed None \<and> jobs' = jobs \<and> (\<forall>j \<in> ran jobs. \<not> claimable p j)
      \<or> (\<exists>j. lowest jobs (claimable p) j \<and> a = Claimed (Some (running now j)) \<and> jobs' = jobs(j_id j \<mapsto> running now j)))"
| "answers jobs (CallEnqueue j now idr) a jobs' \<longleftrightarrow>
     (let live = {old \<in> ran jobs. j_key j \<noteq> '''' \<and> live_key (j_key j) now old} in
      (a = KeyConflict \<and> jobs' = jobs \<and> (\<exists>old \<in> live. \<not> sameLogicalRequest old j)
       \<or> (\<exists>old \<in> live. sameLogicalRequest old j \<and> a = Enqueued (idem_hit now old) False
            \<and> jobs' = jobs(j_id old \<mapsto> idem_hit now old))
       \<or> (\<exists>i. live = {} \<and> idr = Inr i \<and> a = Enqueued (fresh_job i now j) True \<and> jobs' = jobs(i \<mapsto> fresh_job i now j))))"

definition keyed :: "(string \<rightharpoonup> job) \<Rightarrow> bool" where
  "keyed jobs \<longleftrightarrow> (\<forall>j \<in> ran jobs. jobs (j_id j) = Some j)"

lemma keyed_inj: "keyed jobs \<Longrightarrow> j \<in> ran jobs \<Longrightarrow> k \<in> ran jobs \<Longrightarrow> j_id j = j_id k \<Longrightarrow> j = k"
  unfolding keyed_def by (metis option.inject)

lemma lowest_unique: "keyed jobs \<Longrightarrow> lowest jobs q j \<Longrightarrow> lowest jobs q k \<Longrightarrow> j = k"
  by (rule keyed_inj) (auto simp: lowest_def intro: antisym)

lemma lowest_or_none:
  assumes "keyed jobs" and "(\<forall>j \<in> ran jobs. \<not> q j) \<or> (\<exists>j. lowest jobs q j)"
  shows "(\<forall>j \<in> ran jobs. \<not> q j) \<and> (\<forall>j. \<not> lowest jobs q j) \<or> (\<exists>k \<in> ran jobs. q k \<and> (\<forall>j. lowest jobs q j \<longleftrightarrow> j = k))"
  using assms(2) lowest_unique [OF assms(1)] unfolding lowest_def by blast

text \<open>The contract leaves no choice.\<close>

lemma answers_determined:
  assumes ids: "keyed jobs" and key: "key_unique jobs call"
    and "answers jobs call a s" and "answers jobs call b t"
  shows "a = b \<and> s = t"
proof (cases call)
  case CallList
  with assms obtain xs ys where l: "a = Listed xs" "b = Listed ys" "set xs = ran jobs" "set ys = ran jobs" "s = t"
    and d: "sorted (map j_id xs)" "distinct (map j_id xs)" "sorted (map j_id ys)" "distinct (map j_id ys)" by auto
  have "inj_on j_id (set xs \<union> set ys)" using keyed_inj [OF ids] l(3,4) by (auto simp: inj_on_def)
  from map_sorted_distinct_set_unique [OF this d] l show ?thesis by simp
next
  case CallNextPending
  then show ?thesis using assms(3,4) lowest_or_none [OF ids, of "\<lambda>j. j_state j = JobPending"]
    by (auto dest: lowest_unique [OF ids])
next
  case (CallClaim p now)
  then show ?thesis using assms(3,4) lowest_or_none [OF ids, of "claimable p"]
    by (auto dest: lowest_unique [OF ids])
next
  case (CallEnqueue j now idr)
  let ?live = "{old \<in> ran jobs. j_key j \<noteq> [] \<and> live_key (j_key j) now old}"
  note ab = assms(3,4) [unfolded CallEnqueue answers.simps Let_def]
  consider (none) "?live = {}" | (one) old where "?live = {old}"
    using key CallEnqueue by (cases "?live = {}") auto
  then show ?thesis
  proof cases
    case none
    with ab show ?thesis unfolding none by auto
  next
    case one
    with ab show ?thesis unfolding one by auto
  qed
qed (use assms in auto)

context job_store
begin

lemma content_keyed: "invar s \<Longrightarrow> keyed (content s)"
  using ran_content_id by (simp add: keyed_def)

lemma perform_answers:
  assumes "invar s" and "call_ok storable call" and "perform ops call s = (a, s')" and "a \<noteq> Broken"
  shows "invar s' \<and> answers (content s) call a (content s')"
proof (cases call)
  case (CallSave j)
  obtain r s1 where r: "st_save ops j s = (r, s1)" by fastforce
  with CallSave assms have "r = None" "s1 = s'" "a = Saved" by (auto split: option.splits)
  with save_ok [OF assms(1) _ r [unfolded this]] CallSave assms show ?thesis by simp
next
  case (CallGet i)
  with assms get_ok [OF assms(1), of i] get_not_found [OF assms(1), of i] show ?thesis
    by (auto split: sum.splits if_splits)
next
  case CallList
  with assms list_ok [OF assms(1)] show ?thesis by (auto split: sum.splits)
next
  case CallNextPending
  then obtain o1 where o: "st_next_pending ops s = Inr o1" "a = Claimed o1" "s' = s"
    using assms(3,4) by (cases "st_next_pending ops s") auto
  show ?thesis
  proof (cases o1)
    case None
    with o next_pending_none [OF assms(1)] CallNextPending assms(1) show ?thesis by simp
  next
    case (Some k)
    with o next_pending_some [OF assms(1), of k] CallNextPending assms(1) show ?thesis by (simp add: lowest_def)
  qed
next
  case (CallClaim p now)
  then obtain o1 where o: "st_claim ops p now s = (Inr o1, s')" "a = Claimed o1"
    using assms(3,4) by (auto split: prod.splits sum.splits)
  show ?thesis
  proof (cases o1)
    case None
    with o CallClaim claim_none [OF assms(1)] assms(1) show ?thesis by auto
  next
    case (Some k)
    with claim_some [OF assms(1)] o obtain j where "invar s'" "content s (j_id j) = Some j" "claimable p j" "k = running now j"
      "\<forall>k \<in> ran (content s). claimable p k \<longrightarrow> j_id j \<le> j_id k" "content s' = (content s)(j_id j \<mapsto> k)" by blast
    with o Some CallClaim content_in_ran show ?thesis by (auto simp: lowest_def)
  qed
next
  case (CallEnqueue j now idr)
  obtain r s1 where r: "st_enqueue_idem ops j now idr s = (r, s1)" by fastforce
  with CallEnqueue assms(3) have s': "s1 = s'" by (auto split: sum.splits)
  have fits: "\<forall>i. idr = Inr i \<longrightarrow> storable (fresh_job i now j)" "\<forall>e'. idr = Inl e' \<longrightarrow> \<not> is_kind (Some e') KindValidation"
    using CallEnqueue assms(2) by (simp_all split: sum.splits)
  show ?thesis
  proof (cases r)
    case (Inl e)
    with CallEnqueue assms(3,4) r have v: "is_kind (Some e) KindValidation" "a = KeyConflict" by (auto split: if_splits)
    from idem_err [OF assms(1) r [unfolded Inl]] idem_conflict [OF assms(1) r [unfolded Inl] v(1) fits] v s' assms(1) CallEnqueue
    show ?thesis by (auto simp: Let_def)
  next
    case (Inr p)
    obtain k new where p: "p = (k, new)" by fastforce
    with Inr r CallEnqueue assms(3) have a: "a = Enqueued k new" by simp
    show ?thesis
    proof (cases new)
      case True
      then have "st_enqueue_idem ops j now idr s = (Inr (k, True), s1)" using r Inr p by simp
      from idem_fresh [OF assms(1) this fits(1)] a True s' CallEnqueue show ?thesis by (auto simp: Let_def)
    next
      case False
      then have "st_enqueue_idem ops j now idr s = (Inr (k, False), s1)" using r Inr p by simp
      from idem_existing [OF assms(1) this] a False s' CallEnqueue show ?thesis by (auto simp: Let_def)
    qed
  qed
qed

end

section \<open>Properties\<close>

text \<open>
  (C16) The two stores are interchangeable: over the same jobs, and where at most one job is live under the key
  of a submission, every call of the \<open>Store\<close> interface that neither store fails gets the same answer from
  the memory store and from the bbolt store, down to the order of a list, the job a worker gets and the conflict of a
  key, and leaves the same jobs in both, so that the next call finds them equal again.
\<close>

theorem stores_agree:
  assumes "mem_invar s" and "bolt_invar db c b" and "map_of s = bolt_content db c b"
    and "call_ok (bolt_storable c) call" and "key_unique (map_of s) call"
    and "perform mem_ops call s = (x, s')" and "perform (bolt_ops db c) call b = (y, b')"
    and "x \<noteq> Broken" and "y \<noteq> Broken"
  shows "x = y \<and> map_of s' = bolt_content db c b' \<and> mem_invar s' \<and> bolt_invar db c b'"
proof -
  have "call_ok (\<lambda>_. True) call" using assms(4) by (cases call) (simp_all split: sum.splits)
  from mem.perform_answers [OF assms(1) this assms(6,8)] have m: "mem_invar s'" "answers (map_of s) call x (map_of s')" by simp_all
  from bolt.perform_answers [OF assms(2,4,7,9)] have
    d: "bolt_invar db c b'" "answers (map_of s) call y (bolt_content db c b')" by (simp_all add: assms(3))
  from answers_determined [OF mem.content_keyed [OF assms(1)] assms(5) m(2) d(2)] m(1) d(1) show ?thesis by simp
qed

theorem stores_agree_witness:
  "\<exists>s' b'. perform mem_ops (CallClaim ''bar'' 5) [(''7f'', sample_job)] = (Claimed (Some (running 5 sample_job)), s')
     \<and> perform (bolt_ops list_bbolt plain_codec) (CallClaim ''bar'' 5) [(''7f'', sample_job)]
         = (Claimed (Some (running 5 sample_job)), b')
     \<and> map_of s' = bolt_content list_bbolt plain_codec b'"
proof -
  let ?s = "[(''7f'', sample_job)]"
  obtain b' where b: "perform (bolt_ops list_bbolt plain_codec) (CallClaim ''bar'' 5) ?s = (Claimed (Some (running 5 sample_job)), b')"
    by (simp add: bolt_claim_def db_update_def bolt_claim_tx_def list_bucket_def list_bbolt_def plain_codec_def claimable_def
        bolt_put_job_def running_def Let_def)
  obtain x s' where m: "perform mem_ops (CallClaim ''bar'' 5) ?s = (x, s')" "x \<noteq> Broken"
    by (simp add: mem_claim_def claimable_def Let_def)
  have eq: "map_of ?s = bolt_content list_bbolt plain_codec ?s"
    by (simp add: bolt_content_def list_bbolt_def map_of_list_bucket plain_codec_def decoded_def fun_eq_iff)
  have inv: "mem_invar ?s" by (simp add: mem_invar_def)
  from stores_agree [OF inv sample_bucket [OF sample_storable sample_ids(1)] eq _ _ m(1) b m(2)] m b show ?thesis by auto
qed

end
