(* ===== verification/Bitmap.thy ===== *)
theory Bitmap
  imports Receipt
begin

text \<open>
  One-bit bitmaps: \<open>layout.GlyphBitmap\<close> (\<open>render/layout/font.go\<close>) and every loop of the
  renderer that reads or writes one: \<open>upscale\<close> and \<open>packMask\<close> (\<open>embedded_font.go\<close>),
  \<open>rasterizeImage\<close>, \<open>darkOverWhite\<close> and \<open>alignBitmap\<close> (\<open>image.go\<close>), \<open>scaleGlyph\<close>,
  \<open>boldGlyph\<close>, \<open>italicGlyph\<close> and \<open>styleGlyph\<close> (\<open>canvas/style.go\<close>).  A byte slice is a byte
  list, and an index out of range is a panic.  The lemmas give each loop as the set of pixels
  that it paints.
\<close>

record bitmap =
  bm_width :: int
  bm_height :: int
  bm_bits :: "byte list"

section \<open>Reading and writing packed rows\<close>

definition row_bytes :: "int \<Rightarrow> int" where
  "row_bytes w = (w + 7) sdiv 8"

text \<open>\<open>0x80 >> uint(x%8)\<close>: a negative remainder becomes a huge shift, which clears the byte.\<close>

definition px_mask :: "int \<Rightarrow> byte" where
  "px_mask x = (if x smod 8 < 0 then 0 else drop_bit (nat (x smod 8)) 0x80)"

definition index_panic :: string where
  "index_panic = ''runtime error: index out of range''"

text \<open>\<open>bits[off+x/8]\<close>, tested against and or-ed with the mask of \<open>x\<close>.\<close>

definition bit_at :: "byte list \<Rightarrow> int \<Rightarrow> int \<Rightarrow> bool res" where
  "bit_at bits off x =
     (let i = off + x sdiv 8 in
      if 0 \<le> i \<and> i < int (length bits) then Val (bits ! nat i AND px_mask x \<noteq> 0)
      else Panic index_panic)"

definition set_bit_at :: "int \<Rightarrow> int \<Rightarrow> byte list \<Rightarrow> byte list res" where
  "set_bit_at off x bits =
     (let i = off + x sdiv 8 in
      if 0 \<le> i \<and> i < int (length bits) then Val (bits[nat i := bits ! nat i OR px_mask x])
      else Panic index_panic)"

definition make_bytes :: "int \<Rightarrow> byte list res" where
  "make_bytes n = (if n < 0 then Panic ''runtime error: makeslice: len out of range''
                   else Val (replicate (nat n) 0))"

text \<open>\<open>for y := 0; y < h; y++ { for x := 0; x < w; x++ {...} }\<close>\<close>

definition grid :: "int \<Rightarrow> int \<Rightarrow> (int \<times> int) list" where
  "grid w h = concat (map (\<lambda>y. map (Pair y) [0..w - 1]) [0..h - 1])"

lemma set_grid: "set (grid w h) = {(y, x). 0 \<le> y \<and> y < h \<and> 0 \<le> x \<and> x < w}"
  by (auto simp: grid_def)

section \<open>The pixels of a byte slice\<close>

definition bit :: "byte list \<Rightarrow> int \<Rightarrow> int \<Rightarrow> int \<Rightarrow> bool" where
  "bit bits rb y x = (bits ! nat (y * rb + x div 8) AND drop_bit (nat (x mod 8)) 0x80 \<noteq> 0)"

text \<open>The set bits of \<open>h\<close> rows of \<open>rb\<close> bytes, as (row, column) pairs.\<close>

definition pixels :: "int \<Rightarrow> int \<Rightarrow> byte list \<Rightarrow> (int \<times> int) set" where
  "pixels rb h bits = {(y, x). 0 \<le> y \<and> y < h \<and> 0 \<le> x \<and> x < 8 * rb \<and> bit bits rb y x}"

lemma smod_nonneg: "0 \<le> x \<Longrightarrow> x smod 8 = x mod (8::int)"
  by (cases "x = 0") (simp_all add: signed_modulo_int_def)

lemma px_mask_nonneg: "0 \<le> x \<Longrightarrow> px_mask x = drop_bit (nat (x mod 8)) 0x80"
  by (simp add: px_mask_def smod_nonneg)

lemma row_bytes_nonneg: "0 \<le> w \<Longrightarrow> row_bytes w = (w + 7) div 8"
  by (simp add: row_bytes_def sdiv_pos)

lemma row_bytes_bounds: "0 \<le> w \<Longrightarrow> 0 \<le> row_bytes w \<and> w \<le> 8 * row_bytes w \<and> 8 * row_bytes w < w + 8"
  unfolding row_bytes_nonneg by presburger

lemma cell_in_range:
  fixes y h x rb :: int
  assumes "0 \<le> y" "y < h" "0 \<le> x" "x < 8 * rb"
  shows "0 \<le> y * rb + x div 8" "y * rb + x div 8 < rb * h"
proof -
  have "0 \<le> rb" "0 \<le> x div 8" "x div 8 < rb" using assms by linarith+
  moreover have "y * rb \<le> (h - 1) * rb" using assms \<open>0 \<le> rb\<close> by (intro mult_right_mono) auto
  ultimately show "0 \<le> y * rb + x div 8" "y * rb + x div 8 < rb * h"
    using assms by (auto simp: algebra_simps)
qed

lemma cell_inj:
  assumes "0 \<le> x" "x < 8 * rb" "0 \<le> x'" "x' < 8 * rb"
    and "y * rb + x div 8 = y' * rb + x' div (8::int)"
  shows "y = y' \<and> x div 8 = x' div 8"
proof -
  have b: "0 \<le> x div 8" "x div 8 < rb" "0 \<le> x' div 8" "x' div 8 < rb" using assms by auto
  then have "(y * rb + x div 8) div rb = y" "(y' * rb + x' div 8) div rb = y'"
    by auto
  with assms(5) show ?thesis by simp
qed

lemma bit_128: "Bit_Operations.bit (0x80::byte) n \<longleftrightarrow> n = 7"
proof -
  have e: "(0x80::byte) = 2 ^ 7" by simp
  show ?thesis unfolding e bit_exp_iff by (auto simp: possible_bit_word)
qed

lemma and_mask:
  fixes b :: byte
  assumes "j < 8"
  shows "b AND drop_bit j 0x80 \<noteq> 0 \<longleftrightarrow> Bit_Operations.bit b (7 - j)"
proof -
  have "Bit_Operations.bit (b AND drop_bit j 0x80) n \<longleftrightarrow> n = 7 - j \<and> Bit_Operations.bit b (7 - j)" for n
    unfolding bit_and_iff bit_drop_bit_eq comp_def bit_128 using assms by (cases "n = 7 - j") auto
  then show ?thesis by (metis bit_0_eq bot_apply bot_bool_def bit_eqI)
qed

lemma mask_bits:
  fixes b :: byte
  assumes "i < 8" "j < 8"
  shows "(b OR drop_bit i 0x80) AND drop_bit j 0x80 \<noteq> 0 \<longleftrightarrow> i = j \<or> b AND drop_bit j 0x80 \<noteq> 0"
proof -
  have "Bit_Operations.bit (drop_bit i (0x80::byte)) (7 - j) \<longleftrightarrow> i = j"
    unfolding bit_drop_bit_eq comp_def bit_128 using assms by auto
  then show ?thesis unfolding and_mask [OF assms(2)] bit_or_iff by blast
qed

lemma bit_at_in:
  assumes "int (length bits) = rb * h" "0 \<le> y" "y < h" "0 \<le> x" "x < 8 * rb"
  shows "bit_at bits (y * rb) x = Val ((y, x) \<in> pixels rb h bits)"
  using assms cell_in_range [OF assms(2-5)]
  by (simp add: bit_at_def Let_def sdiv_pos px_mask_nonneg pixels_def bit_def)

lemma set_bit_at_in:
  assumes "int (length bits) = rb * h" "0 \<le> y" "y < h" "0 \<le> x" "x < 8 * rb"
  obtains bits' where "set_bit_at (y * rb) x bits = Val bits'" "length bits' = length bits"
    "pixels rb h bits' = insert (y, x) (pixels rb h bits)"
proof -
  let ?i = "nat (y * rb + x div 8)"
  let ?b = "bits[?i := bits ! ?i OR px_mask x]"
  have i: "?i < length bits" using assms cell_in_range [OF assms(2-5)] by linarith
  have "bit ?b rb y' x' \<longleftrightarrow> (y', x') = (y, x) \<or> bit bits rb y' x'"
    if "0 \<le> y'" "y' < h" "0 \<le> x'" "x' < 8 * rb" for y' x'
  proof (cases "nat (y' * rb + x' div 8) = ?i")
    case True
    with cell_in_range [OF that] cell_in_range [OF assms(2-5)]
    have "y' * rb + x' div 8 = y * rb + x div 8" by linarith
    with cell_inj [of x' rb x y' y] that assms have e: "y' = y" "x' div 8 = x div 8" by auto
    have "x' = x \<longleftrightarrow> nat (x mod 8) = nat (x' mod 8)"
      using e(2) by (metis div_mult_mod_eq eq_nat_nat_iff pos_mod_sign zero_less_numeral)
    with True e i assms(4) show ?thesis
      by (auto simp: bit_def px_mask_nonneg mask_bits)
  next
    case False
    then have "(y', x') \<noteq> (y, x)" by auto
    with False show ?thesis by (auto simp: bit_def nth_list_update)
  qed
  then have "pixels rb h ?b = insert (y, x) (pixels rb h bits)"
    using assms by (auto simp: pixels_def)
  moreover have "set_bit_at (y * rb) x bits = Val ?b"
    using assms cell_in_range [OF assms(2-5)] by (simp add: set_bit_at_def Let_def sdiv_pos)
  ultimately show ?thesis by (intro that [of ?b]) simp_all
qed

lemma pixels_make: "pixels rb h (replicate (nat (rb * h)) 0) = {}"
proof -
  have "\<not> bit (replicate (nat (rb * h)) 0) rb y x" if "0 \<le> y" "y < h" "0 \<le> x" "x < 8 * rb" for y x
  proof -
    have "nat (y * rb + x div 8) < nat (rb * h)" using cell_in_range [OF that] by linarith
    then show ?thesis by (simp add: bit_def)
  qed
  then show ?thesis by (auto simp: pixels_def)
qed

section \<open>Painting loops\<close>

text \<open>
  A loop that reads one bitmap and sets bits of another: \<open>for_set src visit ps bits\<close> goes through
  the positions \<open>ps\<close> of the source and, at a set one, through the targets \<open>visit\<close> gives, which the
  code's own guards have already filtered.
\<close>

definition set_all :: "int \<Rightarrow> (int \<times> int) list \<Rightarrow> byte list \<Rightarrow> byte list res" where
  "set_all rb targets bits = go_fold (\<lambda>(y, x). set_bit_at (y * rb) x) targets bits"

definition copy_pixels ::
  "bitmap \<Rightarrow> int \<Rightarrow> (int \<Rightarrow> int \<Rightarrow> (int \<times> int) list) \<Rightarrow> byte list \<Rightarrow> byte list res" where
  "copy_pixels src rb targets bits =
     go_fold (\<lambda>(y, x) bits.
         go_bind (bit_at (bm_bits src) (y * row_bytes (bm_width src)) x)
           (\<lambda>b. if \<not> b then Val bits else set_all rb (targets y x) bits))
       (grid (bm_width src) (bm_height src)) bits"

lemma set_all_in:
  assumes "int (length bits) = rb * h" and "\<forall>(y, x) \<in> set ts. 0 \<le> y \<and> y < h \<and> 0 \<le> x \<and> x < 8 * rb"
  shows "\<exists>bits'. set_all rb ts bits = Val bits' \<and> length bits' = length bits
           \<and> pixels rb h bits' = pixels rb h bits \<union> set ts"
  using assms
proof (induction ts arbitrary: bits)
  case Nil
  then show ?case by (simp add: set_all_def)
next
  case (Cons t ts)
  obtain y x where t: "t = (y, x)" by (cases t)
  from Cons.prems(2) t have "0 \<le> y" "y < h" "0 \<le> x" "x < 8 * rb" by auto
  from set_bit_at_in [OF Cons.prems(1) this] obtain b1 where
    b1: "set_bit_at (y * rb) x bits = Val b1" "length b1 = length bits"
      "pixels rb h b1 = insert (y, x) (pixels rb h bits)" .
  from Cons.IH [of b1] Cons.prems b1(2) obtain b2 where
    "set_all rb ts b1 = Val b2" "length b2 = length b1" "pixels rb h b2 = pixels rb h b1 \<union> set ts" by auto
  with b1 t show ?case by (auto simp: set_all_def)
qed

text \<open>
  A bitmap is well formed when its slice is exactly its rows, with the padding bits of each row
  unset, which is what the comments of \<open>GlyphBitmap\<close> and \<open>Canvas\<close> promise.
\<close>

definition bm_pixels :: "bitmap \<Rightarrow> (int \<times> int) set" where
  "bm_pixels b = pixels (row_bytes (bm_width b)) (bm_height b) (bm_bits b)"

definition bm_ok :: "bitmap \<Rightarrow> bool" where
  "bm_ok b \<longleftrightarrow> 0 \<le> bm_width b \<and> 0 \<le> bm_height b
     \<and> int (length (bm_bits b)) = row_bytes (bm_width b) * bm_height b
     \<and> bm_pixels b \<subseteq> {(y, x). x < bm_width b}"

lemma bm_pixels_range:
  "bm_ok b \<Longrightarrow> (y, x) \<in> bm_pixels b \<Longrightarrow> 0 \<le> y \<and> y < bm_height b \<and> 0 \<le> x \<and> x < bm_width b"
  by (auto simp: bm_ok_def bm_pixels_def pixels_def)

lemma bm_grid_read:
  assumes "bm_ok b" "(y, x) \<in> set (grid (bm_width b) (bm_height b))"
  shows "bit_at (bm_bits b) (y * row_bytes (bm_width b)) x = Val ((y, x) \<in> bm_pixels b)"
  unfolding bm_pixels_def using assms row_bytes_bounds [of "bm_width b"]
  by (intro bit_at_in) (auto simp: set_grid bm_ok_def)

lemma copy_fold_in:
  assumes ok: "bm_ok src" and len: "int (length bits) = rb * h"
    and tgt: "\<And>y x ty tx. (y, x) \<in> bm_pixels src \<Longrightarrow> (ty, tx) \<in> set (targets y x) \<Longrightarrow>
                0 \<le> ty \<and> ty < h \<and> 0 \<le> tx \<and> tx < 8 * rb"
    and ps: "set ps \<subseteq> set (grid (bm_width src) (bm_height src))"
  shows "\<exists>bits'. go_fold (\<lambda>(y, x) bits.
             go_bind (bit_at (bm_bits src) (y * row_bytes (bm_width src)) x)
               (\<lambda>b. if \<not> b then Val bits else set_all rb (targets y x) bits)) ps bits = Val bits'
           \<and> length bits' = length bits
           \<and> pixels rb h bits' = pixels rb h bits \<union> (\<Union>(y, x) \<in> set ps \<inter> bm_pixels src. set (targets y x))"
  using len ps
proof (induction ps arbitrary: bits)
  case Nil
  then show ?case by simp
next
  case (Cons p ps)
  obtain y x where p: "p = (y, x)" by (cases p)
  have r: "bit_at (bm_bits src) (y * row_bytes (bm_width src)) x = Val ((y, x) \<in> bm_pixels src)"
    using bm_grid_read [OF ok] Cons.prems(2) p by auto
  show ?case
  proof (cases "(y, x) \<in> bm_pixels src")
    case False
    with Cons.IH [OF Cons.prems(1)] Cons.prems(2) p r show ?thesis by simp
  next
    case True
    then obtain b1 where b1: "set_all rb (targets y x) bits = Val b1" "length b1 = length bits"
      "pixels rb h b1 = pixels rb h bits \<union> set (targets y x)"
      using set_all_in [OF Cons.prems(1), of "targets y x"] tgt by blast
    from Cons.IH [of b1] Cons.prems b1(2) obtain b2 where
      "go_fold (\<lambda>(y, x) bits.
             go_bind (bit_at (bm_bits src) (y * row_bytes (bm_width src)) x)
               (\<lambda>b. if \<not> b then Val bits else set_all rb (targets y x) bits)) ps b1 = Val b2"
      "length b2 = length b1"
      "pixels rb h b2 = pixels rb h b1 \<union> (\<Union>(y, x) \<in> set ps \<inter> bm_pixels src. set (targets y x))" by auto
    with p r True b1 show ?thesis by auto
  qed
qed

lemma copy_pixels_in:
  assumes "bm_ok src" "int (length bits) = rb * h"
    and "(\<Union>(y, x) \<in> bm_pixels src. set (targets y x)) \<subseteq> {(y, x). 0 \<le> y \<and> y < h \<and> 0 \<le> x \<and> x < 8 * rb}"
  shows "\<exists>bits'. copy_pixels src rb targets bits = Val bits' \<and> length bits' = length bits
           \<and> pixels rb h bits' = pixels rb h bits \<union> (\<Union>(y, x) \<in> bm_pixels src. set (targets y x))"
proof -
  have "set (grid (bm_width src) (bm_height src)) \<inter> bm_pixels src = bm_pixels src"
    using bm_pixels_range [OF assms(1)] by (auto simp: set_grid)
  moreover have "0 \<le> ty \<and> ty < h \<and> 0 \<le> tx \<and> tx < 8 * rb"
    if "(y, x) \<in> bm_pixels src" "(ty, tx) \<in> set (targets y x)" for y x ty tx
    using assms(3) that by blast
  ultimately show ?thesis
    using copy_fold_in [OF assms(1,2) _ order_refl, of targets] by (simp add: copy_pixels_def)
qed

lemma copy_new_bitmap:
  assumes "bm_ok src" "0 \<le> w" "0 \<le> h"
    and "(\<Union>(y, x) \<in> bm_pixels src. set (targets y x)) \<subseteq> {(y, x). 0 \<le> y \<and> y < h \<and> 0 \<le> x \<and> x < w}"
  shows "\<exists>b. go_bind (make_bytes (row_bytes w * h))
               (\<lambda>bits. go_bind (copy_pixels src (row_bytes w) targets bits)
                 (\<lambda>bits. Val \<lparr>bm_width = w, bm_height = h, bm_bits = bits\<rparr>)) = Val b
           \<and> bm_ok b \<and> bm_width b = w \<and> bm_height b = h
           \<and> bm_pixels b = (\<Union>(y, x) \<in> bm_pixels src. set (targets y x))"
proof -
  note rb = row_bytes_bounds [OF assms(2)]
  have n: "0 \<le> row_bytes w * h" using rb assms(3) by simp
  then have l: "int (length (replicate (nat (row_bytes w * h)) (0::byte))) = row_bytes w * h" by simp
  have "(\<Union>(y, x) \<in> bm_pixels src. set (targets y x))
      \<subseteq> {(y, x). 0 \<le> y \<and> y < h \<and> 0 \<le> x \<and> x < 8 * row_bytes w}"
    using assms(4) rb by fastforce
  from copy_pixels_in [OF assms(1) l this]
  obtain bits where
    b: "copy_pixels src (row_bytes w) targets (replicate (nat (row_bytes w * h)) 0) = Val bits"
      "int (length bits) = row_bytes w * h"
      "pixels (row_bytes w) h bits = (\<Union>(y, x) \<in> bm_pixels src. set (targets y x))"
    using n by (auto simp: pixels_make)
  then show ?thesis
    using n assms(2-4) by (auto simp: make_bytes_def bm_ok_def bm_pixels_def)
qed

text \<open>Loops that decide each pixel of a new bitmap from its coordinates.\<close>

definition raster :: "int \<Rightarrow> int \<Rightarrow> (int \<Rightarrow> int \<Rightarrow> bool res) \<Rightarrow> byte list res" where
  "raster w h ink =
     go_bind (make_bytes (row_bytes w * h))
       (go_fold (\<lambda>(y, x) bits.
           go_bind (ink y x) (\<lambda>b. if b then set_bit_at (y * row_bytes w) x bits else Val bits))
         (grid w h))"

lemma raster_fold_in:
  assumes "int (length bits) = rb * h"
    and "\<forall>(y, x) \<in> set ps. 0 \<le> y \<and> y < h \<and> 0 \<le> x \<and> x < 8 * rb \<and> ink y x = Val (I y x)"
  shows "\<exists>bits'. go_fold (\<lambda>(y, x) bits.
           go_bind (ink y x) (\<lambda>b. if b then set_bit_at (y * rb) x bits else Val bits)) ps bits = Val bits'
         \<and> length bits' = length bits \<and> pixels rb h bits' = pixels rb h bits \<union> {(y, x) \<in> set ps. I y x}"
  using assms
proof (induction ps arbitrary: bits)
  case Nil
  then show ?case by simp
next
  case (Cons p ps)
  obtain y x where p: "p = (y, x)" by (cases p)
  from Cons.prems(2) p have r: "0 \<le> y" "y < h" "0 \<le> x" "x < 8 * rb" and i: "ink y x = Val (I y x)" by auto
  show ?case
  proof (cases "I y x")
    case False
    with Cons.IH [OF Cons.prems(1)] Cons.prems(2) p i show ?thesis by auto
  next
    case True
    obtain b1 where b1: "set_bit_at (y * rb) x bits = Val b1" "length b1 = length bits"
      "pixels rb h b1 = insert (y, x) (pixels rb h bits)"
      using set_bit_at_in [OF Cons.prems(1) r] .
    with Cons.prems(1) have "int (length b1) = rb * h" by simp
    with Cons.IH [of b1] Cons.prems(2) obtain b2 where
      "go_fold (\<lambda>(y, x) bits.
           go_bind (ink y x) (\<lambda>b. if b then set_bit_at (y * rb) x bits else Val bits)) ps b1 = Val b2"
      "length b2 = length b1" "pixels rb h b2 = pixels rb h b1 \<union> {(y, x) \<in> set ps. I y x}" by auto
    with p i True b1 show ?thesis by auto
  qed
qed

lemma raster_in:
  assumes "0 \<le> w" "0 \<le> h"
    and "\<forall>(y, x) \<in> set (grid w h). ink y x = Val (I y x)"
  shows "\<exists>bits. raster w h ink = Val bits
           \<and> bm_ok \<lparr>bm_width = w, bm_height = h, bm_bits = bits\<rparr>
           \<and> bm_pixels \<lparr>bm_width = w, bm_height = h, bm_bits = bits\<rparr>
             = {(y, x). 0 \<le> y \<and> y < h \<and> 0 \<le> x \<and> x < w \<and> I y x}"
proof -
  note rb = row_bytes_bounds [OF assms(1)]
  have n: "0 \<le> row_bytes w * h" using rb assms(2) by simp
  have "\<forall>(y, x) \<in> set (grid w h). 0 \<le> y \<and> y < h \<and> 0 \<le> x \<and> x < 8 * row_bytes w \<and> ink y x = Val (I y x)"
    using assms(3) rb by (auto simp: set_grid)
  from raster_fold_in [OF _ this, of "replicate (nat (row_bytes w * h)) 0"] n obtain bits where
    "go_fold (\<lambda>(y, x) bits.
        go_bind (ink y x) (\<lambda>b. if b then set_bit_at (y * row_bytes w) x bits else Val bits))
       (grid w h) (replicate (nat (row_bytes w * h)) 0) = Val bits"
    "int (length bits) = row_bytes w * h"
    "pixels (row_bytes w) h bits = {(y, x) \<in> set (grid w h). I y x}"
    by (auto simp: pixels_make)
  with n assms(1,2) show ?thesis
    by (auto simp: raster_def make_bytes_def bm_ok_def bm_pixels_def set_grid)
qed

section \<open>The operations of the renderer\<close>

text \<open>\<open>upscale\<close> and \<open>scaleGlyph\<close> share their body: each set pixel becomes a square.\<close>

definition replicate_pixels :: "bitmap \<Rightarrow> int \<Rightarrow> bitmap res" where
  "replicate_pixels bmp factor =
     (let width = bm_width bmp * factor; height = bm_height bmp * factor;
          dstRowBytes = row_bytes width in
      go_bind (make_bytes (dstRowBytes * height)) (\<lambda>bits.
      go_bind (copy_pixels bmp dstRowBytes
                 (\<lambda>y x. map (\<lambda>(dy, dx). (y * factor + dy, x * factor + dx)) (grid factor factor)) bits)
        (\<lambda>bits. Val \<lparr>bm_width = width, bm_height = height, bm_bits = bits\<rparr>)))"

definition upscale :: "bitmap \<Rightarrow> int \<Rightarrow> bitmap res" where
  "upscale bmp factor = (if factor \<le> 1 then Val bmp else replicate_pixels bmp factor)"

definition scaleGlyph :: "bitmap \<Rightarrow> int \<Rightarrow> bitmap res" where
  "scaleGlyph bmp factor = (if factor \<le> 1 then Val bmp else replicate_pixels bmp factor)"

definition boldGlyph :: "bitmap \<Rightarrow> bitmap res" where
  "boldGlyph bmp =
     go_bind (copy_pixels bmp (row_bytes (bm_width bmp))
                (\<lambda>y x. if x + 1 < bm_width bmp then [(y, x + 1)] else []) (bm_bits bmp))
       (\<lambda>bits. Val \<lparr>bm_width = bm_width bmp, bm_height = bm_height bmp, bm_bits = bits\<rparr>)"

definition italicShear :: "int \<Rightarrow> int \<Rightarrow> int" where
  "italicShear height y = (let mid = (height - 1) sdiv 2 in (mid - y) sdiv 5)"

definition italicGlyph :: "bitmap \<Rightarrow> bitmap res" where
  "italicGlyph bmp =
     go_bind (copy_pixels bmp (row_bytes (bm_width bmp))
                (\<lambda>y x. let sx = x + italicShear (bm_height bmp) y
                       in if sx < 0 \<or> sx \<ge> bm_width bmp then [] else [(y, sx)])
                (replicate (length (bm_bits bmp)) 0))
       (\<lambda>bits. Val \<lparr>bm_width = bm_width bmp, bm_height = bm_height bmp, bm_bits = bits\<rparr>)"

record style =
  sty_bold :: bool
  sty_italic :: bool
  sty_underline :: bool
  sty_strikethrough :: bool
  sty_size :: int

definition styleGlyph :: "bitmap \<Rightarrow> style \<Rightarrow> bitmap res" where
  "styleGlyph bmp style =
     go_bind (scaleGlyph bmp (sty_size style)) (\<lambda>bmp.
     go_bind (if sty_bold style then boldGlyph bmp else Val bmp) (\<lambda>bmp.
     if sty_italic style then italicGlyph bmp else Val bmp))"

text \<open>\<open>packMask\<close>: the alpha of a mask at a point is the last component of its colour.\<close>

definition packMask :: "image \<Rightarrow> int \<Rightarrow> int \<Rightarrow> int \<Rightarrow> int \<Rightarrow> byte list res" where
  "packMask msk originX originY width height =
     raster width height (\<lambda>y x. Val (case img_at msk (originX + x) (originY + y) of
                                      (_, _, _, a) \<Rightarrow> a \<ge> 2 ^ 15))"

text \<open>\<open>darkOverWhite\<close> computes on \<open>uint32\<close>.\<close>

definition darkOverWhite :: "int \<times> int \<times> int \<times> int \<Rightarrow> bool" where
  "darkOverWhite c =
     (case c of (r, g, b, a) \<Rightarrow>
        let r = word_of_int r :: 32 word; g = word_of_int g; b = word_of_int b;
            white = 0xffff - word_of_int a;
            lum = (r + white) * 299 div 1000 + (g + white) * 587 div 1000 + (b + white) * 114 div 1000
        in lum < 0x8000)"

definition rasterizeImage :: "image \<Rightarrow> int \<Rightarrow> int \<Rightarrow> bitmap res" where
  "rasterizeImage img targetWidth targetHeight =
     go_bind (raster targetWidth targetHeight
        (\<lambda>y x. go_bind (go_div (y * img_dy img) targetHeight) (\<lambda>dy.
               go_bind (go_div (x * img_dx img) targetWidth) (\<lambda>dx.
               Val (darkOverWhite (img_at img (img_min_x img + dx) (img_min_y img + dy)))))))
       (\<lambda>bits. Val \<lparr>bm_width = targetWidth, bm_height = targetHeight, bm_bits = bits\<rparr>)"

definition alignBitmap :: "bitmap \<Rightarrow> string \<Rightarrow> int \<Rightarrow> bitmap res" where
  "alignBitmap bmp align maxWidth =
     (if align \<noteq> ''center'' \<and> align \<noteq> ''right'' then Val bmp
      else if maxWidth \<le> 0 \<or> bm_width bmp \<ge> maxWidth then Val bmp
      else
        let offset = (if align = ''center'' then (maxWidth - bm_width bmp) sdiv 2 else maxWidth - bm_width bmp);
            rowBytes = row_bytes maxWidth in
        go_bind (make_bytes (rowBytes * bm_height bmp)) (\<lambda>bits.
        go_bind (copy_pixels bmp rowBytes (\<lambda>y x. [(y, x + offset)]) bits)
          (\<lambda>bits. Val \<lparr>bm_width = maxWidth, bm_height = bm_height bmp, bm_bits = bits\<rparr>)))"

section \<open>What they paint\<close>

lemma replicate_pixels_spec:
  assumes "bm_ok b" "1 \<le> k"
  shows "\<exists>b'. replicate_pixels b k = Val b' \<and> bm_ok b' \<and> bm_width b' = bm_width b * k
           \<and> bm_height b' = bm_height b * k
           \<and> bm_pixels b' = {(y, x). (y div k, x div k) \<in> bm_pixels b}"
proof -
  let ?t = "\<lambda>y x. map (\<lambda>(dy, dx). (y * k + dy, x * k + dx)) (grid k k)"
  have dim: "0 \<le> bm_width b * k" "0 \<le> bm_height b * k" using assms by (auto simp: bm_ok_def)
  have mem: "(ty, tx) \<in> set (?t y x) \<longleftrightarrow> ty div k = y \<and> tx div k = x" for ty tx y x
  proof -
    have d: "(\<exists>d. 0 \<le> d \<and> d < k \<and> t = z * k + d) \<longleftrightarrow> t div k = z" for t z
      using assms(2) by (auto intro: exI[of _ "t mod k"])
    have "(ty, tx) \<in> set (?t y x) \<longleftrightarrow>
        (\<exists>d. 0 \<le> d \<and> d < k \<and> ty = y * k + d) \<and> (\<exists>d. 0 \<le> d \<and> d < k \<and> tx = x * k + d)"
      by (auto simp: set_grid image_iff)
    then show ?thesis unfolding d .
  qed
  have lt: "t < n * k" if "t div k < n" for t n
  proof -
    have "(t div k + 1) * k \<le> n * k" using that assms(2) by (intro mult_right_mono) auto
    moreover have "t < (t div k + 1) * k"
    proof -
      have "t mod k < k" using assms(2) by simp
      moreover have "t = t div k * k + t mod k" by simp
      ultimately show ?thesis unfolding distrib_right by linarith
    qed
    ultimately show ?thesis by linarith
  qed
  have ge: "0 \<le> t" if "0 \<le> t div k" for t
    using that assms(2) by (simp add: pos_imp_zdiv_nonneg_iff)
  have u: "(\<Union>(y, x) \<in> bm_pixels b. set (?t y x)) = {(y, x). (y div k, x div k) \<in> bm_pixels b}"
  proof (intro set_eqI iffI)
    fix p assume "p \<in> (\<Union>(y, x) \<in> bm_pixels b. set (?t y x))"
    then obtain y x where "(y, x) \<in> bm_pixels b" "p \<in> set (?t y x)" by blast
    then show "p \<in> {(y, x). (y div k, x div k) \<in> bm_pixels b}" using mem by (cases p) (simp del: set_map)
  next
    fix p assume "p \<in> {(y, x). (y div k, x div k) \<in> bm_pixels b}"
    then obtain y x where "p = (y, x)" "(y div k, x div k) \<in> bm_pixels b" by blast
    moreover from this mem have "p \<in> set (?t (y div k) (x div k))" by (simp del: set_map)
    ultimately show "p \<in> (\<Union>(y, x) \<in> bm_pixels b. set (?t y x))" by blast
  qed
  have "0 \<le> y \<and> y < bm_height b * k \<and> 0 \<le> x \<and> x < bm_width b * k"
    if "(y div k, x div k) \<in> bm_pixels b" for y x
    using bm_pixels_range [OF assms(1) that] lt [of y] lt [of x] ge [of y] ge [of x] by blast
  then have "(\<Union>(y, x) \<in> bm_pixels b. set (?t y x))
      \<subseteq> {(y, x). 0 \<le> y \<and> y < bm_height b * k \<and> 0 \<le> x \<and> x < bm_width b * k}"
    unfolding u by blast
  then show ?thesis
    unfolding replicate_pixels_def Let_def u [symmetric] by (rule copy_new_bitmap [OF assms(1) dim])
qed

lemma scaleGlyph_spec:
  assumes "bm_ok b" "1 \<le> k"
  shows "\<exists>b'. scaleGlyph b k = Val b' \<and> bm_ok b' \<and> bm_width b' = bm_width b * k
           \<and> bm_height b' = bm_height b * k
           \<and> bm_pixels b' = {(y, x). (y div k, x div k) \<in> bm_pixels b}"
proof (cases "k = 1")
  case True
  with assms show ?thesis by (simp add: scaleGlyph_def)
next
  case False
  with replicate_pixels_spec [OF assms] assms(2) show ?thesis by (simp add: scaleGlyph_def)
qed

lemma upscale_scaleGlyph: "upscale b k = scaleGlyph b k"
  by (simp add: upscale_def scaleGlyph_def)

lemma boldGlyph_spec:
  assumes "bm_ok b"
  shows "\<exists>b'. boldGlyph b = Val b' \<and> bm_ok b' \<and> bm_width b' = bm_width b \<and> bm_height b' = bm_height b
           \<and> bm_pixels b' = bm_pixels b \<union> {(y, x). (y, x - 1) \<in> bm_pixels b \<and> x < bm_width b}"
proof -
  let ?t = "\<lambda>y x. if x + 1 < bm_width b then [(y, x + 1)] else []"
  note rb = row_bytes_bounds [of "bm_width b"]
  from assms have l: "int (length (bm_bits b)) = row_bytes (bm_width b) * bm_height b" "0 \<le> bm_width b"
    by (auto simp: bm_ok_def)
  have "(\<Union>(y, x) \<in> bm_pixels b. set (?t y x))
      \<subseteq> {(y, x). 0 \<le> y \<and> y < bm_height b \<and> 0 \<le> x \<and> x < 8 * row_bytes (bm_width b)}"
    using bm_pixels_range [OF assms] rb l(2) by (fastforce split: if_splits)
  from copy_pixels_in [OF assms l(1) this] obtain bits where
    c: "copy_pixels b (row_bytes (bm_width b)) ?t (bm_bits b) = Val bits" "length bits = length (bm_bits b)"
      "pixels (row_bytes (bm_width b)) (bm_height b) bits = bm_pixels b \<union> (\<Union>(y, x) \<in> bm_pixels b. set (?t y x))"
    by (auto simp: bm_pixels_def)
  have u: "(\<Union>(y, x) \<in> bm_pixels b. set (?t y x)) = {(y, x). (y, x - 1) \<in> bm_pixels b \<and> x < bm_width b}"
    by (auto split: if_splits)
  let ?b = "\<lparr>bm_width = bm_width b, bm_height = bm_height b, bm_bits = bits\<rparr>"
  have "bm_pixels ?b = bm_pixels b \<union> {(y, x). (y, x - 1) \<in> bm_pixels b \<and> x < bm_width b}"
    using c(3) u by (simp add: bm_pixels_def)
  moreover from this have "bm_ok ?b" using assms c(2) by (auto simp: bm_ok_def)
  ultimately show ?thesis using c(1) by (auto simp: boldGlyph_def)
qed

lemma italicGlyph_spec:
  assumes "bm_ok b"
  shows "\<exists>b'. italicGlyph b = Val b' \<and> bm_ok b' \<and> bm_width b' = bm_width b \<and> bm_height b' = bm_height b
           \<and> bm_pixels b' = {(y, x). (y, x - italicShear (bm_height b) y) \<in> bm_pixels b
                              \<and> 0 \<le> x \<and> x < bm_width b}"
proof -
  let ?t = "\<lambda>y x. let sx = x + italicShear (bm_height b) y in if sx < 0 \<or> sx \<ge> bm_width b then [] else [(y, sx)]"
  from assms have dim: "0 \<le> bm_width b" "0 \<le> bm_height b"
    and l: "int (length (bm_bits b)) = row_bytes (bm_width b) * bm_height b" by (auto simp: bm_ok_def)
  have "(\<Union>(y, x) \<in> bm_pixels b. set (?t y x))
      \<subseteq> {(y, x). 0 \<le> y \<and> y < bm_height b \<and> 0 \<le> x \<and> x < bm_width b}"
    using bm_pixels_range [OF assms] by (fastforce simp: Let_def split: if_splits)
  from copy_new_bitmap [OF assms dim this] obtain b' where
    b': "go_bind (make_bytes (row_bytes (bm_width b) * bm_height b))
       (\<lambda>bits. go_bind (copy_pixels b (row_bytes (bm_width b)) ?t bits)
          (\<lambda>bits. Val \<lparr>bm_width = bm_width b, bm_height = bm_height b, bm_bits = bits\<rparr>)) = Val b'"
    "bm_ok b'" "bm_width b' = bm_width b" "bm_height b' = bm_height b"
    "bm_pixels b' = (\<Union>(y, x) \<in> bm_pixels b. set (?t y x))"
    by blast
  have "length (bm_bits b) = nat (row_bytes (bm_width b) * bm_height b)" using l by linarith
  moreover have "0 \<le> row_bytes (bm_width b) * bm_height b" using l by linarith
  ultimately have "italicGlyph b = Val b'" using b'(1) by (simp add: italicGlyph_def make_bytes_def)
  moreover have "(\<Union>(y, x) \<in> bm_pixels b. set (?t y x))
      = {(y, x). (y, x - italicShear (bm_height b) y) \<in> bm_pixels b \<and> 0 \<le> x \<and> x < bm_width b}"
    by (auto simp: Let_def split: if_splits)
  ultimately show ?thesis using b' by auto
qed

lemma alignBitmap_spec:
  assumes "bm_ok b" "align = ''center'' \<or> align = ''right''" "bm_width b < w"
  shows "\<exists>b'. alignBitmap b align w = Val b' \<and> bm_ok b' \<and> bm_width b' = w \<and> bm_height b' = bm_height b
           \<and> bm_pixels b' = (\<lambda>(y, x). (y, x + (if align = ''center'' then (w - bm_width b) div 2 else w - bm_width b)))
               ` bm_pixels b"
proof -
  let ?o = "if align = ''center'' then (w - bm_width b) div 2 else w - bm_width b"
  let ?t = "\<lambda>y x. [(y, x + ?o)]"
  from assms have dim: "0 \<le> w" "0 \<le> bm_height b" "0 < w" by (auto simp: bm_ok_def)
  have o: "0 \<le> ?o" "bm_width b + ?o \<le> w" using assms(3) by auto
  have "(\<Union>(y, x) \<in> bm_pixels b. set (?t y x)) \<subseteq> {(y, x). 0 \<le> y \<and> y < bm_height b \<and> 0 \<le> x \<and> x < w}"
    using bm_pixels_range [OF assms(1)] o by fastforce
  from copy_new_bitmap [OF assms(1) dim(1,2) this] obtain b' where
    b': "go_bind (make_bytes (row_bytes w * bm_height b))
       (\<lambda>bits. go_bind (copy_pixels b (row_bytes w) ?t bits)
          (\<lambda>bits. Val \<lparr>bm_width = w, bm_height = bm_height b, bm_bits = bits\<rparr>)) = Val b'"
    "bm_ok b'" "bm_width b' = w" "bm_height b' = bm_height b"
    "bm_pixels b' = (\<Union>(y, x) \<in> bm_pixels b. set (?t y x))"
    by blast
  have "(if align = ''center'' then (w - bm_width b) sdiv 2 else w - bm_width b) = ?o"
    using assms(3) by (simp add: sdiv_pos)
  with b'(1) assms(2,3) dim(3) have "alignBitmap b align w = Val b'"
    by (auto simp: alignBitmap_def Let_def)
  moreover have "(\<Union>(y, x) \<in> bm_pixels b. set (?t y x)) = (\<lambda>(y, x). (y, x + ?o)) ` bm_pixels b"
    by auto
  ultimately show ?thesis using b' by auto
qed

text \<open>\<open>rasterizeImage\<close> samples the nearest source pixel and thresholds it.\<close>

definition sampled :: "image \<Rightarrow> int \<Rightarrow> int \<Rightarrow> int \<Rightarrow> int \<Rightarrow> bool" where
  "sampled img w h y x =
     darkOverWhite (img_at img (img_min_x img + x * img_dx img div w) (img_min_y img + y * img_dy img div h))"

lemma rasterizeImage_spec:
  assumes "0 \<le> w" "0 \<le> h" "0 \<le> img_dx img" "0 \<le> img_dy img"
  shows "\<exists>b. rasterizeImage img w h = Val b \<and> bm_ok b \<and> bm_width b = w \<and> bm_height b = h
           \<and> bm_pixels b = {(y, x). 0 \<le> y \<and> y < h \<and> 0 \<le> x \<and> x < w \<and> sampled img w h y x}"
proof -
  let ?ink = "\<lambda>y x. go_bind (go_div (y * img_dy img) h) (\<lambda>dy. go_bind (go_div (x * img_dx img) w) (\<lambda>dx.
                 Val (darkOverWhite (img_at img (img_min_x img + dx) (img_min_y img + dy)))))"
  have "\<forall>(y, x) \<in> set (grid w h). ?ink y x = Val (sampled img w h y x)"
    using assms by (auto simp: set_grid go_div_pos sampled_def)
  from raster_in [OF assms(1,2) this] show ?thesis
    by (auto simp: rasterizeImage_def)
qed

lemma darkOverWhite_int:
  assumes "0 \<le> r" "r \<le> a" "0 \<le> g" "g \<le> a" "0 \<le> b" "b \<le> a" "a \<le> 0xffff"
  shows "darkOverWhite (r, g, b, a) \<longleftrightarrow>
    (r + (0xffff - a)) * 299 div 1000 + (g + (0xffff - a)) * 587 div 1000
      + (b + (0xffff - a)) * 114 div 1000 < 0x8000"
proof -
  have u: "uint (word_of_int z :: 32 word) = z" if "0 \<le> z" "z < 2 ^ 32" for z
    using that by (simp add: uint_word_of_int)
  define wh where "wh = 0xffff - a"
  have wh: "0 \<le> wh" "wh \<le> 0xffff" "r + wh \<le> 0xffff" "g + wh \<le> 0xffff" "b + wh \<le> 0xffff"
    using assms by (auto simp: wh_def)
  have trm: "(word_of_int c + (0xffff - word_of_int a)) * numeral k div 1000
      = (word_of_int ((c + wh) * numeral k div 1000) :: 32 word)"
    if "0 \<le> c" "c + wh \<le> 0xffff" "numeral k \<le> (1000::int)" for c k
  proof -
    have e: "(word_of_int c + (0xffff - word_of_int a)) * numeral k = (word_of_int ((c + wh) * numeral k) :: 32 word)"
      by (simp add: wh_def)
    have "(c + wh) * numeral k \<le> 0xffff * 1000" using that wh by (intro mult_mono) auto
    moreover have "0 \<le> (c + wh) * numeral k" using that wh by simp
    ultimately have v: "uint (word_of_int ((c + wh) * numeral k) :: 32 word) = (c + wh) * numeral k"
      by (intro u) auto
    show ?thesis unfolding e word_div_def v by simp
  qed
  have bound: "0 \<le> (c + wh) * k div 1000 \<and> (c + wh) * k div 1000 \<le> 0xffff" if "0 \<le> c" "c + wh \<le> 0xffff" "0 \<le> k" "k \<le> 1000" for c k
  proof -
    have "(c + wh) * k \<le> 0xffff * 1000" "0 \<le> (c + wh) * k"
      using that wh mult_mono [of "c + wh" "0xffff" k 1000] by auto
    then show ?thesis by linarith
  qed
  let ?s = "(r + wh) * 299 div 1000 + (g + wh) * 587 div 1000 + (b + wh) * 114 div 1000"
  have "darkOverWhite (r, g, b, a) \<longleftrightarrow> (word_of_int ?s :: 32 word) < 0x8000"
  proof -
    have t: "(word_of_int r + (0xffff - word_of_int a)) * 299 div 1000 = (word_of_int ((r + wh) * 299 div 1000) :: 32 word)"
      "(word_of_int g + (0xffff - word_of_int a)) * 587 div 1000 = (word_of_int ((g + wh) * 587 div 1000) :: 32 word)"
      "(word_of_int b + (0xffff - word_of_int a)) * 114 div 1000 = (word_of_int ((b + wh) * 114 div 1000) :: 32 word)"
      by (rule trm; use assms wh in simp)+
    show ?thesis unfolding darkOverWhite_def prod.case Let_def t by (simp only: wi_hom_add)
  qed
  also have "\<dots> \<longleftrightarrow> ?s < 0x8000"
  proof -
    have "0 \<le> ?s" "?s \<le> 3 * 0xffff"
      using bound [of r 299] bound [of g 587] bound [of b 114] assms wh by auto
    then have "uint (word_of_int ?s :: 32 word) = ?s" by (intro u) auto
    then show ?thesis unfolding word_less_def by simp
  qed
  finally show ?thesis by (simp add: wh_def)
qed

section \<open>Properties\<close>

text \<open>The pixels of a styled glyph, said without bytes: scaled squares, overdrawn, sheared.\<close>

definition scaled_px :: "int \<Rightarrow> (int \<times> int) set \<Rightarrow> (int \<times> int) set" where
  "scaled_px k P = {(y, x). (y div k, x div k) \<in> P}"

definition bold_px :: "int \<Rightarrow> (int \<times> int) set \<Rightarrow> (int \<times> int) set" where
  "bold_px w P = P \<union> {(y, x). (y, x - 1) \<in> P \<and> x < w}"

definition italic_px :: "int \<Rightarrow> int \<Rightarrow> (int \<times> int) set \<Rightarrow> (int \<times> int) set" where
  "italic_px w h P = {(y, x). (y, x - italicShear h y) \<in> P \<and> 0 \<le> x \<and> x < w}"

definition styled_px :: "style \<Rightarrow> int \<Rightarrow> int \<Rightarrow> (int \<times> int) set \<Rightarrow> (int \<times> int) set" where
  "styled_px st w h P =
     (let k = sty_size st; P = scaled_px k P;
          P = (if sty_bold st then bold_px (w * k) P else P)
      in if sty_italic st then italic_px (w * k) (h * k) P else P)"

lemma styleGlyph_spec:
  assumes "bm_ok b" and "1 \<le> sty_size st"
  shows "\<exists>b'. styleGlyph b st = Val b' \<and> bm_ok b'
           \<and> bm_width b' = bm_width b * sty_size st \<and> bm_height b' = bm_height b * sty_size st
           \<and> bm_pixels b' = styled_px st (bm_width b) (bm_height b) (bm_pixels b)"
proof -
  let ?k = "sty_size st"
  obtain b1 where b1: "scaleGlyph b ?k = Val b1" "bm_ok b1" "bm_width b1 = bm_width b * ?k"
    "bm_height b1 = bm_height b * ?k" "bm_pixels b1 = scaled_px ?k (bm_pixels b)"
    using scaleGlyph_spec [OF assms] unfolding scaled_px_def by blast
  have "\<exists>b2. (if sty_bold st then boldGlyph b1 else Val b1) = Val b2 \<and> bm_ok b2
      \<and> bm_width b2 = bm_width b1 \<and> bm_height b2 = bm_height b1
      \<and> bm_pixels b2 = (if sty_bold st then bold_px (bm_width b1) (bm_pixels b1) else bm_pixels b1)"
    using boldGlyph_spec [OF b1(2)] b1(2) by (simp add: bold_px_def)
  then obtain b2 where b2: "(if sty_bold st then boldGlyph b1 else Val b1) = Val b2" "bm_ok b2"
    "bm_width b2 = bm_width b1" "bm_height b2 = bm_height b1"
    "bm_pixels b2 = (if sty_bold st then bold_px (bm_width b1) (bm_pixels b1) else bm_pixels b1)"
    by blast
  have "\<exists>b3. (if sty_italic st then italicGlyph b2 else Val b2) = Val b3 \<and> bm_ok b3
      \<and> bm_width b3 = bm_width b2 \<and> bm_height b3 = bm_height b2
      \<and> bm_pixels b3 = (if sty_italic st then italic_px (bm_width b2) (bm_height b2) (bm_pixels b2)
                        else bm_pixels b2)"
    using italicGlyph_spec [OF b2(2)] b2(2) by (simp add: italic_px_def)
  then obtain b3 where b3: "(if sty_italic st then italicGlyph b2 else Val b2) = Val b3" "bm_ok b3"
    "bm_width b3 = bm_width b2" "bm_height b3 = bm_height b2"
    "bm_pixels b3 = (if sty_italic st then italic_px (bm_width b2) (bm_height b2) (bm_pixels b2)
                     else bm_pixels b2)"
    by blast
  have "styleGlyph b st = Val b3" by (simp add: styleGlyph_def b1(1) b2(1) b3(1))
  moreover have "bm_pixels b3 = styled_px st (bm_width b) (bm_height b) (bm_pixels b)"
    unfolding styled_px_def Let_def b3(5) b2(3-5) b1(3-5) by simp
  ultimately show ?thesis using b1 b2 b3 by auto
qed

text \<open>
  Styling a well-formed glyph never indexes out of range, scales both dimensions by the
  size exactly (bold and italic never change them), keeps the packed format, and sets exactly the
  pixels of the scaled, overdrawn and sheared glyph.
\<close>

lemma styled_glyph:
  assumes "bm_ok b" and "1 \<le> sty_size st"
  shows "\<exists>b'. styleGlyph b st = Val b' \<and> bm_ok b'
           \<and> bm_width b' = bm_width b * sty_size st \<and> bm_height b' = bm_height b * sty_size st
           \<and> bm_pixels b' = styled_px st (bm_width b) (bm_height b) (bm_pixels b)"
  using assms by (rule styleGlyph_spec)

lemma empty_bitmap_ok:
  "bm_ok \<lparr>bm_width = 9, bm_height = 1, bm_bits = [0, 0]\<rparr>"
proof -
  have "replicate (nat (row_bytes 9 * 1)) (0::byte) = [0, 0]"
    by (simp add: row_bytes_nonneg numeral_2_eq_2)
  with pixels_make [of "row_bytes 9" 1] show ?thesis
    by (simp add: bm_ok_def bm_pixels_def row_bytes_nonneg)
qed

lemma styled_glyph_witness:
  "\<exists>b'. styleGlyph \<lparr>bm_width = 9, bm_height = 1, bm_bits = [0, 0]\<rparr>
           \<lparr>sty_bold = True, sty_italic = True, sty_underline = False, sty_strikethrough = False, sty_size = 3\<rparr>
         = Val b' \<and> bm_width b' = 27"
  using styled_glyph [OF empty_bitmap_ok,
      of "\<lparr>sty_bold = True, sty_italic = True, sty_underline = False, sty_strikethrough = False, sty_size = 3\<rparr>"]
  by auto

text \<open>
  The order of bold and italic matters: a pixel of the first column of a row sheared to the
  left survives when it is made bold first and is lost when it is sheared first.
\<close>

definition corner_glyph :: bitmap where
  "corner_glyph = \<lparr>bm_width = 8, bm_height = 11, bm_bits = replicate 10 0 @ [0x80]\<rparr>"

lemma bold_italic_order_matters:
  "go_bind (boldGlyph corner_glyph) italicGlyph = Val corner_glyph
   \<and> go_bind (italicGlyph corner_glyph) boldGlyph
     = Val \<lparr>bm_width = 8, bm_height = 11, bm_bits = replicate 11 0\<rparr>"
  by code_simp

end
