(* ===== verification/Layout.thy ===== *)
theory Layout
  imports Bitmap
begin

text \<open>
  Package \<open>internal/render/layout\<close>, text: the \<open>Font\<close> interface (\<open>font.go\<close>) and its embedded
  implementation (\<open>embedded_font.go\<close>), word wrapping and sizes (\<open>build.go\<close>), and the lines of
  tables, columns and lists (\<open>align.go\<close>, \<open>table.go\<close>, \<open>columns.go\<close>, \<open>list.go\<close>).  A \<open>Font\<close> is
  a record of its three methods.  Its contract is the locale \<open>mono_font\<close>, whose lemmas give the
  termination and the exact result of the three space-padding loops, and which the embedded
  font satisfies by interpretation.
\<close>

section \<open>Fonts\<close>

record font =
  f_measure :: "string \<Rightarrow> int"
  f_line_height :: int
  f_glyph :: "rune \<Rightarrow> (bitmap \<times> int) res"

text \<open>
  What the code uses of \<open>basicfont.Face7x13\<close> (another module): the rounded advance of a rune, the
  rounded line height, and the glyph's width, height, mask and mask origin.
\<close>

record face =
  fc_advance :: "rune \<Rightarrow> int"
  fc_height :: int
  fc_glyph :: "rune \<Rightarrow> (int \<times> int) \<times> image \<times> (int \<times> int)"

definition nativeScale :: int where
  "nativeScale = 2"

definition embedded_measure :: "face \<Rightarrow> string \<Rightarrow> int" where
  "embedded_measure fc s = fold (\<lambda>(r, b) width. width + fc_advance fc r * nativeScale) (runes s) 0"

definition embedded_glyph :: "face \<Rightarrow> rune \<Rightarrow> (bitmap \<times> int) res" where
  "embedded_glyph fc r =
     (case fc_glyph fc r of ((dx, dy), msk, (mx, my)) \<Rightarrow>
        go_bind (packMask msk mx my dx dy) (\<lambda>bits.
        go_bind (upscale \<lparr>bm_width = dx, bm_height = dy, bm_bits = bits\<rparr> nativeScale) (\<lambda>bmp.
        Val (bmp, fc_advance fc r * nativeScale))))"

definition EmbeddedFont :: "face \<Rightarrow> font" where
  "EmbeddedFont fc =
     \<lparr>f_measure = embedded_measure fc, f_line_height = fc_height fc * nativeScale,
      f_glyph = embedded_glyph fc\<rparr>"

text \<open>
  Documented behaviour of \<open>basicfont.Face7x13\<close>: every rune, the replacement glyph included,
  advances 7 dots, has a 6 by 13 glyph, and lines are 13 high.
\<close>

definition face_7x13 :: "face \<Rightarrow> bool" where
  "face_7x13 fc \<longleftrightarrow> (\<forall>r. fc_advance fc r = 7) \<and> fc_height fc = 13
     \<and> (\<forall>r. fst (fc_glyph fc r) = (6, 13))"

section \<open>Padding with spaces\<close>

text \<open>
  \<open>for f.Measure(s+" ") <= budget { s += " " }\<close>, the loop of \<open>alignPad\<close>, \<open>padToWidth\<close> and
  \<open>listHangIndent\<close>.  Whether it ends depends on the font, so it is a partial function.
\<close>

partial_function (option) grow :: "(string \<Rightarrow> int) \<Rightarrow> int \<Rightarrow> string \<Rightarrow> string option" where
  "grow msr budget s =
     (if msr (s @ '' '') \<le> budget then grow msr budget (s @ '' '') else Some s)"

definition alignPad :: "string \<Rightarrow> string \<Rightarrow> int \<Rightarrow> font \<Rightarrow> int \<Rightarrow> string option" where
  "alignPad content align width f sz =
     (if align \<noteq> ''center'' \<and> align \<noteq> ''right'' then Some content
      else
        let contentWidth = f_measure f content * sz in
        if width \<le> 0 \<or> contentWidth \<ge> width then Some content
        else
          let avail = width - contentWidth;
              avail = (if align = ''center'' then avail sdiv 2 else avail)
          in map_option (\<lambda>prefix. prefix @ content) (grow (\<lambda>s. f_measure f s * sz) avail ''''))"

definition padToWidth :: "string \<Rightarrow> int \<Rightarrow> font \<Rightarrow> string option" where
  "padToWidth s width f = grow (f_measure f) width s"

definition listHangIndent :: "string \<Rightarrow> font \<Rightarrow> string option" where
  "listHangIndent prefix f = grow (f_measure f) (f_measure f prefix) ''''"

section \<open>Sizes and wrapping\<close>

definition ResolveSize :: "int \<Rightarrow> int" where
  "ResolveSize sz = (if sz < 1 then 1 else sz)"

definition normalStyle :: style where
  "normalStyle = \<lparr>sty_bold = False, sty_italic = False, sty_underline = False,
                  sty_strikethrough = False, sty_size = 1\<rparr>"

definition headingStyle :: style where
  "headingStyle = \<lparr>sty_bold = True, sty_italic = False, sty_underline = False,
                   sty_strikethrough = False, sty_size = 2\<rparr>"

definition textStyle :: "text_el \<Rightarrow> style" where
  "textStyle t =
     \<lparr>sty_bold = t_bold t, sty_italic = t_italic t, sty_underline = t_underline t,
      sty_strikethrough = t_strikethrough t, sty_size = ResolveSize (t_size t)\<rparr>"

text \<open>The loop over \<open>words[1:]\<close>, with the lines so far and the line being filled.\<close>

fun wrap_words :: "(string \<Rightarrow> int) \<Rightarrow> int \<Rightarrow> string list \<Rightarrow> string \<Rightarrow> string list \<Rightarrow> string list" where
  "wrap_words msr width lines line [] = lines @ [line]"
| "wrap_words msr width lines line (w # ws) =
     (let candidate = line @ '' '' @ w in
      if msr candidate \<le> width then wrap_words msr width lines candidate ws
      else wrap_words msr width (lines @ [line]) w ws)"

definition wrapParagraph :: "string \<Rightarrow> int \<Rightarrow> font \<Rightarrow> int \<Rightarrow> string list" where
  "wrapParagraph p widthDots f sz =
     (case split_fields p of
        [] \<Rightarrow> ['''']
      | w # ws \<Rightarrow> wrap_words (\<lambda>s. f_measure f s * sz) widthDots [] w ws)"

definition wrapText :: "string \<Rightarrow> int \<Rightarrow> font \<Rightarrow> int \<Rightarrow> string list" where
  "wrapText content widthDots f sz =
     (let paragraphs = split_on (CHR 0x0A) content in
      if widthDots \<le> 0 then paragraphs
      else concat (map (\<lambda>p. wrapParagraph p widthDots f sz) paragraphs))"

section \<open>Tables and columns\<close>

definition tableColumnWidths :: "int \<Rightarrow> int \<Rightarrow> font \<Rightarrow> int list res" where
  "tableColumnWidths numCols widthDots f =
     (let gap = f_measure f '' '';
          budget = widthDots - (numCols - 1) * gap;
          budget = (if budget < numCols then numCols else budget) in
      go_bind (go_div budget numCols) (\<lambda>base.
        let widths = replicate (nat numCols) base; last = nat (numCols - 1)
        in Val (widths[last := widths ! last + budget smod numCols])))"

text \<open>
  Composing wrapped cells line by line, shared by \<open>tableRowLines\<close> and \<open>columnsLines\<close>: every cell
  but those of the last column is padded to its column and followed by a space.
\<close>

definition cell_of :: "string list \<Rightarrow> nat \<Rightarrow> string" where
  "cell_of col j = (if j < length col then col ! j else '''')"

definition compose_cells :: "string list list \<Rightarrow> int list \<Rightarrow> font \<Rightarrow> string list res" where
  "compose_cells cellLines widths f =
     (let maxLines = fold (\<lambda>c m. max m (length c)) cellLines 0 in
      go_fold (\<lambda>(i, col) lines.
          go_map (\<lambda>(j, acc).
              if Suc i = length cellLines then Val (acc @ cell_of col j)
              else if i < length widths
              then go_bind (go_of_option (padToWidth (cell_of col j) (widths ! i) f))
                     (\<lambda>cell. Val (acc @ cell @ '' ''))
              else Panic index_panic)
            (enumerate 0 lines))
        (enumerate 0 cellLines) (replicate maxLines ''''))"

definition tableRowLines :: "string list \<Rightarrow> int list \<Rightarrow> font \<Rightarrow> string list res" where
  "tableRowLines row colWidths f =
     go_bind (go_map (\<lambda>(i, cell).
         if i < length colWidths then Val (wrapText cell (colWidths ! i) f 1)
         else Panic index_panic) (enumerate 0 row))
       (\<lambda>cellLines. compose_cells cellLines colWidths f)"

definition tableLines :: "table_el \<Rightarrow> int \<Rightarrow> font \<Rightarrow> string list res" where
  "tableLines t widthDots f =
     (let rows = tb_headers t # tb_rows t in
      if widthDots \<le> 0 then Val (map (join_with '' '') rows)
      else go_bind (tableColumnWidths (int (length (tb_headers t))) widthDots f)
        (\<lambda>colWidths. go_bind (go_map (\<lambda>row. tableRowLines row colWidths f) rows)
          (\<lambda>ls. Val (concat ls))))"

definition columnWidths :: "column list \<Rightarrow> int \<Rightarrow> font \<Rightarrow> int list res" where
  "columnWidths cols widthDots f =
     (let numCols = int (length cols) in
      if widthDots \<le> 0 then Val (replicate (length cols) 0)
      else
        let gap = f_measure f '' '';
            budget = widthDots - (numCols - 1) * gap;
            budget = (if budget < numCols then numCols else budget);
            weight = map (\<lambda>c. ResolveSize (col_weight c)) cols;
            totalWeight = sum_list weight in
        go_bind (go_map (\<lambda>w. go_div (budget * w) totalWeight) weight) (\<lambda>widths.
          if widths = [] then Panic index_panic
          else let last = length widths - 1
               in Val (widths[last := widths ! last + (budget - sum_list widths)])))"

text \<open>\<open>%T\<close> of an element.\<close>

fun element_type :: "element option \<Rightarrow> string" where
  "element_type None = ''<nil>''"
| "element_type (Some (EText _)) = ''receipt.Text''"
| "element_type (Some (EHeading _)) = ''receipt.Heading''"
| "element_type (Some (EDivider _)) = ''receipt.Divider''"
| "element_type (Some (ESpacer _)) = ''receipt.Spacer''"
| "element_type (Some (EImage _)) = ''receipt.Image''"
| "element_type (Some (EAsset _)) = ''receipt.Asset''"
| "element_type (Some (EQRCode _)) = ''receipt.QRCode''"
| "element_type (Some (EBarcode _)) = ''receipt.Barcode''"
| "element_type (Some (ETable _)) = ''receipt.Table''"
| "element_type (Some (EList _)) = ''receipt.List''"
| "element_type (Some (EFeed _)) = ''receipt.Feed''"
| "element_type (Some (ECut _)) = ''receipt.Cut''"
| "element_type (Some (EColumns _)) = ''receipt.Columns''"

fun columnLines :: "element option list \<Rightarrow> int \<Rightarrow> font \<Rightarrow> string list res" where
  "columnLines [] width f = Val []"
| "columnLines (el # els) width f =
     (case el of
        Some (EText t) \<Rightarrow>
          go_bind (columnLines els width f) (\<lambda>ls. Val (wrapText (t_content t) width f 1 @ ls))
      | _ \<Rightarrow> Fail (errorf ''column: unsupported element type %T inside a column''
                     [FStr (element_type el)]))"

definition columnsLines :: "column list \<Rightarrow> int \<Rightarrow> font \<Rightarrow> string list res" where
  "columnsLines cols widthDots f =
     go_bind (columnWidths cols widthDots f) (\<lambda>widths.
     go_bind (go_map (\<lambda>(i, col). columnLines (col_elements col) (widths ! i) f) (enumerate 0 cols))
       (\<lambda>cellLines. compose_cells cellLines widths f))"

section \<open>Lists\<close>

definition listIndentSpaces :: int where
  "listIndentSpaces = 2"

definition listMarker :: "string \<Rightarrow> int \<Rightarrow> list_item \<Rightarrow> string" where
  "listMarker kind number item =
     (if kind = ''number'' then sprintf ''%d. '' [FInt number]
      else if kind = ''checkbox'' then (if li_checked item then ''[x] '' else ''[ ] '')
      else ''- '')"

definition list_item_lines :: "string \<Rightarrow> int \<Rightarrow> font \<Rightarrow> nat \<times> list_item \<Rightarrow> string list res" where
  "list_item_lines kind widthDots f = (\<lambda>(i, item).
     (let n = li_indent item * listIndentSpaces in
      if n < 0 then Panic ''strings: negative Repeat count''
      else
        let prefix = replicate (nat n) (CHR '' '') @ listMarker kind (int i + 1) item;
            contentWidth =
              (if widthDots > 0
               then (let w = widthDots - f_measure f prefix in if w < 1 then 1 else w) else 0)
        in go_bind (go_of_option (listHangIndent prefix f)) (\<lambda>hang.
             Val (map (\<lambda>(j, line). if j = 0 then prefix @ line else hang @ line)
                   (enumerate 0 (wrapText (li_content item) contentWidth f 1))))))"

definition listLines :: "list_el \<Rightarrow> int \<Rightarrow> font \<Rightarrow> string list res" where
  "listLines l widthDots f =
     go_bind (go_map (list_item_lines (l_kind l) widthDots f) (enumerate 0 (l_items l)))
       (\<lambda>ls. Val (concat ls))"

section \<open>The font contract\<close>

text \<open>
  What layout and painting rely on: the empty text has no width, a space before or after a text
  adds the same positive width, every glyph is well formed and advances, and lines have a height.
\<close>

locale spaced_font =
  fixes f :: font and sp :: int
  assumes measure_Nil: "f_measure f '''' = 0"
    and measure_snoc: "f_measure f (s @ '' '') = f_measure f s + sp"
    and measure_Cons: "f_measure f (CHR '' '' # s) = sp + f_measure f s"
    and measure_nonneg: "0 \<le> f_measure f s"
    and space_pos: "0 < sp"
    and line_height_pos: "0 < f_line_height f"
    and glyph_ok: "\<exists>b a. f_glyph f r = Val (b, a) \<and> bm_ok b \<and> 0 \<le> a"

lemma grow_linear:
  assumes "\<And>t. msr (t @ '' '') = msr t + d" and "0 < (d::int)"
  shows "grow msr budget s = Some (s @ replicate (nat ((budget - msr s) div d)) (CHR '' ''))"
proof (induction "nat (budget - msr s)" arbitrary: s rule: less_induct)
  case less
  show ?case
  proof (cases "msr (s @ '' '') \<le> budget")
    case False
    then have "budget - msr s < d" using assms(1)[of s] by simp
    then have "(budget - msr s) div d \<le> 0"
      using assms(2) pos_imp_zdiv_neg_iff [of d "budget - msr s"] by (cases "budget < msr s") auto
    with False show ?thesis by (simp add: grow.simps)
  next
    case True
    have "nat (budget - msr (s @ '' '')) < nat (budget - msr s)" using assms True by simp
    note IH = less [OF this]
    have "(budget - msr s) div d = (budget - (msr s + d)) div d + 1"
      using assms(2) div_add_self2 [of d "budget - (msr s + d)"] by simp
    moreover have "0 \<le> (budget - (msr s + d)) div d"
      using True assms by (simp add: pos_imp_zdiv_nonneg_iff)
    ultimately have "nat ((budget - msr s) div d) = Suc (nat ((budget - (msr s + d)) div d))" by simp
    then show ?thesis using True IH assms(1)[of s] by (simp add: grow.simps[of _ _ s])
  qed
qed

context spaced_font
begin

lemma measure_spaces: "f_measure f (replicate n (CHR '' '') @ s) = int n * sp + f_measure f s"
  by (induction n) (simp_all add: measure_Cons distrib_right)

lemma measure_pad: "f_measure f (s @ replicate n (CHR '' '')) = f_measure f s + int n * sp"
proof (induction n)
  case (Suc n)
  have "s @ replicate (Suc n) (CHR '' '') = (s @ replicate n (CHR '' '')) @ '' ''"
    by (simp add: replicate_append_same)
  then show ?case using measure_snoc[of "s @ replicate n (CHR '' '')"] Suc
    by (simp add: distrib_right)
qed simp

lemma padToWidth_spec:
  "padToWidth s w f = Some (s @ replicate (nat ((w - f_measure f s) div sp)) (CHR '' ''))"
  unfolding padToWidth_def by (rule grow_linear [where msr = "f_measure f" and d = sp, OF measure_snoc space_pos])

lemma padToWidth_measure:
  assumes "padToWidth s w f = Some t"
  shows "f_measure f t = f_measure f s + (if f_measure f s \<le> w then (w - f_measure f s) div sp * sp else 0)"
proof -
  have t: "t = s @ replicate (nat ((w - f_measure f s) div sp)) (CHR '' '')"
    using assms padToWidth_spec by simp
  show ?thesis
  proof (cases "f_measure f s \<le> w")
    case True
    then have "0 \<le> (w - f_measure f s) div sp" using space_pos by (simp add: pos_imp_zdiv_nonneg_iff)
    then show ?thesis using True by (simp add: t measure_pad)
  next
    case False
    then have "(w - f_measure f s) div sp < 0" using space_pos by (simp add: pos_imp_zdiv_neg_iff)
    then show ?thesis using False by (simp add: t)
  qed
qed

lemma listHangIndent_spec:
  "listHangIndent p f = Some (replicate (nat (f_measure f p div sp)) (CHR '' ''))"
  unfolding listHangIndent_def
  using grow_linear [where msr = "f_measure f" and d = sp and budget = "f_measure f p" and s = "[]", OF measure_snoc space_pos] measure_Nil by simp

text \<open>The padding of an aligned line: as many spaces as fit in the share of the free width.\<close>

lemma alignPad_spec:
  assumes "1 \<le> k"
  shows "alignPad c align w f k = Some (replicate
     (if align \<in> {''center'', ''right''} \<and> f_measure f c * k < w
      then nat (((w - f_measure f c * k) div (if align = ''center'' then 2 else 1)) div (sp * k)) else 0)
     (CHR '' '') @ c)"
proof -
  have "grow (\<lambda>s. f_measure f s * k) b [] = Some (replicate (nat (b div (sp * k))) (CHR '' ''))" for b
    using grow_linear [of "\<lambda>s. f_measure f s * k" "sp * k" b "[]"] assms space_pos measure_Nil
    by (simp add: measure_snoc distrib_right)
  moreover have "0 < w" if "f_measure f c * k < w"
    using that assms measure_nonneg[of c] by (smt (verit) mult_nonneg_nonneg)
  ultimately show ?thesis
    by (auto simp: alignPad_def Let_def sdiv_pos)
qed

lemma alignPad_fits:
  assumes "1 \<le> k" and "alignPad c align w f k = Some line" and "f_measure f c * k \<le> w"
  shows "f_measure f line * k \<le> w"
proof -
  let ?a = "(w - f_measure f c * k) div (if align = ''center'' then 2 else 1)"
  have a: "0 \<le> ?a" "?a \<le> w - f_measure f c * k" using assms(3) by auto
  have k: "0 < sp * k" using assms(1) space_pos by simp
  have "?a div (sp * k) * (sp * k) \<le> ?a" using k by (simp add: minus_mod_eq_div_mult [symmetric])
  moreover have "0 \<le> ?a div (sp * k)" using a(1) k by (simp add: pos_imp_zdiv_nonneg_iff)
  ultimately show ?thesis
    using assms(2,3) a unfolding alignPad_spec [OF assms(1)]
    by (auto simp: measure_spaces algebra_simps split: if_splits)
qed

end

text \<open>The embedded font satisfies it, with a space of 14 dots.\<close>

lemma embedded_measure_count:
  "face_7x13 fc \<Longrightarrow> embedded_measure fc s = 14 * int (length (runes s))"
proof -
  assume fc: "face_7x13 fc"
  have "fold (\<lambda>(r, b) width. width + fc_advance fc r * nativeScale) rs n = n + 14 * int (length rs)" for rs n
    using fc by (induction rs arbitrary: n) (auto simp: face_7x13_def nativeScale_def)
  from this[of "runes s" 0] show ?thesis by (simp add: embedded_measure_def)
qed

lemma embedded_glyph_ok:
  assumes "face_7x13 fc"
  shows "\<exists>b. embedded_glyph fc r = Val (b, 14) \<and> bm_ok b \<and> bm_width b = 12 \<and> bm_height b = 26"
proof -
  obtain msk mx my where g: "fc_glyph fc r = ((6, 13), msk, mx, my)"
    using assms by (cases "fc_glyph fc r") (auto simp: face_7x13_def dest: spec[of _ r])
  have "\<forall>(y, x) \<in> set (grid 6 13). Val (case img_at msk (mx + x) (my + y) of (_, _, _, a) \<Rightarrow> a \<ge> 2 ^ 15)
      = (Val (case img_at msk (mx + x) (my + y) of (_, _, _, a) \<Rightarrow> a \<ge> 2 ^ 15) :: bool res)" by simp
  from raster_in [OF _ _ this] obtain bits where b: "packMask msk mx my 6 13 = Val bits"
    "bm_ok \<lparr>bm_width = 6, bm_height = 13, bm_bits = bits\<rparr>"
    by (auto simp: packMask_def)
  from scaleGlyph_spec [OF b(2), of 2] g b(1) assms show ?thesis
    by (auto simp: embedded_glyph_def upscale_scaleGlyph nativeScale_def face_7x13_def)
qed

text \<open>The faces of that description, one for every choice of the glyphs.\<close>

definition mono_face :: "(rune \<Rightarrow> image \<times> (int \<times> int)) \<Rightarrow> face" where
  "mono_face g = \<lparr>fc_advance = (\<lambda>_. 7), fc_height = 13, fc_glyph = (\<lambda>r. ((6, 13), g r))\<rparr>"

lemma mono_face_7x13 [simp]: "face_7x13 (mono_face g)"
  by (simp add: face_7x13_def mono_face_def)

lemma face_7x13_mono: "face_7x13 fc \<Longrightarrow> fc = mono_face (\<lambda>r. snd (fc_glyph fc r))"
  by (cases fc) (auto simp: face_7x13_def mono_face_def fun_eq_iff prod_eq_iff)

interpretation embedded: spaced_font "EmbeddedFont (mono_face g)" 14 for g
proof
  fix s r
  note m = embedded_measure_count [OF mono_face_7x13]
  show "f_measure (EmbeddedFont (mono_face g)) '''' = 0" by (simp add: EmbeddedFont_def m)
  show "f_measure (EmbeddedFont (mono_face g)) (s @ '' '') = f_measure (EmbeddedFont (mono_face g)) s + 14"
    by (simp add: EmbeddedFont_def m runes_snoc_ascii)
  show "f_measure (EmbeddedFont (mono_face g)) (CHR '' '' # s) = 14 + f_measure (EmbeddedFont (mono_face g)) s"
    by (simp add: EmbeddedFont_def m runes_ascii_Cons)
  show "0 \<le> f_measure (EmbeddedFont (mono_face g)) s" by (simp add: EmbeddedFont_def m)
  show "0 < f_line_height (EmbeddedFont (mono_face g))"
    by (simp add: EmbeddedFont_def mono_face_def nativeScale_def)
  show "\<exists>b a. f_glyph (EmbeddedFont (mono_face g)) r = Val (b, a) \<and> bm_ok b \<and> 0 \<le> a"
    using embedded_glyph_ok [OF mono_face_7x13, of g r] by (auto simp: EmbeddedFont_def)
qed simp

section \<open>Wrapping is greedy and keeps every word\<close>

text \<open>
  What wrapping promises, over the words alone: the lines partition them in order, no line is
  empty, a line of several words fits, and the first word of a line did not fit on the one before.
\<close>

definition greedy_lines :: "(string \<Rightarrow> int) \<Rightarrow> int \<Rightarrow> string list \<Rightarrow> string list list \<Rightarrow> bool" where
  "greedy_lines msr width ws lines \<longleftrightarrow>
     concat lines = ws \<and> [] \<notin> set lines
   \<and> (\<forall>l \<in> set lines. length l = 1 \<or> msr (join_with '' '' l) \<le> width)
   \<and> successively (\<lambda>a b. msr (join_with '' '' a @ '' '' @ hd b) > width) lines"

lemma wrap_words_greedy:
  assumes "cur \<noteq> []" and "length cur = 1 \<or> msr (join_with '' '' cur) \<le> width"
  shows "\<exists>ls. wrap_words msr width lines (join_with '' '' cur) ws = lines @ map (join_with '' '') ls
           \<and> ls \<noteq> [] \<and> hd (hd ls) = hd cur \<and> greedy_lines msr width (cur @ ws) ls"
  using assms
proof (induction ws arbitrary: cur lines)
  case Nil
  then show ?case by (intro exI[of _ "[cur]"]) (auto simp: greedy_lines_def)
next
  case (Cons w ws)
  let ?c = "join_with '' '' (cur @ [w])"
  have c: "join_with '' '' cur @ '' '' @ w = ?c" using Cons.prems(1) by (simp add: join_with_snoc)
  show ?case
  proof (cases "msr ?c \<le> width")
    case True
    from Cons.IH [of "cur @ [w]" lines] True obtain ls where
      "wrap_words msr width lines ?c ws = lines @ map (join_with '' '') ls" "ls \<noteq> []"
      "hd (hd ls) = hd (cur @ [w])" "greedy_lines msr width (cur @ w # ws) ls" by auto
    with True c Cons.prems(1) show ?thesis by (intro exI[of _ ls]) simp
  next
    case False
    from Cons.IH [of "[w]" "lines @ [join_with '' '' cur]"] obtain ls where
      ls: "wrap_words msr width (lines @ [join_with '' '' cur]) w ws
             = lines @ join_with '' '' cur # map (join_with '' '') ls" "ls \<noteq> []" "hd (hd ls) = w"
      "greedy_lines msr width (w # ws) ls" by auto
    then have "greedy_lines msr width (cur @ w # ws) (cur # ls)"
      using Cons.prems False c by (cases ls) (auto simp: greedy_lines_def)
    with ls False c Cons.prems(1) show ?thesis by (intro exI[of _ "cur # ls"]) simp
  qed
qed

lemma wrapParagraph_greedy:
  "\<exists>ls. wrapParagraph p w f k = (if ls = [] then [''''] else map (join_with '' '') ls)
      \<and> greedy_lines (\<lambda>s. f_measure f s * k) w (split_fields p) ls"
proof (cases "split_fields p")
  case Nil
  then show ?thesis by (intro exI[of _ "[]"]) (simp add: wrapParagraph_def greedy_lines_def)
next
  case (Cons v ws)
  from wrap_words_greedy [of "[v]" "\<lambda>s. f_measure f s * k" w "[]" ws] Cons show ?thesis
    by (auto simp: wrapParagraph_def)
qed

section \<open>Column widths\<close>

lemma go_map_Val: "(\<And>x. x \<in> set xs \<Longrightarrow> h x = Val (g x)) \<Longrightarrow> go_map h xs = Val (map g xs)"
  by (induction xs) simp_all

lemma sum_list_update_last:
  fixes ws :: "int list"
  assumes "ws \<noteq> []"
  shows "sum_list (ws[length ws - 1 := ws ! (length ws - 1) + d]) = sum_list ws + d"
  using assms by (cases ws rule: rev_cases) (simp_all add: list_update_append nth_append)

lemma adjust_last:
  fixes ws :: "int list"
  assumes "ws \<noteq> []" and "\<forall>w \<in> set ws. 0 \<le> w" and "sum_list ws \<le> b"
  shows "length (ws[length ws - 1 := ws ! (length ws - 1) + (b - sum_list ws)]) = length ws
    \<and> sum_list (ws[length ws - 1 := ws ! (length ws - 1) + (b - sum_list ws)]) = b
    \<and> (\<forall>w \<in> set (ws[length ws - 1 := ws ! (length ws - 1) + (b - sum_list ws)]). 0 \<le> w)"
proof -
  have "0 \<le> ws ! (length ws - 1)" using assms(1,2) by (auto intro: nth_mem)
  with assms show ?thesis
    using set_update_subset_insert [of ws "length ws - 1" "ws ! (length ws - 1) + (b - sum_list ws)"]
      sum_list_update_last [OF assms(1), of "b - sum_list ws"]
    by auto
qed

lemma ResolveSize_ge_1 [simp]: "1 \<le> ResolveSize k"
  by (simp add: ResolveSize_def)

lemma div_share_sum:
  fixes b t :: int
  assumes "0 < t" "0 \<le> b" "\<forall>w \<in> set ws. 0 \<le> w"
  shows "t * (\<Sum>w\<leftarrow>ws. b * w div t) \<le> b * sum_list ws"
  using assms(3)
proof (induction ws)
  case (Cons w ws)
  have "t * (b * w div t) \<le> b * w"
  proof -
    have "t * (b * w div t) + b * w mod t = b * w" "0 \<le> b * w mod t" using assms(1) by simp_all
    then show ?thesis by linarith
  qed
  with Cons show ?case by (simp add: distrib_left)
qed simp

lemma columnWidths_spec:
  assumes "cols \<noteq> []" and "0 < width"
  shows "\<exists>ws. columnWidths cols width f = Val ws \<and> length ws = length cols \<and> (\<forall>w \<in> set ws. 0 \<le> w)
    \<and> sum_list ws = max (width - (int (length cols) - 1) * f_measure f '' '') (int (length cols))"
proof -
  let ?n = "int (length cols)"
  let ?full = "width - (?n - 1) * f_measure f '' ''"
  let ?b = "if ?full < ?n then ?n else ?full"
  let ?ws = "map (\<lambda>c. ResolveSize (col_weight c)) cols"
  let ?t = "sum_list ?ws"
  let ?shares = "map (\<lambda>w. ?b * w div ?t) ?ws"
  have b: "0 \<le> ?b" by auto
  have t: "0 < ?t"
    using assms(1) by (cases cols) (auto intro!: add_pos_nonneg sum_list_nonneg simp: ResolveSize_def)
  have nn: "\<forall>w \<in> set ?ws. 0 \<le> w" by (auto simp: ResolveSize_def)
  have m: "go_map (\<lambda>w. go_div (?b * w) ?t) ?ws = Val ?shares"
    by (rule go_map_Val) (use nn b t in \<open>auto intro!: go_div_pos\<close>)
  have share: "?t * sum_list ?shares \<le> ?b * ?t"
    using div_share_sum [OF t b nn] by simp
  then have rest: "0 \<le> ?b - sum_list ?shares"
    using t by (simp add: mult.commute mult_le_cancel_left_pos)
  let ?last = "length ?shares - 1"
  let ?r = "?shares[?last := ?shares ! ?last + (?b - sum_list ?shares)]"
  have ne: "?shares \<noteq> []" using assms(1) by simp
  let ?fix = "\<lambda>widths. if widths = [] then Panic index_panic
        else let last = length widths - 1 in Val (widths[last := widths ! last + (?b - sum_list widths)]) :: int list res"
  have wd: "(width \<le> 0) = False" using assms(2) by simp
  have "columnWidths cols width f = go_bind (go_map (\<lambda>w. go_div (?b * w) ?t) ?ws) ?fix"
    unfolding columnWidths_def Let_def wd if_False ..
  also have "\<dots> = ?fix ?shares" unfolding m go_bind.simps ..
  also have "\<dots> = Val ?r"
  proof -
    have "?fix ws = Val (ws[length ws - 1 := ws ! (length ws - 1) + (?b - sum_list ws)])" if "ws \<noteq> []" for ws
      using that by (simp only: if_False Let_def)
    from this [OF ne] show ?thesis .
  qed
  finally have val: "columnWidths cols width f = Val ?r" .
  have "(if x < y then y else x) = max x y" for x y :: int by simp
  then have b_max: "?b = max ?full ?n" .
  have "\<forall>w \<in> set ?shares. 0 \<le> w" using nn b t by (auto intro!: pos_imp_zdiv_nonneg_iff[THEN iffD2])
  from adjust_last [OF ne this, of ?b] rest
  have "length ?r = length ?shares" "sum_list ?r = ?b" "\<forall>w \<in> set ?r. 0 \<le> w"
    unfolding diff_ge_0_iff_ge by blast+
  then show ?thesis using val unfolding b_max length_map by blast
qed

lemma tableColumnWidths_spec:
  assumes "0 < n" and "0 < width"
  shows "\<exists>ws. tableColumnWidths n width f = Val ws \<and> length ws = nat n
    \<and> (\<forall>w \<in> set ws. 1 \<le> w \<and> max (width - (n - 1) * f_measure f '' '') n div n \<le> w)
    \<and> sum_list ws = max (width - (n - 1) * f_measure f '' '') n"
proof -
  define b where "b = max (width - (n - 1) * f_measure f '' '') n"
  have b: "(if width - (n - 1) * f_measure f '' '' < n then n else width - (n - 1) * f_measure f '' '') = b"
    by (simp add: b_def)
  have nb: "n \<le> b" by (simp add: b_def)
  let ?ws = "replicate (nat n) (b div n)"
  let ?last = "nat (n - 1)"
  let ?r = "?ws[?last := ?ws ! ?last + b mod n]"
  have base: "1 \<le> b div n" using nb assms(1) by (simp add: pos_imp_zdiv_pos_iff int_one_le_iff_zero_less)
  have last: "?last = length ?ws - 1" by simp
  have "b smod n = b mod n"
    using nb assms(1) by (simp add: signed_modulo_int_def sgn_if)
  then have "tableColumnWidths n width f = Val ?r"
    unfolding tableColumnWidths_def Let_def b using nb assms(1) by (simp add: go_div_pos)
  moreover have "sum_list ?r = sum_list ?ws + b mod n"
    unfolding last by (rule sum_list_update_last) (use assms(1) in auto)
  then have "sum_list ?r = b" using assms(1) by (simp add: sum_list_replicate)
  moreover have "\<forall>w \<in> set ?r. 1 \<le> w \<and> b div n \<le> w"
    using base assms(1) by (auto dest!: set_update_subset_insert [THEN subsetD] intro: add_increasing2)
  ultimately show ?thesis unfolding b_def [symmetric] by (intro exI[of _ ?r]) simp
qed

section \<open>The lines of tables, columns and lists\<close>

lemma compose_cells_lengths: "go_map (\<lambda>x. g x) xs = Val ys \<Longrightarrow> length ys = length xs"
  by (rule go_map_length)

context spaced_font
begin

lemma compose_cells_safe:
  assumes "length cellLines \<le> length widths"
  shows "\<exists>ls. compose_cells cellLines widths f = Val ls \<and> length ls = fold (\<lambda>c m. max m (length c)) cellLines 0"
proof -
  let ?step = "\<lambda>(i, col) lines. go_map (\<lambda>(j, acc).
              if Suc i = length cellLines then Val (acc @ cell_of col j)
              else if i < length widths
              then go_bind (go_of_option (padToWidth (cell_of col j) (widths ! i) f))
                     (\<lambda>cell. Val (acc @ cell @ '' ''))
              else Panic index_panic)
            (enumerate 0 lines) :: string list res"
  have one: "\<exists>ls. ?step (i, col) lines = Val ls \<and> length ls = length lines"
    if "i < length cellLines" for i col lines
  proof -
    let ?g = "\<lambda>(j, acc). if Suc i = length cellLines then acc @ cell_of col j
       else acc @ (the (padToWidth (cell_of col j) (widths ! i) f)) @ '' ''"
    have "?step (i, col) lines = Val (map ?g (enumerate 0 lines))"
      unfolding prod.case by (rule go_map_Val) (use that assms padToWidth_spec in auto)
    then show ?thesis by simp
  qed
  have "\<exists>ls. go_fold ?step cs lines = Val ls \<and> length ls = length lines"
    if "\<forall>(i, col) \<in> set cs. i < length cellLines" for cs lines
    using that
  proof (induction cs arbitrary: lines)
    case (Cons c cs)
    obtain i col where c: "c = (i, col)" by (cases c)
    with Cons.prems one obtain l1 where "?step c lines = Val l1" "length l1 = length lines" by fastforce
    with Cons.IH [of l1] Cons.prems show ?case by simp
  qed simp
  moreover have "\<forall>(i, col) \<in> set (enumerate 0 cellLines). i < length cellLines"
    by (auto simp: in_set_enumerate_eq)
  ultimately have "\<exists>ls. go_fold ?step (enumerate 0 cellLines) lines = Val ls \<and> length ls = length lines" for lines
    by blast
  from this [of "replicate (fold (\<lambda>c m. max m (length c)) cellLines 0) []"] show ?thesis
    unfolding compose_cells_def Let_def by simp
qed

end

section \<open>What a composed row is, and that it fits\<close>

text \<open>\<open>padded\<close> is what column \<open>i\<close> contributes to a line: its cell, padded and spaced unless it is last.\<close>

definition padded :: "font \<Rightarrow> nat \<Rightarrow> int list \<Rightarrow> nat \<Rightarrow> string \<Rightarrow> string" where
  "padded f n widths i cell =
     (if Suc i = n then cell else the (padToWidth cell (widths ! i) f) @ '' '')"

locale mono_font = spaced_font +
  assumes measure_mid: "f_measure f (a @ '' '' @ b) = f_measure f a + sp + f_measure f b"

context spaced_font
begin

lemma compose_step:
  assumes "i < length cellLines" "length cellLines \<le> length widths"
  shows "go_map (\<lambda>(j, acc).
              if Suc i = length cellLines then Val (acc @ cell_of col j)
              else if i < length widths
              then go_bind (go_of_option (padToWidth (cell_of col j) (widths ! i) f))
                     (\<lambda>cell. Val (acc @ cell @ '' ''))
              else Panic index_panic)
            (enumerate 0 lines)
     = (Val (map (\<lambda>(j, acc). acc @ padded f (length cellLines) widths i (cell_of col j)) (enumerate 0 lines))
         :: string list res)"
  by (rule go_map_Val) (use assms padToWidth_spec in \<open>auto simp: padded_def\<close>)

lemma enumerate_map_enumerate:
  "enumerate n (map (\<lambda>(j, a). h j a) (enumerate n xs)) = map (\<lambda>(j, a). (j, h j a)) (enumerate n xs)"
  by (induction xs arbitrary: n) auto

lemma compose_cells_value:
  assumes len: "length cellLines \<le> length widths"
  shows "compose_cells cellLines widths f = Val (map
     (\<lambda>j. concat (map (\<lambda>(i, col). padded f (length cellLines) widths i (cell_of col j)) (enumerate 0 cellLines)))
     [0..<fold (\<lambda>c m. max m (length c)) cellLines 0])"
proof -
  let ?n = "length cellLines"
  let ?step = "\<lambda>(i, col) lines. go_map (\<lambda>(j, acc).
              if Suc i = length cellLines then Val (acc @ cell_of col j)
              else if i < length widths
              then go_bind (go_of_option (padToWidth (cell_of col j) (widths ! i) f))
                     (\<lambda>cell. Val (acc @ cell @ '' ''))
              else Panic index_panic)
            (enumerate 0 lines) :: string list res"
  let ?c = "\<lambda>j (i, col). padded f ?n widths i (cell_of col j)"
  have "go_fold ?step cs lines = Val (map (\<lambda>(j, acc). acc @ concat (map (?c j) cs)) (enumerate 0 lines))"
    if "\<forall>(i, col) \<in> set cs. i < ?n" for cs lines
    using that
  proof (induction cs arbitrary: lines)
    case Nil
    have "(\<lambda>(j, acc). acc) = (snd :: nat \<times> string \<Rightarrow> string)" by auto
    then show ?case by simp
  next
    case (Cons c cs)
    obtain i col where c: "c = (i, col)" by (cases c)
    with Cons.prems have i: "i < ?n" by auto
    let ?l1 = "map (\<lambda>(j, acc). acc @ ?c j c) (enumerate 0 lines)"
    have s: "?step c lines = Val ?l1"
      unfolding c prod.case by (rule compose_step [OF i len])
    have "go_fold ?step (c # cs) lines = go_fold ?step cs ?l1" using s by simp
    also have "\<dots> = Val (map (\<lambda>(j, acc). acc @ concat (map (?c j) cs)) (enumerate 0 ?l1))"
      using Cons by simp
    also have "\<dots> = Val (map (\<lambda>(j, acc). acc @ concat (map (?c j) (c # cs))) (enumerate 0 lines))"
      unfolding enumerate_map_enumerate by (simp add: split_beta)
    finally show ?case .
  qed
  moreover have "\<forall>(i, col) \<in> set (enumerate 0 cellLines). i < ?n"
    by (auto simp: in_set_enumerate_eq)
  moreover have "enumerate 0 (replicate m ('''' :: string)) = map (\<lambda>j. (j, '''')) [0..<m]" for m
    by (simp add: enumerate_replicate_eq)
  ultimately show ?thesis unfolding compose_cells_def Let_def by simp
qed

end

context mono_font
begin

lemma padToWidth_fits: "padToWidth s w f = Some t \<Longrightarrow> f_measure f s \<le> w \<Longrightarrow> f_measure f t \<le> w"
proof -
  assume p: "padToWidth s w f = Some t" and le: "f_measure f s \<le> w"
  have "(w - f_measure f s) div sp * sp \<le> w - f_measure f s"
    using space_pos by (simp add: minus_mod_eq_div_mult [symmetric])
  with padToWidth_measure [OF p] le show ?thesis by simp
qed

text \<open>A line whose cells fit their columns fits the columns and the gaps between them.\<close>

lemma composed_line_fits:
  assumes "k + length cells = n" "n = length widths" "cells \<noteq> []"
    and "\<forall>i < length cells. f_measure f (cells ! i) \<le> widths ! (k + i)"
  shows "f_measure f (concat (map (\<lambda>(i, c). padded f n widths i c) (enumerate k cells)))
      \<le> sum_list (drop k widths) + (int (length cells) - 1) * sp"
  using assms
proof (induction cells arbitrary: k)
  case Nil
  then show ?case by simp
next
  case (Cons c cs)
  have c: "f_measure f c \<le> widths ! k" using Cons.prems(4) by (auto dest: spec[of _ 0])
  have d: "drop k widths = widths ! k # drop (Suc k) widths"
    using Cons.prems(1,2) by (simp add: Cons_nth_drop_Suc)
  show ?case
  proof (cases "cs = []")
    case True
    with Cons.prems have "drop (Suc k) widths = []" "Suc k = n" by auto
    with True c d show ?thesis by (simp add: padded_def)
  next
    case False
    then have "Suc k \<noteq> n" using Cons.prems(1) by auto
    then have p: "padded f n widths k c = the (padToWidth c (widths ! k) f) @ '' ''" by (simp add: padded_def)
    obtain t where t: "padToWidth c (widths ! k) f = Some t" using padToWidth_spec by blast
    have "\<forall>i < length cs. f_measure f (cs ! i) \<le> widths ! (Suc k + i)"
      using Cons.prems(4) by (auto dest: spec[of _ "Suc _"])
    with Cons.IH [of "Suc k"] Cons.prems(1,2) False have
      "f_measure f (concat (map (\<lambda>(i, c). padded f n widths i c) (enumerate (Suc k) cs)))
         \<le> sum_list (drop (Suc k) widths) + (int (length cs) - 1) * sp" by simp
    moreover have "f_measure f t \<le> widths ! k" by (rule padToWidth_fits [OF t c])
    ultimately show ?thesis
      using p t d measure_mid [of t] by (simp add: algebra_simps)
  qed
qed

end

text \<open>A wrapped cell fits when each of its words does.\<close>

lemma wrapParagraph_fits:
  assumes "\<forall>v \<in> set (split_fields p). f_measure f v \<le> w" and "f_measure f '''' \<le> w"
    and "line \<in> set (wrapParagraph p w f 1)"
  shows "f_measure f line \<le> w"
proof -
  obtain ls where ls: "wrapParagraph p w f 1 = (if ls = [] then [''''] else map (join_with '' '') ls)"
    and g: "greedy_lines (\<lambda>s. f_measure f s * 1) w (split_fields p) ls"
    using wrapParagraph_greedy by blast
  show ?thesis
  proof (cases "ls = []")
    case True
    with ls assms(2,3) show ?thesis by simp
  next
    case False
    with ls assms(3) obtain l where l: "l \<in> set ls" "line = join_with '' '' l" by auto
    from g l(1) have or: "length l = 1 \<or> f_measure f (join_with '' '' l) \<le> w"
      by (auto simp: greedy_lines_def)
    from g have "concat ls = split_fields p" by (simp add: greedy_lines_def)
    with l(1) have sub: "set l \<subseteq> set (split_fields p)" by (metis UN_upper set_concat)
    show ?thesis
    proof (cases "length l = 1")
      case True
      then obtain v where "l = [v]" by (cases l) auto
      with sub assms(1) l(2) show ?thesis by simp
    qed (use or l(2) in simp)
  qed
qed

lemma wrapText_fits:
  assumes "\<forall>p \<in> set (split_on (CHR 0x0A) s). \<forall>v \<in> set (split_fields p). f_measure f v \<le> w"
    and "f_measure f '''' \<le> w" "0 < w" and "line \<in> set (wrapText s w f 1)"
  shows "f_measure f line \<le> w"
  using assms wrapParagraph_fits [of _ f w line] by (auto simp: wrapText_def Let_def)

definition words_fit :: "font \<Rightarrow> int \<Rightarrow> string \<Rightarrow> bool" where
  "words_fit f w s \<longleftrightarrow> (\<forall>p \<in> set (split_on (CHR 0x0A) s). \<forall>v \<in> set (split_fields p). f_measure f v \<le> w)"

lemma map_enumerate_map:
  "map (\<lambda>(i, col). P i (g col)) (enumerate n xs) = map (\<lambda>(i, c). P i c) (enumerate n (map g xs))"
  by (induction xs arbitrary: n) auto

lemma cell_of_mem: "cell_of col j = '''' \<or> cell_of col j \<in> set col"
  by (simp add: cell_of_def)

context mono_font
begin

lemma tableRowLines_fits:
  assumes "length row = length widths" "row \<noteq> []"
    and "\<forall>i < length row. 0 < widths ! i \<and> words_fit f (widths ! i) (row ! i)"
  shows "\<exists>ls. tableRowLines row widths f = Val ls
    \<and> (\<forall>l \<in> set ls. f_measure f l \<le> sum_list widths + (int (length widths) - 1) * sp)"
proof -
  let ?cells = "map (\<lambda>(i, cell). wrapText cell (widths ! i) f 1) (enumerate 0 row)"
  have g: "go_map (\<lambda>(i, cell). if i < length widths then Val (wrapText cell (widths ! i) f 1)
             else Panic index_panic) (enumerate 0 row) = Val ?cells"
    by (rule go_map_Val) (use assms(1) in \<open>auto simp: in_set_enumerate_eq\<close>)
  have n: "length ?cells = length widths" using assms(1) by simp
  let ?line = "\<lambda>j. concat (map (\<lambda>(i, col). padded f (length ?cells) widths i (cell_of col j)) (enumerate 0 ?cells))"
  have val: "tableRowLines row widths f = Val (map ?line [0..<fold (\<lambda>c m. max m (length c)) ?cells 0])"
    unfolding tableRowLines_def g go_bind.simps by (rule compose_cells_value) (simp add: assms(1))
  have "f_measure f (?line j) \<le> sum_list widths + (int (length widths) - 1) * sp" for j
  proof -
    let ?cs = "map (\<lambda>col. cell_of col j) ?cells"
    have e: "?line j = concat (map (\<lambda>(i, c). padded f (length widths) widths i c) (enumerate 0 ?cs))"
      unfolding n by (rule arg_cong [where f = concat], rule map_enumerate_map)
    have "f_measure f (?cs ! i) \<le> widths ! (0 + i)" if "i < length ?cs" for i
    proof -
      from that have i: "i < length row" by simp
      have c: "?cs ! i = cell_of (wrapText (row ! i) (widths ! i) f 1) j"
        using i by (simp add: nth_enumerate_eq)
      from assms(3) i have w: "0 < widths ! i" "words_fit f (widths ! i) (row ! i)" by auto
      with wrapText_fits [of "row ! i" f "widths ! i"] measure_Nil
      show ?thesis
        unfolding c using cell_of_mem [of "wrapText (row ! i) (widths ! i) f 1" j]
        by (auto simp: words_fit_def)
    qed
    moreover have "?cs \<noteq> []" using assms(2) by (cases row) simp_all
    moreover have "0 + length ?cs = length widths" using n by simp
    ultimately have "f_measure f (concat (map (\<lambda>(i, c). padded f (length widths) widths i c) (enumerate 0 ?cs)))
        \<le> sum_list (drop 0 widths) + (int (length ?cs) - 1) * sp"
      by (intro composed_line_fits) simp_all
    moreover have "length ?cs = length widths" using n by simp
    ultimately show ?thesis unfolding e by (simp only: drop_0)
  qed
  with val show ?thesis by auto
qed


text \<open>No line of a table is wider than the paper when each word fits the narrowest column.\<close>

lemma tableLines_fits:
  assumes "tb_headers t \<noteq> []" "\<forall>row \<in> set (tb_rows t). length row = length (tb_headers t)"
    and "0 < width" and "int (length (tb_headers t)) \<le> width - (int (length (tb_headers t)) - 1) * sp"
    and words: "\<forall>row \<in> insert (tb_headers t) (set (tb_rows t)). \<forall>cell \<in> set row.
      words_fit f ((width - (int (length (tb_headers t)) - 1) * sp) div int (length (tb_headers t))) cell"
  shows "\<exists>ls. tableLines t width f = Val ls \<and> (\<forall>l \<in> set ls. f_measure f l \<le> width)"
proof -
  let ?n = "int (length (tb_headers t))"
  have gap: "f_measure f '' '' = sp" using measure_Cons [of "[]"] measure_Nil by simp
  have n: "0 < ?n" using assms(1) by simp
  obtain ws where ws: "tableColumnWidths ?n width f = Val ws" "length ws = length (tb_headers t)"
    "\<forall>w \<in> set ws. 1 \<le> w \<and> (width - (?n - 1) * sp) div ?n \<le> w" "sum_list ws = width - (?n - 1) * sp"
    using tableColumnWidths_spec [OF n assms(3), of f] assms(4) by (auto simp: gap max_def)
  have row: "\<exists>ls. tableRowLines row ws f = Val ls \<and> (\<forall>l \<in> set ls. f_measure f l \<le> width)"
    if "row \<in> set (tb_headers t # tb_rows t)" for row
  proof -
    have len: "length row = length ws" using that assms(2) ws(2) by auto
    then have ne: "row \<noteq> []" using ws(2) assms(1) by auto
    have "0 < ws ! i \<and> words_fit f (ws ! i) (row ! i)" if i: "i < length row" for i
    proof -
      have "ws ! i \<in> set ws" using i len by simp
      with ws(3) have "1 \<le> ws ! i" "(width - (?n - 1) * sp) div ?n \<le> ws ! i" by auto
      moreover have "words_fit f ((width - (?n - 1) * sp) div ?n) (row ! i)"
        using words i \<open>row \<in> _\<close> by auto
      ultimately show ?thesis by (auto simp: words_fit_def intro: order_trans)
    qed
    with tableRowLines_fits [OF len ne] ws(2,4) show ?thesis by auto
  qed
  then have "\<exists>lss. go_map (\<lambda>row. tableRowLines row ws f) rows = Val lss
      \<and> (\<forall>ls \<in> set lss. \<forall>l \<in> set ls. f_measure f l \<le> width)"
    if "set rows \<subseteq> set (tb_headers t # tb_rows t)" for rows
    using that
  proof (induction rows)
    case (Cons r rows)
    then show ?case using row [of r] by fastforce
  qed simp
  from this [OF subset_refl] obtain lss where
    "go_map (\<lambda>row. tableRowLines row ws f) (tb_headers t # tb_rows t) = Val lss"
    "\<forall>ls \<in> set lss. \<forall>l \<in> set ls. f_measure f l \<le> width" by blast
  then show ?thesis
    using assms(3) ws(1) unfolding tableLines_def Let_def by (auto simp del: go_map.simps)
qed

end

interpretation embedded_mono: mono_font "EmbeddedFont (mono_face g)" 14 for g
proof
  fix a b
  have "length (runes (a @ '' '' @ b)) = length (runes a) + 1 + length (runes b)"
    by (simp add: runes_append runes_ascii_Cons)
  then show "f_measure (EmbeddedFont (mono_face g)) (a @ '' '' @ b)
      = f_measure (EmbeddedFont (mono_face g)) a + 14 + f_measure (EmbeddedFont (mono_face g)) b"
    by (simp add: EmbeddedFont_def embedded_measure_count [OF mono_face_7x13])
qed

section \<open>Laying out lines never crashes\<close>

context spaced_font
begin

lemma tableRowLines_safe: "length row \<le> length widths \<Longrightarrow> go_safe (tableRowLines row widths f)"
proof -
  assume len: "length row \<le> length widths"
  have "go_map (\<lambda>(i, cell). if i < length widths then Val (wrapText cell (widths ! i) f 1)
             else Panic index_panic) (enumerate 0 row)
      = (Val (map (\<lambda>(i, cell). wrapText cell (widths ! i) f 1) (enumerate 0 row)) :: string list list res)"
    by (rule go_map_Val) (use len in \<open>auto simp: in_set_enumerate_eq\<close>)
  then show ?thesis using len compose_cells_value by (simp add: tableRowLines_def)
qed

lemma tableLines_safe:
  assumes "tb_headers t \<noteq> []" and "\<forall>row \<in> set (tb_rows t). length row = length (tb_headers t)"
  shows "go_safe (tableLines t width f)"
proof (cases "0 < width")
  case True
  have "0 < int (length (tb_headers t))" using assms(1) by simp
  from tableColumnWidths_spec [OF this True] obtain ws where
    ws: "tableColumnWidths (int (length (tb_headers t))) width f = Val ws" "length ws = length (tb_headers t)"
    by auto
  have "go_safe (go_map (\<lambda>row. tableRowLines row ws f) (tb_headers t # tb_rows t))"
    using assms(2) ws(2) by (intro go_safe_map tableRowLines_safe) auto
  then show ?thesis using True ws by (auto simp: tableLines_def Let_def simp del: go_map.simps)
qed (simp add: tableLines_def Let_def)

lemma columnLines_safe: "go_safe (columnLines els width f)"
  by (induction els) (auto split: option.split element.split)

lemma columnsLines_safe:
  assumes "cols \<noteq> []"
  shows "go_safe (columnsLines cols width f)"
proof -
  obtain ws where ws: "columnWidths cols width f = Val ws" "length ws = length cols"
    using columnWidths_spec [OF assms, of width f]
    by (cases "0 < width") (auto simp: columnWidths_def Let_def)
  have "go_safe (go_map (\<lambda>(i, col). columnLines (col_elements col) (ws ! i) f) (enumerate 0 cols))"
    by (rule go_safe_map) (auto simp: columnLines_safe)
  moreover have "go_safe (compose_cells cells ws f)"
    if "go_map (\<lambda>(i, col). columnLines (col_elements col) (ws ! i) f) (enumerate 0 cols) = Val cells" for cells
    using go_map_length [OF that] compose_cells_value [of cells ws] ws(2) by simp
  ultimately show ?thesis using ws(1) by (auto simp: columnsLines_def)
qed

lemma listLines_safe:
  assumes "\<forall>item \<in> set (l_items l). 0 \<le> li_indent item"
  shows "go_safe (listLines l width f)"
proof -
  have "go_safe (list_item_lines (l_kind l) width f (i, item))" if "item \<in> set (l_items l)" for i item
  proof -
    have "\<not> li_indent item * listIndentSpaces < 0"
      using bspec [OF assms that] by (simp add: listIndentSpaces_def)
    then show ?thesis by (simp add: list_item_lines_def Let_def listHangIndent_spec)
  qed
  then have "go_safe (go_map (list_item_lines (l_kind l) width f) (enumerate 0 (l_items l)))"
    by (intro go_safe_map) (auto simp: in_set_enumerate_eq)
  then show ?thesis by (auto simp: listLines_def)
qed

end

section \<open>Properties\<close>

definition blank_image :: image where
  "blank_image = \<lparr>img_min_x = 0, img_min_y = 0, img_dx = 1, img_dy = 1, img_at = (\<lambda>_ _. (0xffff, 0xffff, 0xffff, 0xffff))\<rparr>"

abbreviation sample_face :: face where
  "sample_face \<equiv> mono_face (\<lambda>_. (blank_image, (0, 0)))"

text \<open>
  (C37) Word wrapping: the lines of a paragraph are its words in order, joined by single spaces,
  with no word lost, split or repeated; a line of more than one word fits the width, and a line is
  ended only when the next word does not fit on it.  A paragraph without words is one empty line.
\<close>

theorem wrap_paragraph:
  "\<exists>ls. wrapParagraph p w f k = (if ls = [] then [''''] else map (join_with '' '') ls)
      \<and> greedy_lines (\<lambda>s. f_measure f s * k) w (split_fields p) ls"
  by (rule wrapParagraph_greedy)

text \<open>
  Aligned text: \<open>alignPad\<close> always ends, and puts before the content as many spaces as fit in
  half of the free width (\<open>center\<close>) or all of it (\<open>right\<close>), none for other alignments or content
  that does not fit; content that fits still fits.
\<close>

lemma align_pad:
  assumes "face_7x13 fc" and "1 \<le> k"
  shows "\<exists>n line. alignPad c align w (EmbeddedFont fc) k = Some line \<and> line = replicate n (CHR '' '') @ c
     \<and> int n = (if align \<in> {''center'', ''right''} \<and> f_measure (EmbeddedFont fc) c * k < w
              then (w - f_measure (EmbeddedFont fc) c * k) div (if align = ''center'' then 2 else 1) div (14 * k)
              else 0)
     \<and> (f_measure (EmbeddedFont fc) c * k \<le> w \<longrightarrow> f_measure (EmbeddedFont fc) line * k \<le> w)"
proof -
  obtain g where g: "fc = mono_face g" using face_7x13_mono [OF assms(1)] by blast
  have "0 \<le> (w - x) div (if align = ''center'' then 2 else 1) div (14 * k)" if "x < w" for x
    using that assms(2) by (simp add: pos_imp_zdiv_nonneg_iff)
  with embedded.alignPad_spec [OF assms(2), of c align w g] embedded.alignPad_fits [OF assms(2), of c align w g]
  show ?thesis unfolding g by auto
qed

text \<open>
  (C38) Tables fit the paper: when each column has at least a dot and each word fits the narrowest
  column, laying out a table succeeds and no line of it is wider than the paper.
\<close>

theorem table_fits:
  assumes "face_7x13 fc" and "tb_headers t \<noteq> []"
    and "\<forall>row \<in> set (tb_rows t). length row = length (tb_headers t)"
    and "0 < width" and "int (length (tb_headers t)) \<le> width - (int (length (tb_headers t)) - 1) * 14"
    and "\<forall>row \<in> insert (tb_headers t) (set (tb_rows t)). \<forall>cell \<in> set row.
      words_fit (EmbeddedFont fc)
        ((width - (int (length (tb_headers t)) - 1) * 14) div int (length (tb_headers t))) cell"
  shows "\<exists>ls. tableLines t width (EmbeddedFont fc) = Val ls
     \<and> (\<forall>l \<in> set ls. f_measure (EmbeddedFont fc) l \<le> width)"
proof -
  obtain g where g: "fc = mono_face g" using face_7x13_mono [OF assms(1)] by blast
  show ?thesis using embedded_mono.tableLines_fits [OF assms(2-5), of g] assms(6) unfolding g by blast
qed

theorem table_fits_witness:
  "\<exists>ls. tableLines \<lparr>tb_headers = [''a'', ''b''], tb_rows = [[''c'', ''d'']]\<rparr> 576 (EmbeddedFont sample_face) = Val ls
     \<and> (\<forall>l \<in> set ls. f_measure (EmbeddedFont sample_face) l \<le> 576)"
  by (rule table_fits [OF mono_face_7x13])
    (auto simp: words_fit_def split_fields_def runes_ascii_Cons is_space_def EmbeddedFont_def
      embedded_measure_count)

text \<open>
  Column widths: for a positive paper width the columns get non-negative widths which, with
  the gaps between them, add up to exactly the paper width (or to one dot a column, where the gaps
  leave less than that).
\<close>

lemma column_widths:
  assumes "cols \<noteq> []" and "0 < width"
  shows "\<exists>ws. columnWidths cols width f = Val ws \<and> length ws = length cols \<and> (\<forall>w \<in> set ws. 0 \<le> w)
    \<and> sum_list ws = max (width - (int (length cols) - 1) * f_measure f '' '') (int (length cols))"
  using assms by (rule columnWidths_spec)

lemma column_widths_witness:
  "\<exists>ws. columnWidths [Column 1 [], Column 3 []] 576 (EmbeddedFont sample_face) = Val ws \<and> sum_list ws = 562"
  using column_widths [of "[Column 1 [], Column 3 []]" 576 "EmbeddedFont sample_face"]
  by (simp add: EmbeddedFont_def embedded_measure_count runes_ascii_Cons) blast

end
