(* ===== verification/Document.thy ===== *)
theory Document
  imports Layout
begin

text \<open>
  Package \<open>internal/render/layout\<close>, positioning: image, asset, QR and barcode sizes and bitmaps
  (\<open>image.go\<close>, \<open>asset.go\<close>, \<open>qrcode.go\<close>, \<open>barcode.go\<close>), the document model (\<open>document.go\<close>) and
  \<open>Build\<close> (\<open>build.go\<close>).  The assets store is a parameter of \<open>Build\<close>: its \<open>Get\<close> method, or
  \<open>None\<close> for a nil store.
\<close>

section \<open>Sizes\<close>

definition scaledImageSize :: "int \<Rightarrow> int \<Rightarrow> int \<Rightarrow> (int \<times> int) res" where
  "scaledImageSize origWidth origHeight maxWidth =
     (if maxWidth \<le> 0 \<or> origWidth \<le> maxWidth then Val (origWidth, origHeight)
      else go_bind (go_div (origHeight * maxWidth) origWidth) (\<lambda>h. Val (maxWidth, h)))"

definition resolveTargetWidth :: "int \<Rightarrow> int \<Rightarrow> int" where
  "resolveTargetWidth requestedWidth maxWidth =
     (if requestedWidth \<le> 0 then 0
      else if maxWidth > 0 \<and> requestedWidth > maxWidth then maxWidth
      else requestedWidth)"

definition targetImageSize :: "int \<Rightarrow> int \<Rightarrow> int \<Rightarrow> int \<Rightarrow> (int \<times> int) res" where
  "targetImageSize origWidth origHeight requestedWidth maxWidth =
     (let w = resolveTargetWidth requestedWidth maxWidth in
      if w > 0 then go_bind (go_div (origHeight * w) origWidth) (\<lambda>h. Val (w, h))
      else scaledImageSize origWidth origHeight maxWidth)"

definition checkSupportedFormat :: "string \<Rightarrow> goerr option" where
  "checkSupportedFormat format =
     (if \<not> IsSupportedImageFormat format then Some (unsupported_format format) else None)"

definition checkImageDimensions :: "int \<Rightarrow> int \<Rightarrow> goerr option" where
  "checkImageDimensions w h = (if pixel_count w h > MaxImagePixels then Some (too_many_pixels w h) else None)"

definition decodeImageConfig :: "codecs \<Rightarrow> byte list \<Rightarrow> (int \<times> int) res" where
  "decodeImageConfig cd data =
     (case decode_config cd data of
        Inl err \<Rightarrow> Fail err
      | Inr (w, h, format) \<Rightarrow>
          (case checkSupportedFormat format of
             Some err \<Rightarrow> Fail err
           | None \<Rightarrow> (case checkImageDimensions w h of Some err \<Rightarrow> Fail err | None \<Rightarrow> Val (w, h))))"

definition decodeImage :: "codecs \<Rightarrow> byte list \<Rightarrow> image res" where
  "decodeImage cd data =
     (case decode_config cd data of
        Inl err \<Rightarrow> Fail err
      | Inr (w, h, format) \<Rightarrow>
          (case checkSupportedFormat format of
             Some err \<Rightarrow> Fail err
           | None \<Rightarrow>
               (case checkImageDimensions w h of
                  Some err \<Rightarrow> Fail err
                | None \<Rightarrow> go_of_sum (decode_pixels cd data))))"

definition imageHeight :: "codecs \<Rightarrow> byte list \<Rightarrow> int \<Rightarrow> int res" where
  "imageHeight cd data maxWidth =
     go_bind (decodeImageConfig cd data) (\<lambda>(w, h).
     go_bind (scaledImageSize w h maxWidth) (\<lambda>(_, h). Val h))"

definition assetHeight :: "codecs \<Rightarrow> byte list \<Rightarrow> int \<Rightarrow> int \<Rightarrow> int res" where
  "assetHeight cd data requestedWidth maxWidth =
     go_bind (decodeImageConfig cd data) (\<lambda>(w, h).
     go_bind (targetImageSize w h requestedWidth maxWidth) (\<lambda>(_, h). Val h))"

definition qrCodeSize :: "qrcode_el \<Rightarrow> int \<Rightarrow> int res" where
  "qrCodeSize q maxWidth =
     (let sz = (if q_size q \<le> 0 then DefaultQRCodeSize else q_size q)
      in go_bind (scaledImageSize sz sz maxWidth) (\<lambda>(w, _). Val w))"

definition qrCodeDimensions :: "codecs \<Rightarrow> qrcode_el \<Rightarrow> int \<Rightarrow> (int \<times> int) res" where
  "qrCodeDimensions cd q maxWidth =
     (case qr_encode cd (q_content q) (RecoveryLevel q) of
        Inl err \<Rightarrow> Fail err
      | Inr _ \<Rightarrow> go_bind (qrCodeSize q maxWidth) (\<lambda>sz. Val (sz, sz)))"

definition barcodeModuleWidth :: int where
  "barcodeModuleWidth = 2"

definition barcodeWidth :: "int \<Rightarrow> int \<Rightarrow> int" where
  "barcodeWidth nativeWidth maxWidth =
     (let width = nativeWidth * barcodeModuleWidth
      in if maxWidth > 0 \<and> width > maxWidth then maxWidth else width)"

definition barcodeHeight :: "barcode_el \<Rightarrow> int" where
  "barcodeHeight b = (if b_height b > 0 then b_height b else DefaultBarcodeHeight)"

definition barcodeDimensions :: "codecs \<Rightarrow> barcode_el \<Rightarrow> int \<Rightarrow> (int \<times> int) res" where
  "barcodeDimensions cd b maxWidth =
     (case barcode_encode cd b of
        Inl err \<Rightarrow> Fail err
      | Inr bc \<Rightarrow> Val (barcodeWidth (img_dx bc) maxWidth, barcodeHeight b))"

section \<open>Bitmaps\<close>

definition DecodeImageBitmap :: "codecs \<Rightarrow> byte list \<Rightarrow> int \<Rightarrow> bitmap res" where
  "DecodeImageBitmap cd data maxWidth =
     go_bind (decodeImage cd data) (\<lambda>img.
     go_bind (targetImageSize (img_dx img) (img_dy img) 0 maxWidth) (\<lambda>(w, h).
     rasterizeImage img w h))"

definition DecodeAlignedAssetBitmap :: "codecs \<Rightarrow> byte list \<Rightarrow> int \<Rightarrow> string \<Rightarrow> int \<Rightarrow> bitmap res" where
  "DecodeAlignedAssetBitmap cd data width align maxWidth =
     go_bind (decodeImage cd data) (\<lambda>img.
     go_bind (targetImageSize (img_dx img) (img_dy img) width maxWidth) (\<lambda>(w, h).
     go_bind (rasterizeImage img w h) (\<lambda>bmp. alignBitmap bmp align maxWidth)))"

definition GenerateQRCodeBitmap :: "codecs \<Rightarrow> qrcode_el \<Rightarrow> int \<Rightarrow> bitmap res" where
  "GenerateQRCodeBitmap cd q maxWidth =
     (case qr_encode cd (q_content q) (RecoveryLevel q) of
        Inl err \<Rightarrow> Fail err
      | Inr code \<Rightarrow> go_bind (qrCodeSize q maxWidth) (\<lambda>sz. rasterizeImage code sz sz))"

definition GenerateBarcodeBitmap :: "codecs \<Rightarrow> barcode_el \<Rightarrow> int \<Rightarrow> bitmap res" where
  "GenerateBarcodeBitmap cd b maxWidth =
     (case barcode_encode cd b of
        Inl err \<Rightarrow> Fail err
      | Inr bc \<Rightarrow> rasterizeImage bc (barcodeWidth (img_dx bc) maxWidth) (barcodeHeight b))"

section \<open>The document\<close>

text \<open>\<open>Block.Element\<close>: an element of the receipt, or one of the types only layout makes.\<close>

datatype block_element =
    Plain element
  | TableLine string
  | ColumnsLine string
  | ListLine string
  | BarcodeCaption string
  | AlignedAsset "byte list" int string

record block =
  blk_y :: int
  blk_element :: block_element
  blk_style :: style

record document =
  doc_width :: int
  doc_blocks :: "block list"
  doc_font :: font

record profile =
  p_width_dots :: int
  p_dpi :: int
  p_margin_left :: int
  p_margin_right :: int
  p_supports_cut :: bool
  p_supports_partial :: bool
  p_default_cut :: string
  p_max_image_height :: int

definition epson_tm_m30ii :: profile where
  "epson_tm_m30ii =
     \<lparr>p_width_dots = 576, p_dpi = 203, p_margin_left = 0, p_margin_right = 0,
      p_supports_cut = True, p_supports_partial = True, p_default_cut = ''partial'',
      p_max_image_height = 0\<rparr>"

definition ModelProfiles :: "string \<rightharpoonup> profile" where
  "ModelProfiles = [''epson-tm-m30ii'' \<mapsto> epson_tm_m30ii]"

definition DividerThickness :: int where
  "DividerThickness = 2"

definition mk_block :: "int \<Rightarrow> block_element \<Rightarrow> style \<Rightarrow> block" where
  "mk_block y el st = \<lparr>blk_y = y, blk_element = el, blk_style = st\<rparr>"

text \<open>One block per line, each a line height below the one before.\<close>

fun stack_lines :: "(string \<Rightarrow> block_element) \<Rightarrow> style \<Rightarrow> int \<Rightarrow> int \<Rightarrow> string list \<Rightarrow> block list \<times> int" where
  "stack_lines mk st h y [] = ([], y)"
| "stack_lines mk st h y (l # ls) =
     (let (bs, y') = stack_lines mk st h (y + h) ls in (mk_block y (mk l) st # bs, y'))"

definition layout_error :: "string \<Rightarrow> goerr \<Rightarrow> goerr" where
  "layout_error what err = wrap KindPermanent ''layout.Build'' (Some (Wrapf what err))"

text \<open>A call whose error is wrapped before it is returned.\<close>

primrec map_fail :: "('e \<Rightarrow> 'f) \<Rightarrow> ('e, 'a) go \<Rightarrow> ('f, 'a) go" where
  "map_fail h (Val a) = Val a"
| "map_fail h (Fail e) = Fail (h e)"
| "map_fail h (Panic m) = Panic m"
| "map_fail h Diverge = Diverge"

definition build_element ::
  "codecs \<Rightarrow> (string \<Rightarrow> goerr + byte list) option \<Rightarrow> profile \<Rightarrow> font \<Rightarrow> int \<Rightarrow> element option
     \<Rightarrow> (block list \<times> int) res" where
  "build_element cd store p f y el =
     (let wd = p_width_dots p;
          lh = (\<lambda>st. f_line_height f * sty_size st);
          one = (\<lambda>be h. Val ([mk_block y be normalStyle], y + h)) in
      case el of
        Some (EText e) \<Rightarrow>
          (let st = textStyle e in
           go_bind (go_map (\<lambda>line. go_of_option (alignPad line (t_align e) wd f (sty_size st)))
                      (wrapText (t_content e) wd f (sty_size st)))
             (\<lambda>ls. Val (stack_lines (\<lambda>l. Plain (EText (e\<lparr>t_content := l\<rparr>))) st (lh st) y ls)))
      | Some (EHeading c) \<Rightarrow>
          Val (stack_lines (\<lambda>l. Plain (EHeading l)) headingStyle (lh headingStyle) y
                 (wrapText c wd f (sty_size headingStyle)))
      | Some (ESpacer h) \<Rightarrow> one (Plain (ESpacer h)) h
      | Some (EDivider d) \<Rightarrow> one (Plain (EDivider d)) (DividerThickness * ResolveSize (d_size d))
      | Some (EImage data) \<Rightarrow>
          go_bind (map_fail (layout_error ''image: '') (imageHeight cd data wd))
            (one (Plain (EImage data)))
      | Some (EAsset e) \<Rightarrow>
          (case store of
             None \<Rightarrow> Fail (wrap KindPermanent ''layout.Build''
                        (Some (errorf ''asset %q: no assets.Store configured to resolve it'' [FStr (a_name e)])))
           | Some get \<Rightarrow>
               (case get (a_name e) of
                  Inl err \<Rightarrow> Fail err
                | Inr data \<Rightarrow>
                    go_bind (map_fail (layout_error ''asset: '') (assetHeight cd data (a_width e) wd))
                      (one (AlignedAsset data (a_width e) (a_align e)))))
      | Some (EQRCode q) \<Rightarrow>
          go_bind (map_fail (layout_error ''qrcode: '') (qrCodeDimensions cd q wd))
            (\<lambda>(_, h). one (Plain (EQRCode q)) h)
      | Some (EBarcode b) \<Rightarrow>
          go_bind (map_fail (layout_error ''barcode: '') (barcodeDimensions cd b wd)) (\<lambda>(w, h).
            let bc = mk_block y (Plain (EBarcode b)) normalStyle in
            if b_show_text b
            then go_bind (go_of_option (alignPad (b_content b) ''center'' w f (sty_size normalStyle)))
                   (\<lambda>caption. Val ([bc, mk_block (y + h) (BarcodeCaption caption) normalStyle],
                                   y + h + lh normalStyle))
            else Val ([bc], y + h))
      | Some (ETable t) \<Rightarrow>
          go_bind (tableLines t wd f)
            (\<lambda>ls. Val (stack_lines TableLine normalStyle (lh normalStyle) y ls))
      | Some (EColumns cols) \<Rightarrow>
          go_bind (map_fail (layout_error ''columns: '') (columnsLines cols wd f))
            (\<lambda>ls. Val (stack_lines ColumnsLine normalStyle (lh normalStyle) y ls))
      | Some (EList l) \<Rightarrow>
          go_bind (listLines l wd f)
            (\<lambda>ls. Val (stack_lines ListLine normalStyle (lh normalStyle) y ls))
      | Some (EFeed n) \<Rightarrow> one (Plain (EFeed n)) 0
      | Some (ECut m) \<Rightarrow> one (Plain (ECut m)) 0
      | None \<Rightarrow> Fail (wrap KindPermanent ''layout.Build''
                  (Some (errorf ''unsupported element type %T'' [FStr (element_type el)]))))"

fun build_blocks ::
  "codecs \<Rightarrow> (string \<Rightarrow> goerr + byte list) option \<Rightarrow> profile \<Rightarrow> font \<Rightarrow> int \<Rightarrow> element option list
     \<Rightarrow> (block list \<times> int) res" where
  "build_blocks cd store p f y [] = Val ([], y)"
| "build_blocks cd store p f y (el # els) =
     go_bind (build_element cd store p f y el) (\<lambda>(bs, y).
     go_bind (build_blocks cd store p f y els) (\<lambda>(bs', y).
     Val (bs @ bs', y)))"

definition Build ::
  "codecs \<Rightarrow> (string \<Rightarrow> goerr + byte list) option \<Rightarrow> receipt \<Rightarrow> profile \<Rightarrow> font \<Rightarrow> document res" where
  "Build cd store r p f =
     go_bind (build_blocks cd store p f 0 (r_elements r)) (\<lambda>(blocks, _).
     Val \<lparr>doc_width = p_width_dots p, doc_blocks = blocks, doc_font = f\<rparr>)"

end
