(* ===== verification/Canvas.thy ===== *)
theory Canvas
  imports Document
begin

text \<open>
  Package \<open>internal/render/canvas\<close>: \<open>canvas.go\<close> (the bitmap with its controls) and \<open>paint.go\<close>
  (\<open>Paint\<close>: sizing pass, painting pass, decorations, dividers).  \<open>style.go\<close> is in \<open>Bitmap\<close>.  The
  painting methods change the canvas's byte slice in place: here they take it and return it.  The
  lemmas give the set of dots each method sets, and that of a whole document.
\<close>

section \<open>The canvas\<close>

record control =
  ctl_y :: int
  ctl_element :: block_element
  ctl_terminal :: bool

record canvas =
  cv_width :: int
  cv_height :: int
  cv_bits :: "byte list"
  cv_controls :: "control list"

text \<open>\<open>rasterBitmap\<close>: \<open>None\<close> for an element that is not a raster.\<close>

fun rasterBitmap :: "codecs \<Rightarrow> block_element \<Rightarrow> int \<Rightarrow> bitmap res option" where
  "rasterBitmap cd (Plain (EImage data)) mw = Some (map_fail (Wrapf ''image: '') (DecodeImageBitmap cd data mw))"
| "rasterBitmap cd (Plain (EQRCode q)) mw = Some (map_fail (Wrapf ''qrcode: '') (GenerateQRCodeBitmap cd q mw))"
| "rasterBitmap cd (Plain (EBarcode b)) mw = Some (map_fail (Wrapf ''barcode: '') (GenerateBarcodeBitmap cd b mw))"
| "rasterBitmap cd (AlignedAsset data width align) mw =
     Some (map_fail (Wrapf ''asset: '') (DecodeAlignedAssetBitmap cd data width align mw))"
| "rasterBitmap cd _ mw = None"

fun isRasterElement :: "block_element \<Rightarrow> bool" where
  "isRasterElement (Plain (EImage data)) = True"
| "isRasterElement (Plain (EQRCode q)) = True"
| "isRasterElement (Plain (EBarcode b)) = True"
| "isRasterElement (AlignedAsset data width align) = True"
| "isRasterElement _ = False"

text \<open>The painting pass finds a resolved bitmap exactly for the elements the sizing pass resolved.\<close>

lemma isRasterElement_iff: "isRasterElement el \<longleftrightarrow> rasterBitmap cd el mw \<noteq> None"
  by (cases el rule: isRasterElement.cases) simp_all

fun textContent :: "block_element \<Rightarrow> string option" where
  "textContent (Plain (EText t)) = Some (t_content t)"
| "textContent (Plain (EHeading c)) = Some c"
| "textContent (TableLine c) = Some c"
| "textContent (ColumnsLine c) = Some c"
| "textContent (ListLine c) = Some c"
| "textContent (BarcodeCaption c) = Some c"
| "textContent _ = None"

fun blockHeight :: "block_element \<Rightarrow> style \<Rightarrow> font \<Rightarrow> int option" where
  "blockHeight (Plain (EText t)) st f = Some (f_line_height f * sty_size st)"
| "blockHeight (Plain (EHeading c)) st f = Some (f_line_height f * sty_size st)"
| "blockHeight (TableLine c) st f = Some (f_line_height f * sty_size st)"
| "blockHeight (ColumnsLine c) st f = Some (f_line_height f * sty_size st)"
| "blockHeight (ListLine c) st f = Some (f_line_height f * sty_size st)"
| "blockHeight (BarcodeCaption c) st f = Some (f_line_height f * sty_size st)"
| "blockHeight (Plain (ESpacer h)) st f = Some h"
| "blockHeight (Plain (EDivider d)) st f = Some (DividerThickness * ResolveSize (d_size d))"
| "blockHeight (Plain (EFeed n)) st f = Some 0"
| "blockHeight (Plain (ECut m)) st f = Some 0"
| "blockHeight _ st f = None"

fun is_control :: "block_element \<Rightarrow> bool" where
  "is_control (Plain (EFeed n)) = True"
| "is_control (Plain (ECut m)) = True"
| "is_control _ = False"

fun block_type :: "block_element \<Rightarrow> string" where
  "block_type (Plain el) = element_type (Some el)"
| "block_type (TableLine _) = ''layout.TableLine''"
| "block_type (ColumnsLine _) = ''layout.ColumnsLine''"
| "block_type (ListLine _) = ''layout.ListLine''"
| "block_type (BarcodeCaption _) = ''layout.BarcodeCaption''"
| "block_type (AlignedAsset _ _ _) = ''layout.AlignedAsset''"

section \<open>Painting primitives\<close>

definition paintGlyph :: "int \<Rightarrow> int \<Rightarrow> int \<Rightarrow> int \<Rightarrow> bitmap \<Rightarrow> byte list \<Rightarrow> byte list res" where
  "paintGlyph width height x y bmp =
     copy_pixels bmp (row_bytes width)
       (\<lambda>row col. let px = x + col; py = y + row
                   in if px \<ge> width \<or> py \<ge> height then [] else [(py, px)])"

definition paintHLine :: "int \<Rightarrow> int \<Rightarrow> int \<Rightarrow> int \<Rightarrow> int \<Rightarrow> int \<Rightarrow> byte list \<Rightarrow> byte list res" where
  "paintHLine width height x0 x1 y0 thickness =
     set_all (row_bytes width)
       (concat (map (\<lambda>y. map (Pair y) (filter (\<lambda>x. \<not> (x < 0 \<or> x \<ge> width)) [x0..x1 - 1]))
         (filter (\<lambda>y. \<not> (y < 0 \<or> y \<ge> height)) [y0..y0 + thickness - 1])))"

definition dashDots :: int where "dashDots = 16"
definition dashGapDots :: int where "dashGapDots = 8"

function dashes :: "int \<Rightarrow> int \<Rightarrow> (int \<times> int) list" where
  "dashes width x =
     (if x < width
      then (x, if x + dashDots > width then width else x + dashDots) # dashes width (x + dashDots + dashGapDots)
      else [])"
  by pat_completeness auto
termination
  by (relation "measure (\<lambda>(width, x). nat (width - x))") (auto simp: dashDots_def dashGapDots_def)

declare dashes.simps [simp del]

definition paintDivider :: "int \<Rightarrow> int \<Rightarrow> divider_el \<Rightarrow> int \<Rightarrow> byte list \<Rightarrow> byte list res" where
  "paintDivider width height d y bits =
     (let thickness = DividerThickness * ResolveSize (d_size d) in
      if d_style d \<noteq> ''dashed'' then paintHLine width height 0 width y thickness bits
      else go_fold (\<lambda>(x, end). paintHLine width height x end y thickness) (dashes width 0) bits)"

definition paintDecorations ::
  "int \<Rightarrow> int \<Rightarrow> block \<Rightarrow> font \<Rightarrow> int \<Rightarrow> byte list \<Rightarrow> byte list res" where
  "paintDecorations width height b f textWidth bits =
     (let st = blk_style b in
      if textWidth \<le> 0 \<or> (\<not> sty_underline st \<and> \<not> sty_strikethrough st) then Val bits
      else
        let lineHeight = (case blockHeight (blk_element b) st f of Some h \<Rightarrow> h | None \<Rightarrow> 0);
            thickness = sty_size st in
        go_bind (if sty_underline st
                 then paintHLine width height 0 textWidth (blk_y b + lineHeight - thickness) thickness bits
                 else Val bits) (\<lambda>bits.
        if sty_strikethrough st
        then paintHLine width height 0 textWidth (blk_y b + lineHeight sdiv 2) thickness bits
        else Val bits))"

text \<open>The glyph loop of a text block, returning the pen position after the last glyph.\<close>

definition paintText ::
  "int \<Rightarrow> int \<Rightarrow> font \<Rightarrow> style \<Rightarrow> int \<Rightarrow> string \<Rightarrow> byte list \<Rightarrow> (byte list \<times> int) res" where
  "paintText width height f st y content bits =
     go_fold (\<lambda>(r, _) (bits, x).
         go_bind (f_glyph f r) (\<lambda>(bmp, advance).
         go_bind (styleGlyph bmp st) (\<lambda>bmp.
         go_bind (paintGlyph width height x y bmp bits) (\<lambda>bits.
         Val (bits, x + advance * sty_size st)))))
       (runes content) (bits, 0)"

section \<open>Paint\<close>

text \<open>
  The sizing pass, over the running width and height.  It also resolves the raster bitmaps; the
  code keeps them in a slice indexed like the blocks.
\<close>

fun size_blocks ::
  "codecs \<Rightarrow> int \<Rightarrow> font \<Rightarrow> bool \<Rightarrow> block list \<Rightarrow> int \<Rightarrow> int \<Rightarrow> ((int \<times> int) \<times> bitmap option list) res" where
  "size_blocks cd docWidth f contentFit [] width height = Val ((width, height), [])"
| "size_blocks cd docWidth f contentFit (b # bs) width height =
     go_bind
       (case rasterBitmap cd (blk_element b) docWidth of
          Some m \<Rightarrow>
            go_bind (map_fail (\<lambda>err. wrap KindPermanent ''canvas.Paint'' (Some err)) m) (\<lambda>bmp.
              Val (bm_height bmp, if contentFit \<and> bm_width bmp > width then bm_width bmp else width, Some bmp))
        | None \<Rightarrow>
            (case blockHeight (blk_element b) (blk_style b) f of
               None \<Rightarrow> Fail (wrap KindPermanent ''canvas.Paint''
                         (Some (errorf ''unsupported element type %T'' [FStr (block_type (blk_element b))])))
             | Some bh \<Rightarrow>
                 let width = (if contentFit
                    then (case textContent (blk_element b) of
                            Some content \<Rightarrow>
                              (let w = f_measure f content * sty_size (blk_style b)
                               in if w > width then w else width)
                          | None \<Rightarrow> width)
                    else width)
                 in Val (bh, width, None)))
       (\<lambda>(bh, width, bmp).
         let bottom = blk_y b + bh in
         go_bind (size_blocks cd docWidth f contentFit bs width (if bottom > height then bottom else height))
           (\<lambda>(dims, bmps). Val (dims, bmp # bmps)))"

declare size_blocks.simps(2) [simp del]

text \<open>One block of the painting pass; the controls are collected in order.\<close>

definition paint_block ::
  "int \<Rightarrow> int \<Rightarrow> font \<Rightarrow> bool \<Rightarrow> block \<times> bitmap option \<Rightarrow> byte list \<Rightarrow> (byte list \<times> control list) res" where
  "paint_block width height f isLast = (\<lambda>(b, bmp) bits.
     if is_control (blk_element b)
     then Val (bits, [\<lparr>ctl_y = blk_y b, ctl_element = blk_element b, ctl_terminal = isLast\<rparr>])
     else case blk_element b of
       Plain (EDivider d) \<Rightarrow>
         go_bind (paintDivider width height d (blk_y b) bits) (\<lambda>bits. Val (bits, []))
     | _ \<Rightarrow>
         (case bmp of
            Some g \<Rightarrow> go_bind (paintGlyph width height 0 (blk_y b) g bits) (\<lambda>bits. Val (bits, []))
          | None \<Rightarrow>
              (case textContent (blk_element b) of
                 None \<Rightarrow> Val (bits, [])
               | Some content \<Rightarrow>
                   go_bind (paintText width height f (blk_style b) (blk_y b) content bits) (\<lambda>(bits, x).
                   go_bind (paintDecorations width height b f x bits) (\<lambda>bits. Val (bits, []))))))"

fun paint_blocks ::
  "int \<Rightarrow> int \<Rightarrow> font \<Rightarrow> (block \<times> bitmap option) list \<Rightarrow> byte list \<Rightarrow> (byte list \<times> control list) res" where
  "paint_blocks width height f [] bits = Val (bits, [])"
| "paint_blocks width height f (b # bs) bits =
     go_bind (paint_block width height f (bs = []) b bits) (\<lambda>(bits, cs).
     go_bind (paint_blocks width height f bs bits) (\<lambda>(bits, cs'). Val (bits, cs @ cs')))"

definition Paint :: "codecs \<Rightarrow> document \<Rightarrow> canvas res" where
  "Paint cd doc =
     (let f = doc_font doc in
      go_bind (size_blocks cd (doc_width doc) f (doc_width doc \<le> 0) (doc_blocks doc) (doc_width doc) 0)
        (\<lambda>((width, height), bitmaps).
      go_bind (make_bytes (row_bytes width * height)) (\<lambda>bits.
      go_bind (paint_blocks width height f (zip (doc_blocks doc) bitmaps) bits) (\<lambda>(bits, controls).
      Val \<lparr>cv_width = width, cv_height = height, cv_bits = bits, cv_controls = controls\<rparr>))))"

section \<open>What the painting primitives paint\<close>

text \<open>
  \<open>paints w h S m\<close>: on any slice of the right length, \<open>m\<close> returns one of that length with the
  dots of \<open>S\<close> that are on the canvas set, and no other changed.
\<close>

definition on_canvas :: "int \<Rightarrow> int \<Rightarrow> (int \<times> int) set" where
  "on_canvas w h = {(y, x). 0 \<le> y \<and> y < h \<and> 0 \<le> x \<and> x < w}"

definition paints :: "int \<Rightarrow> int \<Rightarrow> (int \<times> int) set \<Rightarrow> (byte list \<Rightarrow> byte list res) \<Rightarrow> bool" where
  "paints w h S m \<longleftrightarrow>
     (\<forall>bits. int (length bits) = row_bytes w * h \<longrightarrow>
        (\<exists>bits'. m bits = Val bits' \<and> length bits' = length bits
           \<and> pixels (row_bytes w) h bits' = pixels (row_bytes w) h bits \<union> (S \<inter> on_canvas w h)))"

lemma paints_Val [simp]: "paints w h {} Val"
  by (simp add: paints_def)

lemma paints_seq:
  "paints w h S m \<Longrightarrow> paints w h T n \<Longrightarrow> paints w h (S \<union> T) (\<lambda>bits. go_bind (m bits) n)"
  unfolding paints_def
proof (intro allI impI)
  fix bits :: "byte list"
  assume m: "\<forall>bits. int (length bits) = row_bytes w * h \<longrightarrow> (\<exists>bits'. m bits = Val bits'
      \<and> length bits' = length bits
      \<and> pixels (row_bytes w) h bits' = pixels (row_bytes w) h bits \<union> S \<inter> on_canvas w h)"
    and n: "\<forall>bits. int (length bits) = row_bytes w * h \<longrightarrow> (\<exists>bits'. n bits = Val bits'
      \<and> length bits' = length bits
      \<and> pixels (row_bytes w) h bits' = pixels (row_bytes w) h bits \<union> T \<inter> on_canvas w h)"
    and l: "int (length bits) = row_bytes w * h"
  from m l obtain b1 where b1: "m bits = Val b1" "length b1 = length bits"
    "pixels (row_bytes w) h b1 = pixels (row_bytes w) h bits \<union> S \<inter> on_canvas w h" by blast
  with n l obtain b2 where "n b1 = Val b2" "length b2 = length b1"
    "pixels (row_bytes w) h b2 = pixels (row_bytes w) h b1 \<union> T \<inter> on_canvas w h" by metis
  with b1 show "\<exists>bits'. go_bind (m bits) n = Val bits' \<and> length bits' = length bits
      \<and> pixels (row_bytes w) h bits' = pixels (row_bytes w) h bits \<union> (S \<union> T) \<inter> on_canvas w h" by auto
qed

lemma paints_fold:
  "(\<And>x. x \<in> set xs \<Longrightarrow> paints w h (S x) (m x)) \<Longrightarrow> paints w h (\<Union>x \<in> set xs. S x) (go_fold m xs)"
proof (induction xs)
  case Nil
  show ?case by (simp add: paints_def)
next
  case (Cons x xs)
  then have "paints w h (S x \<union> (\<Union>x \<in> set xs. S x)) (\<lambda>bits. go_bind (m x bits) (go_fold m xs))"
    by (intro paints_seq) auto
  moreover have "go_fold m (x # xs) = (\<lambda>bits. go_bind (m x bits) (go_fold m xs))" by (rule ext) simp
  ultimately show ?case by simp
qed

lemma paintGlyph_paints:
  assumes "bm_ok b" "0 \<le> w" "0 \<le> x" "0 \<le> y"
  shows "paints w h ((\<lambda>(r, c). (y + r, x + c)) ` bm_pixels b) (paintGlyph w h x y b)"
  unfolding paints_def
proof (intro allI impI)
  fix bits :: "byte list"
  assume l: "int (length bits) = row_bytes w * h"
  let ?t = "\<lambda>row col. let px = x + col; py = y + row in if px \<ge> w \<or> py \<ge> h then [] else [(py, px)]"
  have u: "(\<Union>(r, c) \<in> bm_pixels b. set (?t r c)) = (\<lambda>(r, c). (y + r, x + c)) ` bm_pixels b \<inter> on_canvas w h"
  proof (intro set_eqI iffI)
    fix p assume "p \<in> (\<Union>(r, c) \<in> bm_pixels b. set (?t r c))"
    then obtain r c where rc: "(r, c) \<in> bm_pixels b" "p = (y + r, x + c)" "x + c < w" "y + r < h"
      by (auto simp: Let_def split: if_splits)
    with bm_pixels_range [OF assms(1) rc(1)] assms(3,4)
    show "p \<in> (\<lambda>(r, c). (y + r, x + c)) ` bm_pixels b \<inter> on_canvas w h"
      by (auto simp: on_canvas_def)
  next
    fix p assume "p \<in> (\<lambda>(r, c). (y + r, x + c)) ` bm_pixels b \<inter> on_canvas w h"
    then obtain r c where "(r, c) \<in> bm_pixels b" "p = (y + r, x + c)" "x + c < w" "y + r < h"
      by (auto simp: on_canvas_def)
    then show "p \<in> (\<Union>(r, c) \<in> bm_pixels b. set (?t r c))" by (force simp: Let_def)
  qed
  also have "\<dots> \<subseteq> {(y, x). 0 \<le> y \<and> y < h \<and> 0 \<le> x \<and> x < 8 * row_bytes w}"
    using row_bytes_bounds [OF assms(2)] by (auto simp: on_canvas_def)
  finally have "(\<Union>(r, c) \<in> bm_pixels b. set (?t r c))
      \<subseteq> {(y, x). 0 \<le> y \<and> y < h \<and> 0 \<le> x \<and> x < 8 * row_bytes w}" .
  from copy_pixels_in [OF assms(1) l this]
  show "\<exists>bits'. paintGlyph w h x y b bits = Val bits' \<and> length bits' = length bits
      \<and> pixels (row_bytes w) h bits'
        = pixels (row_bytes w) h bits \<union> ((\<lambda>(r, c). (y + r, x + c)) ` bm_pixels b \<inter> on_canvas w h)"
    unfolding paintGlyph_def u .
qed

definition hline :: "int \<Rightarrow> int \<Rightarrow> int \<Rightarrow> int \<Rightarrow> (int \<times> int) set" where
  "hline x0 x1 y0 th = {(y, x). y0 \<le> y \<and> y < y0 + th \<and> x0 \<le> x \<and> x < x1}"

lemma paintHLine_paints:
  assumes "0 \<le> w"
  shows "paints w h (hline x0 x1 y0 th) (paintHLine w h x0 x1 y0 th)"
  unfolding paints_def
proof (intro allI impI)
  fix bits :: "byte list"
  assume l: "int (length bits) = row_bytes w * h"
  let ?ts = "concat (map (\<lambda>y. map (Pair y) (filter (\<lambda>x. \<not> (x < 0 \<or> x \<ge> w)) [x0..x1 - 1]))
         (filter (\<lambda>y. \<not> (y < 0 \<or> y \<ge> h)) [y0..y0 + th - 1]))"
  have s: "set ?ts = hline x0 x1 y0 th \<inter> on_canvas w h"
    by (auto simp: hline_def on_canvas_def)
  have "\<forall>(y, x) \<in> set ?ts. 0 \<le> y \<and> y < h \<and> 0 \<le> x \<and> x < 8 * row_bytes w"
    unfolding s using row_bytes_bounds [OF assms] by (auto simp: on_canvas_def)
  from set_all_in [OF l this]
  show "\<exists>bits'. paintHLine w h x0 x1 y0 th bits = Val bits' \<and> length bits' = length bits
      \<and> pixels (row_bytes w) h bits' = pixels (row_bytes w) h bits \<union> (hline x0 x1 y0 th \<inter> on_canvas w h)"
    unfolding paintHLine_def s .
qed

text \<open>A divider's dots: whole rows, or 16 dots out of every 24.\<close>

definition divider_ink :: "int \<Rightarrow> divider_el \<Rightarrow> int \<Rightarrow> (int \<times> int) set" where
  "divider_ink w d y =
     {(r, x). y \<le> r \<and> r < y + DividerThickness * ResolveSize (d_size d) \<and> 0 \<le> x \<and> x < w
        \<and> (d_style d = ''dashed'' \<longrightarrow> x mod 24 < 16)}"

lemma dashes_cover:
  assumes "0 \<le> x" "x mod 24 = 0"
  shows "(\<exists>(a, e) \<in> set (dashes w x). a \<le> z \<and> z < e) \<longleftrightarrow> x \<le> z \<and> z < w \<and> z mod 24 < 16"
  using assms
proof (induction w x rule: dashes.induct)
  case (1 w x)
  show ?case
  proof (cases "x < w")
    case False
    then show ?thesis by (auto simp: dashes.simps[of w x])
  next
    case True
    have x24: "x + dashDots + dashGapDots = x + 24" by (simp add: dashDots_def dashGapDots_def)
    have IH: "(\<exists>(a, e) \<in> set (dashes w (x + 24)). a \<le> z \<and> z < e) \<longleftrightarrow> x + 24 \<le> z \<and> z < w \<and> z mod 24 < 16"
      using 1(1) [OF True] 1(2,3) unfolding x24 by simp
    have "z mod 24 = z - x" if "x \<le> z" "z < x + 24"
    proof -
      have "z mod 24 = (x mod 24 + (z - x)) mod 24" by (simp add: mod_simps)
      with that 1(3) show ?thesis by simp
    qed
    then have "x \<le> z \<and> z < (if x + dashDots > w then w else x + dashDots) \<longleftrightarrow> x \<le> z \<and> z < x + 24 \<and> z < w \<and> z mod 24 < 16"
      by (auto simp: dashDots_def)
    then show ?thesis
      using True IH unfolding dashes.simps[of w x] x24 by auto
  qed
qed

lemma paintDivider_paints:
  assumes "0 \<le> w"
  shows "paints w h (divider_ink w d y) (paintDivider w h d y)"
proof (cases "d_style d = ''dashed''")
  case False
  have "paints w h (hline 0 w y (DividerThickness * ResolveSize (d_size d)))
      (paintHLine w h 0 w y (DividerThickness * ResolveSize (d_size d)))"
    by (rule paintHLine_paints [OF assms])
  moreover have "hline 0 w y (DividerThickness * ResolveSize (d_size d)) = divider_ink w d y"
    using False by (auto simp: hline_def divider_ink_def)
  ultimately show ?thesis using False by (simp add: paintDivider_def [abs_def] Let_def paints_def)
next
  case True
  let ?th = "DividerThickness * ResolveSize (d_size d)"
  have "paints w h (\<Union>p \<in> set (dashes w 0). case p of (x, e) \<Rightarrow> hline x e y ?th)
      (go_fold (\<lambda>(x, e). paintHLine w h x e y ?th) (dashes w 0))"
    by (rule paints_fold) (auto intro: paintHLine_paints [OF assms])
  moreover have "(\<Union>p \<in> set (dashes w 0). case p of (x, e) \<Rightarrow> hline x e y ?th) = divider_ink w d y"
  proof (intro set_eqI iffI)
    fix q assume "q \<in> (\<Union>p \<in> set (dashes w 0). case p of (x, e) \<Rightarrow> hline x e y ?th)"
    then obtain r z x e where "q = (r, z)" "(x, e) \<in> set (dashes w 0)" "x \<le> z" "z < e" "y \<le> r" "r < y + ?th"
      by (auto simp: hline_def)
    moreover from this dashes_cover [of 0 w z] have "0 \<le> z \<and> z < w \<and> z mod 24 < 16" by fastforce
    ultimately show "q \<in> divider_ink w d y" by (simp add: divider_ink_def)
  next
    fix q assume "q \<in> divider_ink w d y"
    then obtain r z where q: "q = (r, z)" "y \<le> r" "r < y + ?th" "0 \<le> z" "z < w" "z mod 24 < 16"
      using True by (auto simp: divider_ink_def)
    with dashes_cover [of 0 w z] obtain x e where "(x, e) \<in> set (dashes w 0)" "x \<le> z" "z < e" by fastforce
    with q show "q \<in> (\<Union>p \<in> set (dashes w 0). case p of (x, e) \<Rightarrow> hline x e y ?th)"
      by (force simp: hline_def)
  qed
  ultimately show ?thesis using True by (simp add: paintDivider_def [abs_def] Let_def paints_def)
qed

section \<open>What a block paints\<close>

definition shift :: "int \<Rightarrow> int \<Rightarrow> (int \<times> int) set \<Rightarrow> (int \<times> int) set" where
  "shift x y P = (\<lambda>(r, c). (y + r, x + c)) ` P"

fun text_ink :: "font \<Rightarrow> style \<Rightarrow> int \<Rightarrow> (rune \<times> string) list \<Rightarrow> int \<Rightarrow> (int \<times> int) set" where
  "text_ink f st y [] x = {}"
| "text_ink f st y ((r, _) # rs) x =
     (let (bmp, advance) = go_val (f_glyph f r) in
      shift x y (styled_px st (bm_width bmp) (bm_height bmp) (bm_pixels bmp))
      \<union> text_ink f st y rs (x + advance * sty_size st))"

fun text_width :: "font \<Rightarrow> style \<Rightarrow> (rune \<times> string) list \<Rightarrow> int" where
  "text_width f st [] = 0"
| "text_width f st ((r, _) # rs) = snd (go_val (f_glyph f r)) * sty_size st + text_width f st rs"

declare text_ink.simps(2) [simp del]

definition decoration_ink :: "block \<Rightarrow> font \<Rightarrow> int \<Rightarrow> (int \<times> int) set" where
  "decoration_ink b f textWidth =
     (let st = blk_style b; k = sty_size st;
          lh = (case blockHeight (blk_element b) st f of Some h \<Rightarrow> h | None \<Rightarrow> 0) in
      if textWidth \<le> 0 then {}
      else (if sty_underline st then hline 0 textWidth (blk_y b + lh - k) k else {})
        \<union> (if sty_strikethrough st then hline 0 textWidth (blk_y b + lh sdiv 2) k else {}))"

definition block_ink :: "int \<Rightarrow> font \<Rightarrow> block \<Rightarrow> bitmap option \<Rightarrow> (int \<times> int) set" where
  "block_ink w f b bmp =
     (if is_control (blk_element b) then {}
      else case blk_element b of
        Plain (EDivider d) \<Rightarrow> divider_ink w d (blk_y b)
      | _ \<Rightarrow>
         (case bmp of
            Some g \<Rightarrow> shift 0 (blk_y b) (bm_pixels g)
          | None \<Rightarrow>
              (case textContent (blk_element b) of
                 None \<Rightarrow> {}
               | Some content \<Rightarrow>
                   text_ink f (blk_style b) (blk_y b) (runes content) 0
                   \<union> decoration_ink b f (text_width f (blk_style b) (runes content)))))"

lemma not_divider:
  "(\<And>d. e \<noteq> Plain (EDivider d)) \<Longrightarrow>
     (case e of Plain (EDivider d) \<Rightarrow> A d | _ \<Rightarrow> X) = X"
  by (auto split: block_element.split element.split)

lemma paintDecorations_paints:
  assumes "0 \<le> w"
  shows "paints w h (decoration_ink b f x) (paintDecorations w h b f x)"
proof -
  let ?st = "blk_style b"
  let ?lh = "case blockHeight (blk_element b) ?st f of Some h \<Rightarrow> h | None \<Rightarrow> 0"
  let ?u = "hline 0 x (blk_y b + ?lh - sty_size ?st) (sty_size ?st)"
  let ?s = "hline 0 x (blk_y b + ?lh sdiv 2) (sty_size ?st)"
  have u: "paints w h (if sty_underline ?st then ?u else {})
      (\<lambda>bits. if sty_underline ?st
        then paintHLine w h 0 x (blk_y b + ?lh - sty_size ?st) (sty_size ?st) bits else Val bits)"
    using paintHLine_paints [OF assms, of h] by simp
  have s: "paints w h (if sty_strikethrough ?st then ?s else {})
      (\<lambda>bits. if sty_strikethrough ?st
        then paintHLine w h 0 x (blk_y b + ?lh sdiv 2) (sty_size ?st) bits else Val bits)"
    using paintHLine_paints [OF assms, of h] by simp
  show ?thesis
  proof (cases "x \<le> 0 \<or> (\<not> sty_underline ?st \<and> \<not> sty_strikethrough ?st)")
    case True
    then show ?thesis
      by (auto simp: paintDecorations_def [abs_def] decoration_ink_def Let_def paints_def)
  next
    case False
    then have "paintDecorations w h b f x = (\<lambda>bits. go_bind
        (if sty_underline ?st
         then paintHLine w h 0 x (blk_y b + ?lh - sty_size ?st) (sty_size ?st) bits else Val bits)
        (\<lambda>bits. if sty_strikethrough ?st
         then paintHLine w h 0 x (blk_y b + ?lh sdiv 2) (sty_size ?st) bits else Val bits))"
      by (simp only: paintDecorations_def [abs_def] Let_def if_False)
    moreover have "decoration_ink b f x = (if sty_underline ?st then ?u else {}) \<union> (if sty_strikethrough ?st then ?s else {})"
      using False by (simp add: decoration_ink_def Let_def)
    ultimately show ?thesis using paints_seq [OF u s] by simp
  qed
qed

definition placed :: "block \<times> bitmap option \<Rightarrow> bool" where
  "placed = (\<lambda>(b, bmp). 0 \<le> blk_y b \<and> 1 \<le> sty_size (blk_style b)
     \<and> (case bmp of None \<Rightarrow> True | Some g \<Rightarrow> bm_ok g))"

definition ink :: "font \<Rightarrow> int \<Rightarrow> (block \<times> bitmap option) list \<Rightarrow> (int \<times> int) set" where
  "ink f w bs = (\<Union>(b, bmp) \<in> set bs. block_ink w f b bmp)"

text \<open>The controls a list of blocks leaves, with the last one marked when it ends the document.\<close>

fun controls_of :: "block list \<Rightarrow> control list" where
  "controls_of [] = []"
| "controls_of (b # bs) =
     (if is_control (blk_element b)
      then [\<lparr>ctl_y = blk_y b, ctl_element = blk_element b, ctl_terminal = (bs = [])\<rparr>] else [])
     @ controls_of bs"

context spaced_font
begin

lemma glyph_val:
  obtains b a where "f_glyph f r = Val (b, a)" "bm_ok b" "0 \<le> a"
  using glyph_ok [of r] by blast

lemma text_width_nonneg: "0 \<le> sty_size st \<Longrightarrow> 0 \<le> text_width f st rs"
proof (induction rs)
  case (Cons c rs)
  obtain r s where c: "c = (r, s)" by (cases c)
  obtain b a where "f_glyph f r = Val (b, a)" "0 \<le> a" using glyph_val by blast
  with Cons c show ?case by simp
qed simp

lemma paint_runes:
  assumes "0 \<le> w" "0 \<le> y" "1 \<le> sty_size st" "0 \<le> x" "int (length bits) = row_bytes w * h"
  shows "\<exists>bits'. go_fold (\<lambda>(r, _) (bits, x).
         go_bind (f_glyph f r) (\<lambda>(bmp, advance).
         go_bind (styleGlyph bmp st) (\<lambda>bmp.
         go_bind (paintGlyph w h x y bmp bits) (\<lambda>bits.
         Val (bits, x + advance * sty_size st))))) rs (bits, x) = Val (bits', x + text_width f st rs)
     \<and> length bits' = length bits
     \<and> pixels (row_bytes w) h bits' = pixels (row_bytes w) h bits \<union> (text_ink f st y rs x \<inter> on_canvas w h)"
  using assms(4,5)
proof (induction rs arbitrary: bits x)
  case Nil
  then show ?case by simp
next
  case (Cons c rs)
  obtain r s where c: "c = (r, s)" by (cases c)
  obtain g a where g: "f_glyph f r = Val (g, a)" "bm_ok g" "0 \<le> a" by (rule glyph_val)
  obtain g1 where g1: "styleGlyph g st = Val g1" "bm_ok g1"
    "bm_pixels g1 = styled_px st (bm_width g) (bm_height g) (bm_pixels g)"
    using styleGlyph_spec [OF g(2) assms(3)] by blast
  obtain b1 where b1: "paintGlyph w h x y g1 bits = Val b1" "length b1 = length bits"
    "pixels (row_bytes w) h b1 = pixels (row_bytes w) h bits \<union> (shift x y (bm_pixels g1) \<inter> on_canvas w h)"
    using paintGlyph_paints [OF g1(2) assms(1) Cons.prems(1) assms(2)] Cons.prems(2)
    unfolding paints_def shift_def by blast
  have "0 \<le> x + a * sty_size st" "int (length b1) = row_bytes w * h"
    using Cons.prems g(3) assms(3) b1(2) by simp_all
  from Cons.IH [OF this] obtain b2 where b2:
    "go_fold (\<lambda>(r, _) (bits, x).
         go_bind (f_glyph f r) (\<lambda>(bmp, advance).
         go_bind (styleGlyph bmp st) (\<lambda>bmp.
         go_bind (paintGlyph w h x y bmp bits) (\<lambda>bits.
         Val (bits, x + advance * sty_size st))))) rs (b1, x + a * sty_size st)
       = Val (b2, x + a * sty_size st + text_width f st rs)"
    "length b2 = length b1"
    "pixels (row_bytes w) h b2 = pixels (row_bytes w) h b1 \<union> (text_ink f st y rs (x + a * sty_size st) \<inter> on_canvas w h)"
    by blast
  show ?case
    using c g(1) g1 b1 b2 by (intro exI[of _ b2]) (auto simp: text_ink.simps(2))
qed

lemma paintText_val:
  assumes "0 \<le> w" "0 \<le> y" "1 \<le> sty_size st" "int (length bits) = row_bytes w * h"
  shows "\<exists>bits'. paintText w h f st y content bits = Val (bits', text_width f st (runes content))
     \<and> length bits' = length bits
     \<and> pixels (row_bytes w) h bits'
       = pixels (row_bytes w) h bits \<union> (text_ink f st y (runes content) 0 \<inter> on_canvas w h)"
  using paint_runes [OF assms(1-3) order_refl assms(4), of "runes content"] by (simp add: paintText_def)

lemma paint_block_val:
  assumes "0 \<le> w" "placed (b, bmp)" "int (length bits) = row_bytes w * h"
  shows "\<exists>bits'. paint_block w h f isLast (b, bmp) bits = Val (bits',
       if is_control (blk_element b)
       then [\<lparr>ctl_y = blk_y b, ctl_element = blk_element b, ctl_terminal = isLast\<rparr>] else [])
     \<and> length bits' = length bits
     \<and> pixels (row_bytes w) h bits' = pixels (row_bytes w) h bits \<union> (block_ink w f b bmp \<inter> on_canvas w h)"
proof -
  let ?P = "pixels (row_bytes w) h"
  from assms(2) have y: "0 \<le> blk_y b" "1 \<le> sty_size (blk_style b)" by (auto simp: placed_def)
  consider (control) "is_control (blk_element b)"
    | (divider) d where "blk_element b = Plain (EDivider d)"
    | (other) "\<not> is_control (blk_element b)" "\<And>d. blk_element b \<noteq> Plain (EDivider d)" by blast
  then show ?thesis
  proof cases
    case control
    then show ?thesis by (simp add: paint_block_def block_ink_def)
  next
    case divider
    with paintDivider_paints [OF assms(1), of h d "blk_y b"] assms(3) show ?thesis
      unfolding paints_def by (fastforce simp: paint_block_def block_ink_def)
  next
    case other
    note nd = not_divider [OF other(2)]
    show ?thesis
    proof (cases bmp)
      case (Some g)
      with assms(2) have "bm_ok g" by (simp add: placed_def)
      from paintGlyph_paints [OF this assms(1) order_refl y(1)] assms(3) other(1) Some show ?thesis
        unfolding paints_def shift_def [symmetric] by (fastforce simp: paint_block_def block_ink_def nd)
    next
      case None
      show ?thesis
      proof (cases "textContent (blk_element b)")
        case None
        with \<open>bmp = None\<close> other(1) show ?thesis by (simp add: paint_block_def block_ink_def nd)
      next
        case (Some content)
        obtain b1 where b1: "paintText w h f (blk_style b) (blk_y b) content bits
            = Val (b1, text_width f (blk_style b) (runes content))" "length b1 = length bits"
          "?P b1 = ?P bits \<union> (text_ink f (blk_style b) (blk_y b) (runes content) 0 \<inter> on_canvas w h)"
          using paintText_val [OF assms(1) y assms(3)] by blast
        obtain b2 where "paintDecorations w h b f (text_width f (blk_style b) (runes content)) b1 = Val b2"
          "length b2 = length b1"
          "?P b2 = ?P b1 \<union> (decoration_ink b f (text_width f (blk_style b) (runes content)) \<inter> on_canvas w h)"
          using paintDecorations_paints [OF assms(1), of h b f] b1(2) assms(3) unfolding paints_def by metis
        with b1 None Some other(1) show ?thesis
          by (auto simp: paint_block_def block_ink_def nd)
      qed
    qed
  qed
qed

lemma paint_blocks_val:
  assumes "0 \<le> w" "\<forall>p \<in> set bs. placed p" "int (length bits) = row_bytes w * h"
  shows "\<exists>bits'. paint_blocks w h f bs bits = Val (bits', controls_of (map fst bs))
     \<and> length bits' = length bits
     \<and> pixels (row_bytes w) h bits' = pixels (row_bytes w) h bits \<union> (ink f w bs \<inter> on_canvas w h)"
  using assms(2,3)
proof (induction bs arbitrary: bits)
  case Nil
  then show ?case by (simp add: ink_def)
next
  case (Cons p bs)
  obtain b bmp where p: "p = (b, bmp)" by (cases p)
  from Cons.prems p have pl: "placed (b, bmp)" by simp
  obtain b1 where b1: "paint_block w h f (bs = []) (b, bmp) bits = Val (b1,
       if is_control (blk_element b)
       then [\<lparr>ctl_y = blk_y b, ctl_element = blk_element b, ctl_terminal = (bs = [])\<rparr>] else [])"
    "length b1 = length bits"
    "pixels (row_bytes w) h b1 = pixels (row_bytes w) h bits \<union> (block_ink w f b bmp \<inter> on_canvas w h)"
    using paint_block_val [OF assms(1) pl Cons.prems(2)] by blast
  from Cons.prems b1(2) have "\<forall>p \<in> set bs. placed p" "int (length b1) = row_bytes w * h" by auto
  from Cons.IH [OF this] obtain b2 where "paint_blocks w h f bs b1 = Val (b2, controls_of (map fst bs))"
    "length b2 = length b1"
    "pixels (row_bytes w) h b2 = pixels (row_bytes w) h b1 \<union> (ink f w bs \<inter> on_canvas w h)" by blast
  with b1 p show ?case by (auto simp: ink_def)
qed

end

end
