(* ===== verification/Render.thy ===== *)
theory Render
  imports Canvas
begin

text \<open>
  The renderer as a whole: \<open>Build\<close> followed by \<open>Paint\<close>.  The image decoders and code generators
  are parameters, with what their documentation says of bounds as \<open>codecs_ok\<close>.  The lemmas show
  that neither stage crashes on a valid receipt, that the canvas is exactly the ink of the
  blocks, and that the two stages agree on every height when the header of an image gives the
  size of its pixels.
\<close>

section \<open>Hypotheses on the decoders and generators\<close>

definition image_ok :: "image \<Rightarrow> bool" where
  "image_ok img \<longleftrightarrow> 0 \<le> img_dx img \<and> 0 \<le> img_dy img"

definition codecs_ok :: "codecs \<Rightarrow> bool" where
  "codecs_ok cd \<longleftrightarrow>
     (\<forall>d w h fm. decode_config cd d = Inr (w, h, fm) \<longrightarrow> 0 \<le> w \<and> 0 \<le> h)
   \<and> (\<forall>d img. decode_pixels cd d = Inr img \<longrightarrow> image_ok img)
   \<and> (\<forall>c l img. qr_encode cd c l = Inr img \<longrightarrow> image_ok img)
   \<and> (\<forall>c img. code128_encode cd c = Inr img \<longrightarrow> image_ok img)
   \<and> (\<forall>c img. ean_encode cd c = Inr img \<longrightarrow> image_ok img)
   \<and> (\<forall>c a b img. code39_encode cd c a b = Inr img \<longrightarrow> image_ok img)
   \<and> (\<forall>c a img. twooffive_encode cd c a = Inr img \<longrightarrow> image_ok img)"

text \<open>
  The header of \<open>data\<close> declares the bounds of the decoded image.  It does for PNG, JPEG, BMP and
  WebP; for a GIF it declares the logical screen, and the decoded image is the first frame.
\<close>

definition dims_agree :: "codecs \<Rightarrow> byte list \<Rightarrow> bool" where
  "dims_agree cd d \<longleftrightarrow>
     (\<forall>w h fm img. decode_config cd d = Inr (w, h, fm) \<longrightarrow> decode_pixels cd d = Inr img \<longrightarrow>
        img_dx img = w \<and> img_dy img = h)"

lemma barcode_image_ok: "codecs_ok cd \<Longrightarrow> barcode_encode cd b = Inr img \<Longrightarrow> image_ok img"
  unfolding barcode_encode_def Let_def codecs_ok_def by (auto split: if_splits)

section \<open>Sizes\<close>

lemma scaledImageSize_val:
  assumes "0 \<le> w" "0 \<le> h"
  shows "\<exists>w' h'. scaledImageSize w h mw = Val (w', h') \<and> 0 \<le> w' \<and> 0 \<le> h'"
  using assms by (auto simp: scaledImageSize_def go_div_pos pos_imp_zdiv_nonneg_iff)

lemma targetImageSize_nonneg:
  assumes "0 \<le> w" "0 \<le> h" "targetImageSize w h rw mw = Val (w', h')"
  shows "0 \<le> w' \<and> 0 \<le> h'"
proof (cases "resolveTargetWidth rw mw > 0")
  case True
  with assms(3) have "w \<noteq> 0" "w' = resolveTargetWidth rw mw"
    and q: "go_div (h * resolveTargetWidth rw mw) w = (Val h' :: int res)"
    by (auto simp: targetImageSize_def Let_def go_simps go_div_def split: if_splits)
  then have "0 < w" using assms(1) by simp
  with q have "h' = h * resolveTargetWidth rw mw div w" using assms(2) True by (simp add: go_div_pos)
  with \<open>0 < w\<close> assms(2) True \<open>w' = _\<close> show ?thesis by (simp add: pos_imp_zdiv_nonneg_iff)
next
  case False
  with assms scaledImageSize_val [OF assms(1,2), of mw] show ?thesis
    by (auto simp: targetImageSize_def Let_def)
qed

lemma targetImageSize_safe: "w \<noteq> 0 \<or> rw \<le> 0 \<Longrightarrow> go_safe (targetImageSize w h rw mw)"
  by (auto simp: targetImageSize_def scaledImageSize_def Let_def resolveTargetWidth_def go_div_def)

lemma alignBitmap_val:
  assumes "bm_ok b"
  shows "\<exists>b'. alignBitmap b al mw = Val b' \<and> bm_ok b' \<and> bm_height b' = bm_height b"
proof (cases "(al = ''center'' \<or> al = ''right'') \<and> bm_width b < mw")
  case True
  with alignBitmap_spec [OF assms, of al mw] show ?thesis by blast
next
  case False
  with assms show ?thesis by (auto simp: alignBitmap_def)
qed

lemma qrCodeSize_val: "\<exists>n. qrCodeSize q mw = Val n \<and> 0 \<le> n"
proof -
  let ?s = "if q_size q \<le> 0 then DefaultQRCodeSize else q_size q"
  have "0 \<le> ?s" by (simp add: DefaultQRCodeSize_def)
  from scaledImageSize_val [OF this this, of mw] show ?thesis
    by (auto simp: qrCodeSize_def Let_def)
qed

lemma barcodeWidth_nonneg: "0 \<le> n \<Longrightarrow> 0 \<le> barcodeWidth n mw"
  by (simp add: barcodeWidth_def Let_def barcodeModuleWidth_def)

lemma barcodeHeight_pos: "0 < barcodeHeight b"
  by (simp add: barcodeHeight_def DefaultBarcodeHeight_def)

section \<open>Raster bitmaps are well formed\<close>

lemma decodeImage_ok: "codecs_ok cd \<Longrightarrow> decodeImage cd d = Val img \<Longrightarrow> image_ok img"
  by (auto simp: decodeImage_def codecs_ok_def split: sum.splits option.splits prod.splits)

lemma decodeImage_safe [simp]: "go_safe (decodeImage cd d)"
  by (auto simp: decodeImage_def split: sum.split option.split)

lemma decodeImageConfig_safe [simp]: "go_safe (decodeImageConfig cd d)"
  by (auto simp: decodeImageConfig_def split: sum.split option.split)

lemma map_fail_Val [simp]: "map_fail h m = Val a \<longleftrightarrow> m = Val a"
  by (cases m) auto

lemma map_fail_safe [simp]: "go_safe (map_fail h m) = go_safe m"
  by (cases m) auto

lemma DecodeAlignedAssetBitmap_val:
  assumes cd: "codecs_ok cd" and i: "decodeImage cd d = Val img"
    and t: "targetImageSize (img_dx img) (img_dy img) width mw = Val (w, h)"
  shows "\<exists>g. DecodeAlignedAssetBitmap cd d width al mw = Val g \<and> bm_ok g \<and> bm_height g = h"
proof -
  have img: "0 \<le> img_dx img" "0 \<le> img_dy img"
    using decodeImage_ok [OF cd i] by (auto simp: image_ok_def)
  note wh = targetImageSize_nonneg [OF img t]
  obtain b where b: "rasterizeImage img w h = Val b" "bm_ok b" "bm_height b = h"
    using rasterizeImage_spec [of w h img] wh img by blast
  obtain b' where "alignBitmap b al mw = Val b'" "bm_ok b'" "bm_height b' = bm_height b"
    using alignBitmap_val [OF b(2)] by blast
  with b i t show ?thesis by (simp add: DecodeAlignedAssetBitmap_def)
qed

lemma DecodeImageBitmap_aligned: "DecodeImageBitmap cd d mw = DecodeAlignedAssetBitmap cd d 0 '''' mw"
proof -
  have "go_bind m (\<lambda>b. alignBitmap b '''' mw) = m" for m :: "bitmap res"
    by (cases m) (simp_all add: alignBitmap_def)
  then show ?thesis by (simp add: DecodeImageBitmap_def DecodeAlignedAssetBitmap_def)
qed

lemma GenerateQRCodeBitmap_val:
  assumes cd: "codecs_ok cd" and e: "qr_encode cd (q_content q) (RecoveryLevel q) = Inr img"
    and s: "qrCodeSize q mw = Val n"
  shows "\<exists>g. GenerateQRCodeBitmap cd q mw = Val g \<and> bm_ok g \<and> bm_height g = n"
proof -
  have "image_ok img" using cd e by (auto simp: codecs_ok_def)
  moreover have "0 \<le> n" using qrCodeSize_val [of q mw] s by auto
  ultimately show ?thesis
    using rasterizeImage_spec [of n n img] e s by (auto simp: image_ok_def GenerateQRCodeBitmap_def)
qed

lemma GenerateBarcodeBitmap_val:
  assumes cd: "codecs_ok cd" and e: "barcode_encode cd b = Inr img"
  shows "\<exists>g. GenerateBarcodeBitmap cd b mw = Val g \<and> bm_ok g \<and> bm_height g = barcodeHeight b"
proof -
  have "image_ok img" by (rule barcode_image_ok [OF cd e])
  then show ?thesis
    using rasterizeImage_spec [of "barcodeWidth (img_dx img) mw" "barcodeHeight b" img]
      barcodeWidth_nonneg [of "img_dx img" mw] barcodeHeight_pos [of b] e
    by (auto simp: image_ok_def GenerateBarcodeBitmap_def)
qed

lemma DecodeAlignedAssetBitmap_ok:
  assumes cd: "codecs_ok cd" and v: "DecodeAlignedAssetBitmap cd d width al mw = Val g"
  shows "bm_ok g"
proof -
  from v obtain img w h where i: "decodeImage cd d = Val img"
    and t: "targetImageSize (img_dx img) (img_dy img) width mw = Val (w, h)"
    by (auto simp: DecodeAlignedAssetBitmap_def go_simps)
  from DecodeAlignedAssetBitmap_val [OF cd i t, of al] v show ?thesis by auto
qed

lemma rasterBitmap_ok:
  assumes cd: "codecs_ok cd" and "rasterBitmap cd el mw = Some (Val g)"
  shows "bm_ok g"
  using assms(2)
proof (cases rule: rasterBitmap.cases [of "(cd, el, mw)"])
  case (1 cd' data mw')
  with assms(2) have "DecodeAlignedAssetBitmap cd data 0 '''' mw = Val g"
    by (simp add: DecodeImageBitmap_aligned)
  then show ?thesis by (rule DecodeAlignedAssetBitmap_ok [OF cd])
next
  case (2 cd' q mw')
  then have v: "GenerateQRCodeBitmap cd q mw = Val g" using assms(2) by simp
  then obtain img where e: "qr_encode cd (q_content q) (RecoveryLevel q) = Inr img"
    by (auto simp: GenerateQRCodeBitmap_def split: sum.splits)
  obtain n where "qrCodeSize q mw = Val n" using qrCodeSize_val by blast
  from GenerateQRCodeBitmap_val [OF cd e this] v show ?thesis by auto
next
  case (3 cd' b mw')
  then have v: "GenerateBarcodeBitmap cd b mw = Val g" using assms(2) by simp
  then obtain img where e: "barcode_encode cd b = Inr img"
    by (auto simp: GenerateBarcodeBitmap_def split: sum.splits)
  from GenerateBarcodeBitmap_val [OF cd e, of mw] v show ?thesis by auto
next
  case (4 cd' data width al mw')
  then have "DecodeAlignedAssetBitmap cd data width al mw = Val g" using assms(2) by simp
  then show ?thesis by (rule DecodeAlignedAssetBitmap_ok [OF cd])
qed (use assms(2) in auto)

section \<open>The sizing pass\<close>

definition resolved :: "codecs \<Rightarrow> int \<Rightarrow> block \<times> bitmap option \<Rightarrow> bool" where
  "resolved cd dw = (\<lambda>(b, bmp). rasterBitmap cd (blk_element b) dw = map_option Val bmp)"

text \<open>The bottom edge of a sized block.\<close>

definition bottom_of :: "font \<Rightarrow> block \<times> bitmap option \<Rightarrow> int" where
  "bottom_of f = (\<lambda>(b, bmp). blk_y b + (case bmp of Some g \<Rightarrow> bm_height g
     | None \<Rightarrow> (case blockHeight (blk_element b) (blk_style b) f of Some h \<Rightarrow> h | None \<Rightarrow> 0)))"

lemma size_blocks_val:
  assumes "size_blocks cd dw f cf bs w0 h0 = Val ((w, h), bmps)"
  shows "length bmps = length bs \<and> (\<forall>p \<in> set (zip bs bmps). resolved cd dw p)
    \<and> w0 \<le> w \<and> (\<not> cf \<longrightarrow> w = w0) \<and> h = fold (\<lambda>p h. max h (bottom_of f p)) (zip bs bmps) h0"
  using assms
proof (induction bs arbitrary: w0 h0 bmps)
  case Nil
  then show ?case by simp
next
  case (Cons b bs)
  let ?pick = "case rasterBitmap cd (blk_element b) dw of
          Some m \<Rightarrow>
            go_bind (map_fail (\<lambda>err. wrap KindPermanent ''canvas.Paint'' (Some err)) m) (\<lambda>bmp.
              Val (bm_height bmp, if cf \<and> bm_width bmp > w0 then bm_width bmp else w0, Some bmp))
        | None \<Rightarrow>
            (case blockHeight (blk_element b) (blk_style b) f of
               None \<Rightarrow> Fail (wrap KindPermanent ''canvas.Paint''
                         (Some (errorf ''unsupported element type %T'' [FStr (block_type (blk_element b))])))
             | Some bh \<Rightarrow>
                 let width = (if cf
                    then (case textContent (blk_element b) of
                            Some content \<Rightarrow>
                              (let w = f_measure f content * sty_size (blk_style b)
                               in if w > w0 then w else w0)
                          | None \<Rightarrow> w0)
                    else w0)
                 in Val (bh, width, None))"
  from Cons.prems obtain bh w1 bmp bmps' where p: "?pick = Val (bh, w1, bmp)"
    and r: "size_blocks cd dw f cf bs w1 (if blk_y b + bh > h0 then blk_y b + bh else h0) = Val ((w, h), bmps')"
    and e: "bmps = bmp # bmps'"
    unfolding size_blocks.simps(2) Let_def [of "_ + _"] by (auto simp: go_simps)
  have "resolved cd dw (b, bmp)" "w0 \<le> w1" "\<not> cf \<longrightarrow> w1 = w0" "bottom_of f (b, bmp) = blk_y b + bh"
    using p by (auto simp: resolved_def bottom_of_def Let_def go_simps split: option.splits if_splits)
  moreover have "(if blk_y b + bh > h0 then blk_y b + bh else h0) = max h0 (blk_y b + bh)" by simp
  ultimately show ?case using Cons.IH [OF r] e by auto
qed

section \<open>Paint\<close>

definition doc_placed :: "document \<Rightarrow> bool" where
  "doc_placed doc \<longleftrightarrow> 0 \<le> doc_width doc
     \<and> (\<forall>b \<in> set (doc_blocks doc). 0 \<le> blk_y b \<and> 1 \<le> sty_size (blk_style b))"

definition canvas_pixels :: "canvas \<Rightarrow> (int \<times> int) set" where
  "canvas_pixels c = pixels (row_bytes (cv_width c)) (cv_height c) (cv_bits c)"

lemma fold_max_ge: "h \<le> fold (\<lambda>p h. max h (g p :: int)) ps h"
proof (induction ps arbitrary: h)
  case (Cons p ps)
  from Cons [of "max h (g p)"] show ?case by simp
qed simp

context spaced_font
begin

text \<open>Once the blocks are sized, painting cannot fail, and paints exactly their ink.\<close>

lemma Paint_sized:
  assumes cd: "codecs_ok cd" and doc: "doc_placed doc" "doc_font doc = f"
    and sz: "size_blocks cd (doc_width doc) f (doc_width doc \<le> 0) (doc_blocks doc) (doc_width doc) 0
             = Val ((w, h), bmps)"
  shows "\<exists>c. Paint cd doc = Val c \<and> cv_width c = w \<and> cv_height c = h
    \<and> int (length (cv_bits c)) = row_bytes w * h
    \<and> canvas_pixels c = ink f w (zip (doc_blocks doc) bmps) \<inter> on_canvas w h
    \<and> cv_controls c = controls_of (doc_blocks doc)"
proof -
  note s = size_blocks_val [OF sz]
  have w: "0 \<le> w" using s doc(1) by (simp add: doc_placed_def)
  have h: "0 \<le> h" using s fold_max_ge [of 0 "bottom_of f"] by simp
  have n: "0 \<le> row_bytes w * h" using row_bytes_bounds [OF w] h by simp
  let ?z = "replicate (nat (row_bytes w * h)) (0::byte)"
  have pl: "\<forall>p \<in> set (zip (doc_blocks doc) bmps). placed p"
  proof
    fix p assume p: "p \<in> set (zip (doc_blocks doc) bmps)"
    obtain b bmp where e: "p = (b, bmp)" by (cases p)
    with p have "b \<in> set (doc_blocks doc)" by (auto dest: set_zip_leftD)
    moreover have "bm_ok g" if "bmp = Some g" for g
    proof -
      have "rasterBitmap cd (blk_element b) (doc_width doc) = Some (Val g)"
        using s p e that by (auto simp: resolved_def dest!: bspec)
      then show ?thesis by (rule rasterBitmap_ok [OF cd])
    qed
    ultimately show "placed p" using doc(1) e by (auto simp: placed_def doc_placed_def split: option.split)
  qed
  obtain bits where b: "paint_blocks w h f (zip (doc_blocks doc) bmps) ?z
      = Val (bits, controls_of (map fst (zip (doc_blocks doc) bmps)))" "length bits = length ?z"
    "pixels (row_bytes w) h bits = ink f w (zip (doc_blocks doc) bmps) \<inter> on_canvas w h"
    using paint_blocks_val [OF w pl, of ?z h] n by (auto simp: pixels_make)
  have "map fst (zip (doc_blocks doc) bmps) = doc_blocks doc" using s by simp
  with b n sz doc(2) show ?thesis
    by (auto simp: Paint_def Let_def make_bytes_def canvas_pixels_def)
qed

lemma Paint_val:
  assumes "codecs_ok cd" "doc_placed doc" "doc_font doc = f" "Paint cd doc = Val c"
  shows "\<exists>bmps. length bmps = length (doc_blocks doc)
    \<and> (\<forall>p \<in> set (zip (doc_blocks doc) bmps). resolved cd (doc_width doc) p)
    \<and> (0 < doc_width doc \<longrightarrow> cv_width c = doc_width doc)
    \<and> cv_height c = fold (\<lambda>p h. max h (bottom_of f p)) (zip (doc_blocks doc) bmps) 0
    \<and> int (length (cv_bits c)) = row_bytes (cv_width c) * cv_height c
    \<and> canvas_pixels c = ink f (cv_width c) (zip (doc_blocks doc) bmps) \<inter> on_canvas (cv_width c) (cv_height c)
    \<and> cv_controls c = controls_of (doc_blocks doc)"
proof -
  from assms(3,4) obtain w h bmps where
    sz: "size_blocks cd (doc_width doc) f (doc_width doc \<le> 0) (doc_blocks doc) (doc_width doc) 0 = Val ((w, h), bmps)"
    by (auto simp: Paint_def Let_def go_simps)
  from Paint_sized [OF assms(1-3) sz] assms(4) size_blocks_val [OF sz] show ?thesis
    by (intro exI[of _ bmps]) auto
qed

lemma Paint_width:
  assumes "codecs_ok cd" "doc_placed doc" "doc_font doc = f" "Paint cd doc = Val c" "0 \<le> doc_width doc"
  shows "0 \<le> cv_width c"
proof -
  from assms(3,4) obtain w h bmps where
    sz: "size_blocks cd (doc_width doc) f (doc_width doc \<le> 0) (doc_blocks doc) (doc_width doc) 0 = Val ((w, h), bmps)"
    by (auto simp: Paint_def Let_def go_simps)
  from Paint_sized [OF assms(1-3) sz] assms(4,5) size_blocks_val [OF sz] show ?thesis by auto
qed

end

section \<open>Build stacks its blocks\<close>

text \<open>
  \<open>extent cd f dw b h\<close>: \<open>h\<close> is the height that \<open>Paint\<close> gives the block, whenever it can
  resolve its bitmap and the header of an image gives the bounds of its pixels.
\<close>

fun agrees :: "codecs \<Rightarrow> block_element \<Rightarrow> bool" where
  "agrees cd (Plain (EImage d)) = dims_agree cd d"
| "agrees cd (AlignedAsset d _ _) = dims_agree cd d"
| "agrees cd _ = True"

definition extent :: "codecs \<Rightarrow> font \<Rightarrow> int \<Rightarrow> block \<Rightarrow> int \<Rightarrow> bool" where
  "extent cd f dw b h \<longleftrightarrow>
     (case rasterBitmap cd (blk_element b) dw of
        Some m \<Rightarrow> agrees cd (blk_element b) \<longrightarrow> (\<forall>g. m = Val g \<longrightarrow> bm_height g = h)
      | None \<Rightarrow> blockHeight (blk_element b) (blk_style b) f = Some h)"

fun stacked :: "(block \<Rightarrow> int \<Rightarrow> bool) \<Rightarrow> int \<Rightarrow> block list \<Rightarrow> int \<Rightarrow> bool" where
  "stacked ext y [] y' \<longleftrightarrow> y' = y"
| "stacked ext y (b # bs) y' \<longleftrightarrow>
     blk_y b = y \<and> 1 \<le> sty_size (blk_style b) \<and> (\<exists>h \<ge> 0. ext b h \<and> stacked ext (y + h) bs y')"

lemma stacked_append:
  "stacked ext y (as @ bs) y' \<longleftrightarrow> (\<exists>z. stacked ext y as z \<and> stacked ext z bs y')"
  by (induction as arbitrary: y) auto

lemma stacked_mono: "stacked ext y bs y' \<Longrightarrow> y \<le> y' \<and> (\<forall>b \<in> set bs. y \<le> blk_y b \<and> 1 \<le> sty_size (blk_style b))"
proof (induction bs arbitrary: y)
  case (Cons b bs)
  then obtain h where "0 \<le> h" "stacked ext (y + h) bs y'" by auto
  with Cons show ?case by fastforce
qed simp

lemma stack_lines_stacked:
  assumes "0 \<le> h" "1 \<le> sty_size st" "\<And>l. ext (mk_block 0 (mk l) st) h"
    and "\<And>b b' k. ext b k \<Longrightarrow> blk_element b = blk_element b' \<Longrightarrow> blk_style b = blk_style b' \<Longrightarrow> ext b' k"
  shows "stacked ext y (fst (stack_lines mk st h y ls)) (snd (stack_lines mk st h y ls))"
proof (induction ls arbitrary: y)
  case (Cons l ls)
  have "ext (mk_block y (mk l) st) h"
    using assms(4) [OF assms(3)[of l], of "mk_block y (mk l) st"] by (simp add: mk_block_def)
  with Cons [of "y + h"] assms(1,2) show ?case
    by (auto simp: mk_block_def Let_def split: prod.split)
qed simp

text \<open>What \<open>Build\<close> relies on in one element: a spacer is not negative.\<close>

definition heights_ok :: "element option \<Rightarrow> bool" where
  "heights_ok el \<longleftrightarrow> (\<forall>h. el = Some (ESpacer h) \<longrightarrow> 0 \<le> h)"

lemma extent_block:
  "extent cd f dw b k \<Longrightarrow> blk_element b = blk_element b' \<Longrightarrow> blk_style b = blk_style b' \<Longrightarrow> extent cd f dw b' k"
  by (auto simp: extent_def split: option.splits)

lemma decodeImageConfig_dims:
  "decodeImageConfig cd d = Val (w, h) \<Longrightarrow> \<exists>fm. decode_config cd d = Inr (w, h, fm)"
  by (auto simp: decodeImageConfig_def split: sum.splits option.splits)

lemma decodeImage_pixels: "decodeImage cd d = Val img \<Longrightarrow> decode_pixels cd d = Inr img"
  by (auto simp: decodeImage_def split: sum.splits option.splits)

lemma aligned_height:
  assumes cd: "codecs_ok cd" and ag: "dims_agree cd d"
    and c: "decodeImageConfig cd d = Val (w, h)" and t: "targetImageSize w h rw mw = Val (w', h')"
    and g: "DecodeAlignedAssetBitmap cd d rw al mw = Val g"
  shows "bm_height g = h'"
proof -
  from g obtain img where i: "decodeImage cd d = Val img" by (auto simp: DecodeAlignedAssetBitmap_def go_simps)
  have "img_dx img = w" "img_dy img = h"
    using ag decodeImageConfig_dims [OF c] decodeImage_pixels [OF i] by (auto simp: dims_agree_def)
  with DecodeAlignedAssetBitmap_val [OF cd i, of rw mw w' h' al] t g show ?thesis by simp
qed

lemma one_block_stacked:
  assumes "0 \<le> h" "1 \<le> sty_size st" "extent cd f dw (mk_block y el st) h"
  shows "stacked (extent cd f dw) y [mk_block y el st] (y + h)"
  using assms by (auto simp: mk_block_def intro!: exI[of _ h])

lemma style_sizes [simp]:
  "sty_size normalStyle = 1" "sty_size headingStyle = 2" "sty_size (textStyle t) = ResolveSize (t_size t)"
  by (simp_all add: normalStyle_def headingStyle_def textStyle_def)

lemma target_zero: "targetImageSize w h 0 mw = scaledImageSize w h mw"
  by (simp add: targetImageSize_def resolveTargetWidth_def)

context spaced_font
begin

lemma text_stacked:
  assumes "1 \<le> sty_size st" "\<And>l. rasterBitmap cd (mk l) dw = None"
    and "\<And>l. blockHeight (mk l) st f = Some (f_line_height f * sty_size st)"
    and "stack_lines mk st (f_line_height f * sty_size st) y ls = (bs, y')"
  shows "stacked (extent cd f dw) y bs y'"
proof -
  have "0 \<le> f_line_height f * sty_size st" using assms(1) line_height_pos by simp
  from stack_lines_stacked [of "f_line_height f * sty_size st" st "extent cd f dw" mk y ls,
      OF this assms(1) _ extent_block] assms(2-4)
  show ?thesis by (simp add: extent_def mk_block_def)
qed

lemma build_element_stacked:
  assumes cd: "codecs_ok cd" and ok: "heights_ok el"
    and v: "build_element cd store p f y el = Val (bs, y')"
  shows "stacked (extent cd f (p_width_dots p)) y bs y'"
proof (cases el)
  case None
  with v show ?thesis by (simp add: build_element_def Let_def)
next
  case (Some e)
  let ?mw = "p_width_dots p"
  have lh: "0 < f_line_height f" by (rule line_height_pos)
  show ?thesis
  proof (cases e)
    case (EText t)
    with Some v obtain ls where "stack_lines (\<lambda>l. Plain (EText (t\<lparr>t_content := l\<rparr>))) (textStyle t) (f_line_height f * sty_size (textStyle t)) y ls = (bs, y')"
      by (auto simp: build_element_def Let_def go_simps)
    then show ?thesis by (rule text_stacked [rotated 3]) simp_all
  next
    case (EHeading c)
    with Some v obtain ls where "stack_lines (\<lambda>l. Plain (EHeading l)) headingStyle (f_line_height f * sty_size headingStyle) y ls = (bs, y')"
      by (auto simp: build_element_def Let_def go_simps)
    then show ?thesis by (rule text_stacked [rotated 3]) simp_all
  next
    case (EDivider d)
    have "0 \<le> DividerThickness * ResolveSize (d_size d)"
      by (simp add: DividerThickness_def ResolveSize_def)
    with EDivider Some v show ?thesis
      by (auto simp: build_element_def Let_def extent_def mk_block_def)
  next
    case (ESpacer h)
    with ok Some v show ?thesis
      by (auto simp: build_element_def Let_def extent_def mk_block_def heights_ok_def)
  next
    case (EImage d)
    with Some v obtain w h w' h' where c: "decodeImageConfig cd d = Val (w, h)"
      and t: "scaledImageSize w h ?mw = Val (w', h')"
      and r: "bs = [mk_block y (Plain (EImage d)) normalStyle]" "y' = y + h'"
      by (auto simp: build_element_def Let_def go_simps imageHeight_def)
    have nn: "0 \<le> w" "0 \<le> h" using decodeImageConfig_dims [OF c] cd by (auto simp: codecs_ok_def)
    have "0 \<le> h'" using scaledImageSize_val [OF nn, of ?mw] t by auto
    moreover have "extent cd f ?mw (mk_block y (Plain (EImage d)) normalStyle) h'"
      using aligned_height [OF cd _ c, of 0 ?mw w' h' "''''"] t
      by (auto simp: extent_def mk_block_def DecodeImageBitmap_aligned target_zero)
    ultimately show ?thesis unfolding r by (intro one_block_stacked) simp_all
  next
    case (EAsset a)
    with Some v obtain get d w h w' h' where c: "decodeImageConfig cd d = Val (w, h)"
      and t: "targetImageSize w h (a_width a) ?mw = Val (w', h')"
      and r: "bs = [mk_block y (AlignedAsset d (a_width a) (a_align a)) normalStyle]" "y' = y + h'"
      by (auto simp: build_element_def Let_def go_simps assetHeight_def split: option.splits sum.splits)
    have nn: "0 \<le> w" "0 \<le> h" using decodeImageConfig_dims [OF c] cd by (auto simp: codecs_ok_def)
    have "0 \<le> h'" using targetImageSize_nonneg [OF nn t] by simp
    moreover have "extent cd f ?mw (mk_block y (AlignedAsset d (a_width a) (a_align a)) normalStyle) h'"
      using aligned_height [OF cd _ c t] by (auto simp: extent_def mk_block_def)
    ultimately show ?thesis unfolding r by (intro one_block_stacked) simp_all
  next
    case (EQRCode q)
    with Some v obtain img n where e: "qr_encode cd (q_content q) (RecoveryLevel q) = Inr img"
      and n: "qrCodeSize q ?mw = Val n"
      and r: "bs = [mk_block y (Plain (EQRCode q)) normalStyle]" "y' = y + n"
      by (auto simp: build_element_def Let_def go_simps qrCodeDimensions_def split: sum.splits)
    have "0 \<le> n" using qrCodeSize_val [of q ?mw] n by auto
    moreover have "extent cd f ?mw (mk_block y (Plain (EQRCode q)) normalStyle) n"
      using GenerateQRCodeBitmap_val [OF cd e n] by (auto simp: extent_def mk_block_def)
    ultimately show ?thesis unfolding r by (intro one_block_stacked) simp_all
  next
    case (EBarcode b)
    let ?bc = "mk_block y (Plain (EBarcode b)) normalStyle"
    from EBarcode Some v obtain img where e: "barcode_encode cd b = Inr img"
      by (auto simp: build_element_def Let_def go_simps barcodeDimensions_def split: sum.splits)
    have ext: "extent cd f ?mw ?bc (barcodeHeight b)"
      using GenerateBarcodeBitmap_val [OF cd e, of ?mw] by (auto simp: extent_def mk_block_def)
    have one: "stacked (extent cd f ?mw) y [?bc] (y + barcodeHeight b)"
      using barcodeHeight_pos [of b] ext by (intro one_block_stacked) simp_all
    show ?thesis
    proof (cases "b_show_text b")
      case False
      with EBarcode Some v e one show ?thesis
        by (simp add: build_element_def Let_def barcodeDimensions_def)
    next
      case True
      with EBarcode Some v e obtain caption where
        r: "bs = [?bc] @ [mk_block (y + barcodeHeight b) (BarcodeCaption caption) normalStyle]"
          "y' = y + barcodeHeight b + f_line_height f"
        by (auto simp: build_element_def Let_def barcodeDimensions_def go_simps)
      have "stacked (extent cd f ?mw) (y + barcodeHeight b)
          [mk_block (y + barcodeHeight b) (BarcodeCaption caption) normalStyle]
          (y + barcodeHeight b + f_line_height f)"
        using lh by (intro one_block_stacked) (simp_all add: extent_def mk_block_def)
      with one show ?thesis unfolding r stacked_append by blast
    qed
  next
    case (ETable t)
    with Some v obtain ls where "stack_lines TableLine normalStyle (f_line_height f * sty_size normalStyle) y ls = (bs, y')"
      by (auto simp: build_element_def Let_def go_simps)
    then show ?thesis by (rule text_stacked [rotated 3]) simp_all
  next
    case (EList l)
    with Some v obtain ls where "stack_lines ListLine normalStyle (f_line_height f * sty_size normalStyle) y ls = (bs, y')"
      by (auto simp: build_element_def Let_def go_simps)
    then show ?thesis by (rule text_stacked [rotated 3]) simp_all
  next
    case (EFeed n)
    with Some v show ?thesis by (auto simp: build_element_def Let_def extent_def mk_block_def)
  next
    case (ECut m)
    with Some v show ?thesis by (auto simp: build_element_def Let_def extent_def mk_block_def)
  next
    case (EColumns cols)
    with Some v obtain ls where "stack_lines ColumnsLine normalStyle (f_line_height f * sty_size normalStyle) y ls = (bs, y')"
      by (auto simp: build_element_def Let_def go_simps)
    then show ?thesis by (rule text_stacked [rotated 3]) simp_all
  qed
qed

lemma build_blocks_stacked:
  assumes cd: "codecs_ok cd" and "\<forall>el \<in> set els. heights_ok el"
    and "build_blocks cd store p f y els = Val (bs, y')"
  shows "stacked (extent cd f (p_width_dots p)) y bs y'"
  using assms(2,3)
proof (induction els arbitrary: y bs)
  case Nil
  then show ?case by simp
next
  case (Cons el els)
  then obtain b1 z b2 where r: "build_element cd store p f y el = Val (b1, z)"
    "build_blocks cd store p f z els = Val (b2, y')" "bs = b1 @ b2"
    by (auto simp: go_simps)
  have "stacked (extent cd f (p_width_dots p)) y b1 z"
    by (rule build_element_stacked [OF cd _ r(1)]) (use Cons.prems in simp)
  moreover have "stacked (extent cd f (p_width_dots p)) z b2 y'"
    by (rule Cons.IH [OF _ r(2)]) (use Cons.prems in simp)
  ultimately show ?case unfolding r(3) stacked_append by blast
qed

end

section \<open>No crash\<close>

text \<open>
  The one input that crashes \<open>Build\<close> is an asset of width zero in its own header that the receipt
  asks to scale; \<open>no_zero_width\<close> excludes it.
\<close>

definition no_zero_width :: "codecs \<Rightarrow> (string \<Rightarrow> goerr + byte list) option \<Rightarrow> element option \<Rightarrow> bool" where
  "no_zero_width cd store el =
     (case el of Some (EAsset a) \<Rightarrow>
        (case store of None \<Rightarrow> True
         | Some get \<Rightarrow> (case get (a_name a) of Inl _ \<Rightarrow> True
             | Inr d \<Rightarrow> a_width a \<le> 0
                 \<or> (\<forall>w h. decodeImageConfig cd d = Val (w, h) \<longrightarrow> w \<noteq> 0)
                    \<and> (\<forall>img. decodeImage cd d = Val img \<longrightarrow> img_dx img \<noteq> 0)))
      | _ \<Rightarrow> True)"

text \<open>The part of it that matters to \<open>Build\<close>, which reads headers only.\<close>

definition zero_width_header :: "codecs \<Rightarrow> (string \<Rightarrow> goerr + byte list) option \<Rightarrow> element option \<Rightarrow> bool" where
  "zero_width_header cd store el \<longleftrightarrow> (\<exists>a get d h. el = Some (EAsset a) \<and> store = Some get \<and> get (a_name a) = Inr d
     \<and> 0 < a_width a \<and> decodeImageConfig cd d = Val (0, h))"

lemma no_zero_width_header: "no_zero_width cd store el \<Longrightarrow> \<not> zero_width_header cd store el"
  by (auto simp: no_zero_width_def zero_width_header_def)

lemma zero_width_header_panics:
  "zero_width_header cd store el \<Longrightarrow> build_element cd store p f y el = Panic ''runtime error: integer divide by zero''"
  by (auto simp: zero_width_header_def build_element_def Let_def assetHeight_def targetImageSize_def resolveTargetWidth_def
      go_div_def)

lemma enumerate_nth: "\<forall>p \<in> set (enumerate 0 xs). P p \<Longrightarrow> i < length xs \<Longrightarrow> P (i, xs ! i)"
  by (drule bspec [where x = "(i, xs ! i)"]) (auto simp: in_set_enumerate_eq)

lemma first_error_None: "first_error g xs = None \<longleftrightarrow> (\<forall>x \<in> set xs. g x = None)"
  by (induction xs) (auto simp: first_error_def List.map_filter_simps split: option.splits list.splits)

lemma valid_table_shape:
  assumes "validate_table t = None"
  shows "tb_headers t \<noteq> []" and "\<forall>row \<in> set (tb_rows t). length row = length (tb_headers t)"
proof -
  show "tb_headers t \<noteq> []" using assms by (auto simp: validate_table_def)
  have "\<forall>p \<in> set (enumerate 0 (tb_rows t)). validate_row (length (tb_headers t)) p = None"
    using assms by (auto simp: validate_table_def first_error_None split: if_splits option.splits)
  note n = enumerate_nth [OF this]
  have "length (tb_rows t ! i) = length (tb_headers t)" if "i < length (tb_rows t)" for i
    by (rule ccontr) (use n [OF that] in \<open>auto simp: validate_row_def\<close>)
  then show "\<forall>row \<in> set (tb_rows t). length row = length (tb_headers t)"
    by (auto simp: in_set_conv_nth)
qed

lemma valid_list_indents:
  assumes "validate_list l = None"
  shows "\<forall>item \<in> set (l_items l). 0 \<le> li_indent item"
proof -
  have "\<forall>p \<in> set (enumerate 0 (l_items l)). validate_item (l_kind l) p = []"
    using assms by (auto simp: validate_list_def split: if_splits)
  note n = enumerate_nth [OF this]
  have "0 \<le> li_indent (l_items l ! i)" if "i < length (l_items l)" for i
    by (rule ccontr) (use n [OF that] in \<open>auto simp: validate_item_def\<close>)
  then show ?thesis by (auto simp: in_set_conv_nth)
qed

lemma assetHeight_safe:
  assumes "w \<le> 0 \<or> (\<forall>dx dy. decodeImageConfig cd d = Val (dx, dy) \<longrightarrow> dx \<noteq> 0)"
  shows "go_safe (assetHeight cd d w mw)"
  unfolding assetHeight_def
  by (rule go_safe_bind) (use assms in \<open>auto intro!: go_safe_bind targetImageSize_safe\<close>)

lemma imageHeight_safe: "go_safe (imageHeight cd d mw)"
proof -
  have "go_safe (scaledImageSize w h mw)" for w h
    using targetImageSize_safe [of w 0 h mw] by (simp add: target_zero)
  then show ?thesis by (auto simp: imageHeight_def intro!: go_safe_bind)
qed

lemma qrCodeDimensions_safe: "go_safe (qrCodeDimensions cd q mw)"
  unfolding qrCodeDimensions_def using qrCodeSize_val [of q mw]
  by (auto intro!: go_safe_bind split: sum.split)

lemma barcodeDimensions_safe: "go_safe (barcodeDimensions cd b mw)"
  unfolding barcodeDimensions_def by (auto intro!: go_safe_bind split: sum.split)

lemma columns_nonempty: "validate_element cd (EColumns cols) = None \<Longrightarrow> cols \<noteq> []"
  by auto

lemma list_one_block_safe: "go_safe m \<Longrightarrow> go_safe (go_bind (map_fail h m) (\<lambda>x. Val (k x)))"
  by (rule go_safe_bind) simp_all

context spaced_font
begin

lemma build_element_safe:
  assumes ok: "validate_element cd e = None" and z: "\<not> zero_width_header cd store (Some e)"
  shows "go_safe (build_element cd store p f y (Some e))"
proof (cases e)
  case (EText t)
  have "go_safe (go_map (\<lambda>line. go_of_option (alignPad line (t_align t) (p_width_dots p) f k))
      (wrapText (t_content t) (p_width_dots p) f k) :: string list res)" if "1 \<le> k" for k
    by (rule go_safe_map) (use alignPad_spec [OF that] in auto)
  then show ?thesis
    using EText by (auto simp: build_element_def Let_def ResolveSize_def intro!: go_safe_bind)
next
  case (EAsset a)
  with z show ?thesis
    by (auto simp: build_element_def Let_def zero_width_header_def not_less split: option.splits sum.splits
        intro!: list_one_block_safe assetHeight_safe)
next
  case (EBarcode b)
  then show ?thesis
    using alignPad_spec [of "sty_size normalStyle"]
    by (auto simp: build_element_def Let_def intro!: go_safe_bind barcodeDimensions_safe)
next
  case (ETable t)
  with ok show ?thesis
    by (auto simp: build_element_def Let_def intro!: go_safe_bind tableLines_safe valid_table_shape)
next
  case (EList l)
  with ok show ?thesis
    by (auto simp: build_element_def Let_def intro!: go_safe_bind listLines_safe valid_list_indents)
next
  case (EColumns cols)
  then show ?thesis using columns_nonempty ok
    by (auto simp: build_element_def Let_def intro!: go_safe_bind columnsLines_safe)
qed (auto simp: build_element_def Let_def intro!: go_safe_bind imageHeight_safe qrCodeDimensions_safe)

lemma build_blocks_safe:
  assumes "validate_elements cd els = []" "\<forall>el \<in> set els. no_zero_width cd store el"
  shows "go_safe (build_blocks cd store p f y els)"
  using assms
proof (induction els arbitrary: y)
  case (Cons el els)
  then obtain e where e: "el = Some e" "validate_element cd e = None" "validate_elements cd els = []"
    by (cases el) (auto split: option.splits)
  show ?case
    using build_element_safe [OF e(2)] Cons e no_zero_width_header by (auto intro!: go_safe_bind)
qed simp

text \<open>Exactly when the blocks of valid elements cannot be built for a crash.\<close>

lemma build_blocks_panic:
  assumes "validate_elements cd els = []"
  shows "build_blocks cd store p f y els = Panic m \<longleftrightarrow> m = ''runtime error: integer divide by zero''
    \<and> (\<exists>pre el post bs y'. els = pre @ el # post \<and> build_blocks cd store p f y pre = Val (bs, y') \<and> zero_width_header cd store el)"
    (is "_ \<longleftrightarrow> m = ?m \<and> ?at y els")
  using assms
proof (induction els arbitrary: y)
  case (Cons el els)
  then obtain e where e: "el = Some e" "validate_element cd e = None" "validate_elements cd els = []"
    by (cases el) (auto split: option.splits)
  show ?case
  proof (cases "zero_width_header cd store el")
    case True
    from zero_width_header_panics [OF this, of p f y] have "build_blocks cd store p f y (el # els) = Panic ?m" by simp
    moreover have "?at y (el # els)" by (rule exI [of _ "[]"]) (use True in auto)
    ultimately show ?thesis by auto
  next
    case False
    with e(1) have "go_safe (build_element cd store p f y el)" using build_element_safe [OF e(2)] by simp
    then consider (ok) bs1 y1 where "build_element cd store p f y el = Val (bs1, y1)"
      | (err) x where "build_element cd store p f y el = Fail x" by (auto simp: go_safe_iff)
    then show ?thesis
    proof cases
      case ok
      have "?at y (el # els) \<longleftrightarrow> ?at y1 els"
      proof
        assume "?at y (el # els)"
        then obtain pre x post bs y' where at: "el # els = pre @ x # post" "build_blocks cd store p f y pre = Val (bs, y')"
          "zero_width_header cd store x" by blast
        with False obtain pre' where "pre = el # pre'" "els = pre' @ x # post" by (cases pre) auto
        with at ok show "?at y1 els" by (fastforce simp: go_simps)
      next
        assume "?at y1 els"
        then obtain pre x post bs y' where at: "els = pre @ x # post" "build_blocks cd store p f y1 pre = Val (bs, y')"
          "zero_width_header cd store x" by blast
        with ok show "?at y (el # els)" by (intro exI [of _ "el # pre"] exI [of _ x] exI [of _ post]) simp
      qed
      moreover have "build_blocks cd store p f y (el # els) = Panic m \<longleftrightarrow> build_blocks cd store p f y1 els = Panic m"
        using ok by (cases "build_blocks cd store p f y1 els") auto
      ultimately show ?thesis using Cons.IH [OF e(3)] by simp
    next
      case err
      have "\<not> ?at y (el # els)"
      proof
        assume "?at y (el # els)"
        then obtain pre x post bs y' where at: "el # els = pre @ x # post" "build_blocks cd store p f y pre = Val (bs, y')"
          "zero_width_header cd store x" by blast
        with False err show False by (cases pre) auto
      qed
      with err show ?thesis by simp
    qed
  qed
qed simp

end

lemma validate_receipt_elements: "validate_receipt cd r = None \<Longrightarrow> validate_elements cd (r_elements r) = []"
  by (auto simp: validate_receipt_def Let_def split: option.splits)

lemma validate_elements_Some:
  "validate_elements cd els = [] \<Longrightarrow> el \<in> set els \<Longrightarrow> \<exists>e. el = Some e \<and> validate_element cd e = None"
  by (induction cd els rule: validate_elements.induct) (auto split: option.splits)

lemma valid_heights: "validate_receipt cd r = None \<Longrightarrow> \<forall>el \<in> set (r_elements r). heights_ok el"
proof
  fix el assume "validate_receipt cd r = None" "el \<in> set (r_elements r)"
  from validate_elements_Some [OF validate_receipt_elements [OF this(1)] this(2)]
  obtain e where "el = Some e" "validate_element cd e = None" by blast
  then show "heights_ok el" by (auto simp: heights_ok_def validate_spacer_def split: if_splits)
qed

text \<open>The blocks whose bitmap can be resolved without a crash.\<close>

fun crash_free :: "codecs \<Rightarrow> block_element \<Rightarrow> bool" where
  "crash_free cd (AlignedAsset d w _) \<longleftrightarrow> w \<le> 0 \<or> (\<forall>img. decodeImage cd d = Val img \<longrightarrow> img_dx img \<noteq> 0)"
| "crash_free cd _ \<longleftrightarrow> True"

lemma DecodeAlignedAssetBitmap_safe:
  assumes cd: "codecs_ok cd" and "w \<le> 0 \<or> (\<forall>img. decodeImage cd d = Val img \<longrightarrow> img_dx img \<noteq> 0)"
  shows "go_safe (DecodeAlignedAssetBitmap cd d w al mw)"
proof (cases "decodeImage cd d")
  case (Val img)
  then have "go_safe (targetImageSize (img_dx img) (img_dy img) w mw)"
    using assms(2) by (intro targetImageSize_safe) auto
  then consider (size) w' h' where "targetImageSize (img_dx img) (img_dy img) w mw = Val (w', h')"
    | (err) e where "targetImageSize (img_dx img) (img_dy img) w mw = Fail e"
    by (auto simp: go_safe_iff)
  then show ?thesis
  proof cases
    case size
    from DecodeAlignedAssetBitmap_val [OF cd Val size, of al] show ?thesis by auto
  next
    case err
    with Val show ?thesis by (simp add: DecodeAlignedAssetBitmap_def)
  qed
qed (use decodeImage_safe [of cd d] in \<open>simp_all add: DecodeAlignedAssetBitmap_def\<close>)

lemma rasterBitmap_safe:
  assumes cd: "codecs_ok cd" and "crash_free cd el" "rasterBitmap cd el mw = Some m"
  shows "go_safe m"
  using assms(3)
proof (cases rule: rasterBitmap.cases [of "(cd, el, mw)"])
  case (1 cd' data mw')
  with assms(3) DecodeAlignedAssetBitmap_safe [OF cd, of 0 data "''''" mw] show ?thesis
    by (auto simp: DecodeImageBitmap_aligned)
next
  case (2 cd' q mw')
  obtain n where n: "qrCodeSize q mw = Val n" using qrCodeSize_val by blast
  have "go_safe (GenerateQRCodeBitmap cd q mw)"
  proof (cases "qr_encode cd (q_content q) (RecoveryLevel q)")
    case (Inr img)
    from GenerateQRCodeBitmap_val [OF cd Inr n] show ?thesis by auto
  qed (simp add: GenerateQRCodeBitmap_def)
  with 2 assms(3) show ?thesis by auto
next
  case (3 cd' b mw')
  have "go_safe (GenerateBarcodeBitmap cd b mw)"
  proof (cases "barcode_encode cd b")
    case (Inr img)
    from GenerateBarcodeBitmap_val [OF cd Inr, of mw] show ?thesis by auto
  qed (simp add: GenerateBarcodeBitmap_def)
  with 3 assms(3) show ?thesis by auto
next
  case (4 cd' data width al mw')
  with assms(2,3) DecodeAlignedAssetBitmap_safe [OF cd, of width data al mw] show ?thesis by auto
qed (use assms(3) in auto)

lemma size_blocks_safe:
  assumes "codecs_ok cd" "\<forall>b \<in> set bs. crash_free cd (blk_element b)"
  shows "go_safe (size_blocks cd dw f cf bs w h)"
  using assms(2)
proof (induction bs arbitrary: w h)
  case (Cons b bs)
  have r: "go_safe m" if "rasterBitmap cd (blk_element b) dw = Some m" for m
    by (rule rasterBitmap_safe [OF assms(1) _ that]) (use Cons.prems in simp)
  show ?case unfolding size_blocks.simps(2)
    by (rule go_safe_bind)
      (use r Cons in \<open>auto simp: Let_def split: option.split intro!: go_safe_bind\<close>)
qed simp

context spaced_font
begin

lemma Paint_safe:
  assumes cd: "codecs_ok cd" and doc: "doc_placed doc" "doc_font doc = f"
    and cf: "\<forall>b \<in> set (doc_blocks doc). crash_free cd (blk_element b)"
  shows "go_safe (Paint cd doc)"
proof -
  from size_blocks_safe [OF cd cf]
  consider (ok) w h bmps where "size_blocks cd (doc_width doc) f (doc_width doc \<le> 0) (doc_blocks doc) (doc_width doc) 0 = Val ((w, h), bmps)"
    | (err) e where "size_blocks cd (doc_width doc) f (doc_width doc \<le> 0) (doc_blocks doc) (doc_width doc) 0 = Fail e"
    unfolding go_safe_iff by (metis surj_pair)
  then show ?thesis
  proof cases
    case ok
    from Paint_sized [OF cd doc ok] show ?thesis by auto
  next
    case err
    with doc(2) show ?thesis by (simp add: Paint_def Let_def)
  qed
qed

end

lemma stack_lines_elements:
  "stack_lines mk st h y ls = (bs, y') \<Longrightarrow> b \<in> set bs \<Longrightarrow> \<exists>l. blk_element b = mk l"
  by (induction ls arbitrary: y bs) (fastforce simp: mk_block_def Let_def split: prod.splits)+

lemma build_element_crash_free:
  assumes v: "build_element cd store p f y el = Val (bs, y')" and z: "no_zero_width cd store el"
    and b: "b \<in> set bs"
  shows "crash_free cd (blk_element b)"
proof (cases el)
  case None
  with v show ?thesis by (simp add: build_element_def Let_def)
next
  case (Some e)
  have lines: "crash_free cd (blk_element b)"
    if "stack_lines mk st h y ls = (bs, y')" "\<And>l. crash_free cd (mk l)" for mk st h ls
    using stack_lines_elements [OF that(1) b] that(2) by auto
  show ?thesis
    using v z b Some
    by (cases e) (auto simp: build_element_def Let_def go_simps mk_block_def no_zero_width_def
        split: option.splits sum.splits if_splits intro: lines)
qed

lemma build_blocks_crash_free:
  "build_blocks cd store p f y els = Val (bs, y') \<Longrightarrow> \<forall>el \<in> set els. no_zero_width cd store el \<Longrightarrow>
     b \<in> set bs \<Longrightarrow> crash_free cd (blk_element b)"
proof (induction els arbitrary: y bs)
  case (Cons el els)
  then obtain b1 z b2 where "build_element cd store p f y el = Val (b1, z)"
    "build_blocks cd store p f z els = Val (b2, y')" "bs = b1 @ b2"
    by (auto simp: go_simps)
  with Cons build_element_crash_free show ?case by (metis Un_iff list.set_intros set_append)
qed simp

section \<open>The canvas of a built document\<close>

lemma stacked_height:
  assumes "stacked (extent cd f dw) y bs y'" "\<forall>b \<in> set bs. agrees cd (blk_element b)"
    "length bmps = length bs" "\<forall>p \<in> set (zip bs bmps). resolved cd dw p"
  shows "fold (\<lambda>p h. max h (bottom_of f p)) (zip bs bmps) y = y'"
  using assms
proof (induction bs arbitrary: y bmps)
  case (Cons b bs)
  then obtain g bmps' where e: "bmps = g # bmps'" by (cases bmps) auto
  from Cons.prems(1) obtain h where h: "blk_y b = y" "0 \<le> h" "extent cd f dw b h"
    "stacked (extent cd f dw) (y + h) bs y'" by auto
  have "bottom_of f (b, g) = y + h"
    using h Cons.prems(2,4) e
    by (auto simp: extent_def bottom_of_def resolved_def split: option.splits)
  then have "fold (\<lambda>p h. max h (bottom_of f p)) (zip (b # bs) bmps) y
      = fold (\<lambda>p h. max h (bottom_of f p)) (zip bs bmps') (y + h)"
    using e h(2) by simp
  also have "\<dots> = y'" by (rule Cons.IH [OF h(4)]) (use Cons.prems e in auto)
  finally show ?case .
qed simp

context spaced_font
begin

lemma Build_val:
  assumes "codecs_ok cd" "\<forall>el \<in> set (r_elements r). heights_ok el" "0 \<le> p_width_dots p"
    and "Build cd store r p f = Val doc"
  shows "\<exists>y'. stacked (extent cd f (p_width_dots p)) 0 (doc_blocks doc) y'"
    and "doc_placed doc" and "doc_font doc = f" and "doc_width doc = p_width_dots p"
proof -
  from assms(4) obtain bs y' where b: "build_blocks cd store p f 0 (r_elements r) = Val (bs, y')"
    and d: "doc = \<lparr>doc_width = p_width_dots p, doc_blocks = bs, doc_font = f\<rparr>"
    by (auto simp: Build_def go_simps)
  note s = build_blocks_stacked [OF assms(1,2) b]
  show "\<exists>y'. stacked (extent cd f (p_width_dots p)) 0 (doc_blocks doc) y'" using s d by auto
  show "doc_placed doc" using stacked_mono [OF s] assms(3) d by (auto simp: doc_placed_def)
  show "doc_font doc = f" "doc_width doc = p_width_dots p" using d by simp_all
qed

lemma render_safe:
  assumes cd: "codecs_ok cd" and r: "validate_receipt cd r = None" and p: "0 \<le> p_width_dots p"
    and z: "\<forall>el \<in> set (r_elements r). no_zero_width cd store el"
  shows "go_safe (go_bind (Build cd store r p f) (Paint cd))"
proof (rule go_safe_bind)
  show "go_safe (Build cd store r p f)"
    unfolding Build_def using build_blocks_safe [OF validate_receipt_elements [OF r] z]
    by (auto intro!: go_safe_bind)
next
  fix doc assume b: "Build cd store r p f = Val doc"
  note v = Build_val [OF cd valid_heights [OF r] p b]
  have "\<forall>b \<in> set (doc_blocks doc). crash_free cd (blk_element b)"
    using b z build_blocks_crash_free by (fastforce simp: Build_def go_simps)
  then show "go_safe (Paint cd doc)" by (rule Paint_safe [OF cd v(2,3)])
qed

lemma Build_Paint_height:
  assumes cd: "codecs_ok cd" and h: "\<forall>el \<in> set (r_elements r). heights_ok el" and p: "0 \<le> p_width_dots p"
    and b: "Build cd store r p f = Val doc" and c: "Paint cd doc = Val c"
    and ag: "\<forall>b \<in> set (doc_blocks doc). agrees cd (blk_element b)"
  shows "stacked (extent cd f (p_width_dots p)) 0 (doc_blocks doc) (cv_height c)"
proof -
  note v = Build_val [OF cd h p b]
  from v(1) obtain y' where s: "stacked (extent cd f (p_width_dots p)) 0 (doc_blocks doc) y'" ..
  from Paint_val [OF cd v(2,3) c] obtain bmps where
    "length bmps = length (doc_blocks doc)" "\<forall>q \<in> set (zip (doc_blocks doc) bmps). resolved cd (doc_width doc) q"
    "cv_height c = fold (\<lambda>p h. max h (bottom_of f p)) (zip (doc_blocks doc) bmps) 0" by blast
  with stacked_height [OF s ag, of bmps] v(4) s show ?thesis by simp
qed

end

section \<open>Concrete receipts\<close>

text \<open>
  Codecs that accept an 8 by 2 picture, a GIF whose logical screen has a width of zero, which \<open>image/gif\<close> does not refuse, and
  a GIF whose first frame is lower than its logical screen.
\<close>

definition box :: "int \<Rightarrow> int \<Rightarrow> image" where
  "box dx dy = \<lparr>img_min_x = 0, img_min_y = 0, img_dx = dx, img_dy = dy,
     img_at = (\<lambda>_ _. (0, 0, 0, 0xffff))\<rparr>"

definition sample_codecs :: codecs where
  "sample_codecs =
     \<lparr>decode_config = (\<lambda>d. Inr (if d = [0] then 0 else 8, 2, if d = [1] then ''png'' else ''gif'')),
      decode_pixels = (\<lambda>d. Inr (box (if d = [0] then 0 else 8) (if d = [2] then 1 else 2))),
      qr_encode = (\<lambda>_ _. Inr (box 21 21)), code128_encode = (\<lambda>_. Inr (box 11 1)),
      ean_encode = (\<lambda>_. Inl (Leaf ''ean'')), code39_encode = (\<lambda>_ _ _. Inl (Leaf ''code39'')),
      twooffive_encode = (\<lambda>_ _. Inl (Leaf ''2of5''))\<rparr>"

lemma sample_codecs_ok: "codecs_ok sample_codecs"
  by (auto simp: codecs_ok_def sample_codecs_def image_ok_def box_def)


definition go_is_val :: "('e, 'a) go \<Rightarrow> bool" where
  "go_is_val m = (case m of Val _ \<Rightarrow> True | _ \<Rightarrow> False)"

definition sample_bill :: receipt where
  "sample_bill = \<lparr>r_version = 1, r_copies = 0,
     r_elements = [Some (EDivider \<lparr>d_style = ''dashed'', d_size = 2\<rparr>), Some (EImage [1]),
                   Some (EFeed 2), Some (ECut '''')]\<rparr>"

lemma sample_bill_sized:
  "go_is_val (go_bind (Build sample_codecs None sample_bill epson_tm_m30ii (EmbeddedFont sample_face))
     (\<lambda>d. if list_all (\<lambda>b. case blk_element b of Plain (EImage d) \<Rightarrow> d = [1] | AlignedAsset _ _ _ \<Rightarrow> False
                                 | _ \<Rightarrow> True) (doc_blocks d)
          then go_bind (size_blocks sample_codecs (doc_width d) (doc_font d) (doc_width d \<le> 0) (doc_blocks d) (doc_width d) 0)
            (\<lambda>s. if snd (fst s) = 0 then Panic '''' else Val s)
          else Panic ''''))"
  by code_simp

lemma sample_bill_valid: "validate_receipt sample_codecs sample_bill = None"
  by code_simp

lemma sample_bill_heights: "\<forall>el \<in> set (r_elements sample_bill). heights_ok el"
  by (rule valid_heights [OF sample_bill_valid])

lemma epson_width [simp]: "p_width_dots epson_tm_m30ii = 576"
  by (simp add: epson_tm_m30ii_def)

lemma sample_bill_rendered:
  "\<exists>doc c. Build sample_codecs None sample_bill epson_tm_m30ii (EmbeddedFont sample_face) = Val doc
     \<and> Paint sample_codecs doc = Val c \<and> cv_height c \<noteq> 0
     \<and> (\<forall>b \<in> set (doc_blocks doc). agrees sample_codecs (blk_element b))"
proof -
  from sample_bill_sized obtain doc w h bmps where b:
    "Build sample_codecs None sample_bill epson_tm_m30ii (EmbeddedFont sample_face) = Val doc"
    and s: "size_blocks sample_codecs (doc_width doc) (doc_font doc) (doc_width doc \<le> 0) (doc_blocks doc) (doc_width doc) 0
      = Val ((w, h), bmps)" "h \<noteq> 0"
    and l: "list_all (\<lambda>b. case blk_element b of Plain (EImage d) \<Rightarrow> d = [1] | AlignedAsset _ _ _ \<Rightarrow> False
              | _ \<Rightarrow> True) (doc_blocks doc)"
    by (auto simp: go_is_val_def go_simps split: go.splits if_splits)
  have g: "dims_agree sample_codecs [1]" by (simp add: dims_agree_def sample_codecs_def box_def)
  have "agrees sample_codecs el"
    if "case el of Plain (EImage d) \<Rightarrow> d = [1] | AlignedAsset _ _ _ \<Rightarrow> False | _ \<Rightarrow> True" for el
    using that g by (auto split: block_element.splits element.splits)
  then have a: "\<forall>b \<in> set (doc_blocks doc). agrees sample_codecs (blk_element b)"
    using l by (simp add: list_all_iff)
  have v: "doc_placed doc" "doc_font doc = EmbeddedFont sample_face"
    using embedded.Build_val [OF sample_codecs_ok sample_bill_heights _ b] by simp_all
  from embedded.Paint_sized [OF sample_codecs_ok v] s v b a show ?thesis by fastforce
qed

section \<open>Properties\<close>



text \<open>
  (C20) The canvas is exactly the ink of the document: it is as wide as the printer, its bit slice has
  one padded row per dot row, a dot is set precisely when a block paints it (the styled glyphs of
  its text in a row, its decorations, its bitmap or its divider pattern) and it lies on the
  canvas, and the printer controls are those of the document in order.
\<close>

theorem canvas_is_ink:
  assumes "codecs_ok cd" and "face_7x13 fc" and "validate_receipt cd r = None" and "0 < p_width_dots p"
    and "Build cd store r p (EmbeddedFont fc) = Val doc" and "Paint cd doc = Val c"
  shows "\<exists>bmps. length bmps = length (doc_blocks doc)
    \<and> (\<forall>q \<in> set (zip (doc_blocks doc) bmps). resolved cd (p_width_dots p) q)
    \<and> cv_width c = p_width_dots p
    \<and> int (length (cv_bits c)) = row_bytes (cv_width c) * cv_height c
    \<and> canvas_pixels c = ink (EmbeddedFont fc) (cv_width c) (zip (doc_blocks doc) bmps)
                          \<inter> on_canvas (cv_width c) (cv_height c)
    \<and> cv_controls c = controls_of (doc_blocks doc)"
proof -
  let ?f = "EmbeddedFont (mono_face (\<lambda>r. snd (fc_glyph fc r)))"
  have f: "EmbeddedFont fc = ?f" using face_7x13_mono [OF assms(2)] by simp
  have w: "0 \<le> p_width_dots p" using assms(4) by simp
  note v = embedded.Build_val [OF assms(1) valid_heights [OF assms(3)] w assms(5) [unfolded f]]
  from embedded.Paint_val [OF assms(1) v(2,3) assms(6)] v(4) assms(4) show ?thesis unfolding f by auto
qed

theorem canvas_is_ink_witness:
  "\<exists>doc c. Build sample_codecs None sample_bill epson_tm_m30ii (EmbeddedFont sample_face) = Val doc
     \<and> Paint sample_codecs doc = Val c \<and> cv_width c = 576 \<and> length (cv_bits c) = 72 * nat (cv_height c)"
proof -
  from sample_bill_rendered obtain doc c where
    r: "Build sample_codecs None sample_bill epson_tm_m30ii (EmbeddedFont sample_face) = Val doc"
    "Paint sample_codecs doc = Val c" by blast
  from canvas_is_ink [OF sample_codecs_ok mono_face_7x13 sample_bill_valid _ r] r show ?thesis
    by (auto simp: row_bytes_def)
qed





text \<open>
  Where \<open>Build\<close> and \<open>Paint\<close> disagree: a picture whose header declares a larger area than its
  pixels cover (a GIF whose first frame is smaller than its logical screen) is given the header's
  height by \<open>Build\<close> and the height of its pixels by \<open>Paint\<close>.
\<close>

lemma gif_heights_disagree:
  "imageHeight sample_codecs [2] 576 = Val 2
   \<and> go_bind (DecodeImageBitmap sample_codecs [2] 576) (\<lambda>b. Val (bm_height b)) = Val 1"
  by code_simp

end
