(* ===== verification/Escpos.thy ===== *)
theory Escpos
  imports Render
begin

text \<open>
  Package \<open>internal/render/escpos\<close> (\<open>encode.go\<close>): a canvas as an ESC/POS byte stream.  Bytes are
  8-bit words, so the truncations \<open>byte(n)\<close> and \<open>byte(n >> 8)\<close> are those of the code.  The stream
  is read back by \<open>parse\<close>, an interpreter of the printer's commands; the round trip shows what
  the printer is told to print, and under which bounds.
\<close>

section \<open>The encoder\<close>

definition initSequence :: "byte list" where
  "initSequence = [0x1B, 0x40]"

definition rasterCommandFixed :: "byte list" where
  "rasterCommandFixed = [0x1D, 0x76, 0x30, 0x00]"

definition defaultFeedLines :: int where
  "defaultFeedLines = 4"

definition loHi :: "int \<Rightarrow> byte list" where
  "loHi n = [word_of_int n, word_of_int (n div 2 ^ 8)]"

definition feedCommand :: "int \<Rightarrow> byte list" where
  "feedCommand lines = [0x1B, 0x64, word_of_int lines]"

definition cutCommand :: "string \<Rightarrow> byte list res" where
  "cutCommand mode =
     (if mode = ''full'' then Val [0x1D, 0x56, 0x00]
      else if mode = ''partial'' then Val [0x1D, 0x56, 0x01]
      else Fail (wrap KindPermanent ''escpos.Encode''
             (Some (errorf ''printer.Profile.DefaultCut %q is invalid (want \"full\" or \"partial\")'' [FStr mode]))))"

definition bandHeight :: "int \<Rightarrow> int \<Rightarrow> int" where
  "bandHeight canvasHeight maxImageHeightDots =
     (if maxImageHeightDots \<le> 0 \<or> maxImageHeightDots \<ge> canvasHeight then canvasHeight
      else maxImageHeightDots)"

definition endsWithExplicitCut :: "control list \<Rightarrow> bool" where
  "endsWithExplicitCut controls =
     (if controls = [] then False
      else if \<not> ctl_terminal (last controls) then False
      else (case ctl_element (last controls) of Plain (ECut _) \<Rightarrow> True | _ \<Rightarrow> False))"

definition controlCommand :: "block_element \<Rightarrow> profile \<Rightarrow> byte list res" where
  "controlCommand el p =
     (case el of
        Plain (EFeed lines) \<Rightarrow> Val (feedCommand lines)
      | Plain (ECut m) \<Rightarrow>
          if \<not> p_supports_cut p then Val []
          else cutCommand (if m = '''' then p_default_cut p else m)
      | _ \<Rightarrow> Fail (wrap KindPermanent ''escpos.Encode''
                (Some (errorf ''unsupported control element type %T'' [FStr (block_type el)]))))"

text \<open>\<open>bits[lo:hi]\<close> of a slice whose capacity is its length, as \<open>Paint\<close> allocates it.\<close>

definition slice :: "byte list \<Rightarrow> int \<Rightarrow> int \<Rightarrow> byte list res" where
  "slice bits lo hi =
     (if 0 \<le> lo \<and> lo \<le> hi \<and> hi \<le> int (length bits) then Val (take (nat (hi - lo)) (drop (nat lo) bits))
      else Panic ''runtime error: slice bounds out of range'')"

function appendRasterBands :: "byte list \<Rightarrow> byte list \<Rightarrow> int \<Rightarrow> int \<Rightarrow> int \<Rightarrow> int \<Rightarrow> byte list res" where
  "appendRasterBands out bits rowBytes band start stop =
     (if \<not> start < stop then Val out
      else
        let height = (if start + band > stop then stop - start else band) in
        go_bind (slice bits (start * rowBytes) ((start + height) * rowBytes)) (\<lambda>rows.
          if band \<le> 0 then Diverge
          else appendRasterBands (out @ rasterCommandFixed @ loHi rowBytes @ loHi height @ rows)
                 bits rowBytes band (start + band) stop))"
  by pat_completeness auto
termination by (relation "measure (\<lambda>(out, bits, rowBytes, band, start, stop). nat (stop - start))") auto

declare appendRasterBands.simps [simp del]

text \<open>The loop over the controls: each one after the rows above it.\<close>

fun encode_controls ::
  "canvas \<Rightarrow> profile \<Rightarrow> int \<Rightarrow> int \<Rightarrow> control list \<Rightarrow> int \<Rightarrow> byte list \<Rightarrow> (byte list \<times> int) res" where
  "encode_controls c p rowBytes band [] pos out = Val (out, pos)"
| "encode_controls c p rowBytes band (ctrl # ctrls) pos out =
     go_bind (appendRasterBands out (cv_bits c) rowBytes band pos (ctl_y ctrl)) (\<lambda>out.
     go_bind (controlCommand (ctl_element ctrl) p) (\<lambda>cmd.
     encode_controls c p rowBytes band ctrls (ctl_y ctrl) (out @ cmd)))"

definition Encode :: "canvas \<Rightarrow> profile \<Rightarrow> byte list res" where
  "Encode c p =
     (if cv_width c = 0 \<or> cv_height c = 0
      then Fail (wrap KindPermanent ''escpos.Encode''
             (Some (errorf ''canvas has no content (%dx%d)'' [FInt (cv_width c), FInt (cv_height c)])))
      else
        let rowBytes = row_bytes (cv_width c);
            want = rowBytes * cv_height c in
        if int (length (cv_bits c)) \<noteq> want
        then Fail (wrap KindPermanent ''escpos.Encode''
               (Some (errorf ''canvas Bits length %d does not match %dx%d dimensions (want %d)''
                  [FInt (int (length (cv_bits c))), FInt (cv_width c), FInt (cv_height c), FInt want])))
        else
          go_bind (if p_supports_cut p \<and> \<not> endsWithExplicitCut (cv_controls c)
                   then go_bind (cutCommand (p_default_cut p))
                          (\<lambda>autoCut. Val (feedCommand defaultFeedLines, autoCut))
                   else Val ([], [])) (\<lambda>(autoFeed, autoCut).
          let band = bandHeight (cv_height c) (p_max_image_height p) in
          go_bind (encode_controls c p rowBytes band (cv_controls c) 0 initSequence) (\<lambda>(out, pos).
          go_bind (appendRasterBands out (cv_bits c) rowBytes band pos (cv_height c)) (\<lambda>out.
          Val (out @ autoFeed @ autoCut)))))"

section \<open>The printer's reading of a stream\<close>

datatype cmd =
    InitPrinter
  | Raster nat nat "byte list"
  | FeedLines byte
  | CutPaper byte

definition read_raster :: "byte list \<Rightarrow> (cmd \<times> byte list) option" where
  "read_raster bs =
     (case bs of
        m # xl # xh # yl # yh # ds \<Rightarrow>
          let w = unat xl + 256 * unat xh; h = unat yl + 256 * unat yh in
          if m = 0 \<and> w * h \<le> length ds then Some (Raster w h (take (w * h) ds), drop (w * h) ds) else None
      | _ \<Rightarrow> None)"

definition read_cmd :: "byte list \<Rightarrow> (cmd \<times> byte list) option" where
  "read_cmd bs =
     (case bs of
        a # b # r \<Rightarrow>
          if a = 0x1B \<and> b = 0x40 then Some (InitPrinter, r)
          else (case r of
             [] \<Rightarrow> None
           | n # r \<Rightarrow>
               if a = 0x1B \<and> b = 0x64 then Some (FeedLines n, r)
               else if a = 0x1D \<and> b = 0x56 then Some (CutPaper n, r)
               else if a = 0x1D \<and> b = 0x76 \<and> n = 0x30 then read_raster r
               else None)
      | _ \<Rightarrow> None)"

lemma read_cmd_shorter: "read_cmd bs = Some (c, r) \<Longrightarrow> length r < length bs"
  by (auto simp: read_cmd_def read_raster_def Let_def split: list.splits if_splits)

function parse :: "byte list \<Rightarrow> cmd list option" where
  "parse bs =
     (if bs = [] then Some []
      else case read_cmd bs of
             None \<Rightarrow> None
           | Some (c, r) \<Rightarrow> map_option (Cons c) (parse r))"
  by pat_completeness auto
termination by (relation "measure length") (auto dest: read_cmd_shorter)

declare parse.simps [simp del]

text \<open>The pixel data of a command sequence, and its other commands with the rows printed before them.\<close>

fun raster_data :: "cmd list \<Rightarrow> byte list" where
  "raster_data [] = []"
| "raster_data (Raster w h d # cs) = d @ raster_data cs"
| "raster_data (_ # cs) = raster_data cs"

fun marks :: "nat \<Rightarrow> cmd list \<Rightarrow> (nat \<times> cmd) list" where
  "marks n [] = []"
| "marks n (Raster w h d # cs) = marks (n + h) cs"
| "marks n (c # cs) = (n, c) # marks n cs"

fun rows_of :: "cmd list \<Rightarrow> nat" where
  "rows_of [] = 0"
| "rows_of (Raster w h d # cs) = h + rows_of cs"
| "rows_of (_ # cs) = rows_of cs"

lemma raster_data_append [simp]: "raster_data (as @ bs) = raster_data as @ raster_data bs"
  by (induction as rule: raster_data.induct) auto

lemma marks_append [simp]: "marks n (as @ bs) = marks n as @ marks (n + rows_of as) bs"
  by (induction n as rule: marks.induct) (auto simp: add.assoc)

lemma rows_of_append [simp]: "rows_of (as @ bs) = rows_of as + rows_of bs"
  by (induction as rule: rows_of.induct) auto

section \<open>Commands as bytes\<close>

fun cmd_bytes :: "cmd \<Rightarrow> byte list" where
  "cmd_bytes InitPrinter = initSequence"
| "cmd_bytes (Raster w h d) = rasterCommandFixed @ loHi (int w) @ loHi (int h) @ d"
| "cmd_bytes (FeedLines n) = [0x1B, 0x64, n]"
| "cmd_bytes (CutPaper m) = [0x1D, 0x56, m]"

fun cmd_ok :: "cmd \<Rightarrow> bool" where
  "cmd_ok (Raster w h d) \<longleftrightarrow> w < 2 ^ 16 \<and> h < 2 ^ 16 \<and> length d = w * h"
| "cmd_ok _ \<longleftrightarrow> True"

abbreviation stream :: "cmd list \<Rightarrow> byte list" where
  "stream cs \<equiv> concat (map cmd_bytes cs)"

lemma loHi_val:
  assumes "n < 2 ^ 16"
  shows "unat (word_of_int (int n) :: byte) + 256 * unat (word_of_int (int n div 2 ^ 8) :: byte) = n"
proof -
  have "int n div 2 ^ 8 = int (n div 256)" by (simp add: zdiv_int)
  then show ?thesis using assms by (simp add: unat_of_nat)
qed

lemma read_cmd_bytes: "cmd_ok c \<Longrightarrow> read_cmd (cmd_bytes c @ r) = Some (c, r)"
proof (cases c)
  case (Raster w h d)
  moreover assume "cmd_ok c"
  ultimately have ok: "w < 2 ^ 16" "h < 2 ^ 16" "length d = w * h" by simp_all
  show ?thesis
    using ok(3) Raster loHi_val [OF ok(1)] loHi_val [OF ok(2)]
    by (simp add: read_cmd_def read_raster_def rasterCommandFixed_def loHi_def Let_def)
qed (simp_all add: read_cmd_def initSequence_def)

lemma cmd_bytes_nonempty: "cmd_bytes c \<noteq> []"
  by (cases c) (simp_all add: initSequence_def rasterCommandFixed_def)

lemma parse_stream: "list_all cmd_ok cs \<Longrightarrow> parse (stream cs) = Some cs"
proof (induction cs)
  case (Cons c cs)
  then show ?case
    by (subst parse.simps) (simp add: cmd_bytes_nonempty read_cmd_bytes)
qed (simp add: parse.simps)

section \<open>The commands of a canvas\<close>

text \<open>The raster bands of the rows from \<open>i\<close> up to \<open>j\<close>, at most \<open>band\<close> rows each.\<close>

function bands :: "byte list \<Rightarrow> nat \<Rightarrow> nat \<Rightarrow> nat \<Rightarrow> nat \<Rightarrow> cmd list" where
  "bands bits rb band i j =
     (if i < j \<and> 0 < band
      then let h = min band (j - i)
           in Raster rb h (take (h * rb) (drop (i * rb) bits)) # bands bits rb band (i + h) j
      else [])"
  by pat_completeness auto
termination by (relation "measure (\<lambda>(bits, rb, band, i, j). j - i)") auto

declare bands.simps [simp del]

lemma bands_rows: "0 < band \<Longrightarrow> i \<le> j \<Longrightarrow> rows_of (bands bits rb band i j) = j - i"
proof (induction bits rb band i j rule: bands.induct)
  case (1 bits rb band i j)
  then show ?case by (subst bands.simps) (auto simp: Let_def)
qed

lemma bands_marks [simp]: "marks n (bands bits rb band i j) = []"
proof (induction bits rb band i j arbitrary: n rule: bands.induct)
  case (1 bits rb band i j)
  show ?case by (subst bands.simps) (simp add: Let_def 1)
qed

lemma bands_data:
  "0 < band \<Longrightarrow> i \<le> j \<Longrightarrow> j * rb \<le> length bits \<Longrightarrow>
     raster_data (bands bits rb band i j) = take ((j - i) * rb) (drop (i * rb) bits)"
proof (induction bits rb band i j rule: bands.induct)
  case (1 bits rb band i j)
  show ?case
  proof (cases "i < j")
    case True
    let ?h = "min band (j - i)"
    have IH: "raster_data (bands bits rb band (i + ?h) j) = take ((j - (i + ?h)) * rb) (drop ((i + ?h) * rb) bits)"
      using 1 True by simp
    have "(j - i) * rb = ?h * rb + (j - (i + ?h)) * rb"
      using True by (simp flip: add_mult_distrib)
    moreover have "drop ((i + ?h) * rb) bits = drop (?h * rb) (drop (i * rb) bits)"
      by (simp add: add_mult_distrib add.commute)
    ultimately show ?thesis
      using True 1(2) IH by (subst bands.simps) (simp add: Let_def take_add)
  next
    case False
    with 1(3) show ?thesis by (subst bands.simps) simp
  qed
qed

lemma bands_fit: "i + h \<le> j \<Longrightarrow> j * rb \<le> length bits \<Longrightarrow> h * rb + i * rb \<le> length (bits :: byte list)"
  by (metis add.commute add_mult_distrib le_trans mult_le_mono1)

lemma bands_ok:
  "i \<le> j \<Longrightarrow> j * rb \<le> length bits \<Longrightarrow> rb < 2 ^ 16 \<Longrightarrow> band < 2 ^ 16 \<Longrightarrow> list_all cmd_ok (bands bits rb band i j)"
proof (induction bits rb band i j rule: bands.induct)
  case (1 bits rb band i j)
  show ?case
  proof (cases "i < j \<and> 0 < band")
    case True
    have "min band (j - i) * rb + i * rb \<le> length bits"
      by (rule bands_fit [OF _ 1(3)]) (use True in arith)
    with True 1 show ?thesis by (subst bands.simps) (auto simp: Let_def min_def mult.commute)
  next
    case False
    then show ?thesis by (subst bands.simps) (simp only: if_False list.pred_inject)
  qed
qed

lemma bands_bounds:
  "c \<in> set (bands bits rb band i j) \<Longrightarrow> \<exists>h d. c = Raster rb h d \<and> 0 < h \<and> h \<le> band"
proof (induction bits rb band i j rule: bands.induct)
  case (1 bits rb band i j)
  from 1(2) have "i < j \<and> 0 < band" by (subst (asm) bands.simps) (simp split: if_splits)
  with 1 show ?case by (subst (asm) (2) bands.simps) (auto simp: Let_def)
qed

lemma slice_nat:
  "i \<le> j \<Longrightarrow> j \<le> length bits \<Longrightarrow> slice bits (int i) (int j) = Val (take (j - i) (drop i bits))"
  by (simp add: slice_def nat_diff_distrib flip: of_nat_diff)

lemma appendRasterBands_spec:
  "0 < band \<Longrightarrow> i \<le> j \<Longrightarrow> j * rb \<le> length bits \<Longrightarrow>
     appendRasterBands out bits (int rb) (int band) (int i) (int j) = Val (out @ stream (bands bits rb band i j))"
proof (induction bits rb band i j arbitrary: out rule: bands.induct)
  case (1 bits rb band i j)
  show ?case
  proof (cases "i < j")
    case True
    let ?h = "min band (j - i)"
    have h: "(if int i + int band > int j then int j - int i else int band) = int ?h"
      using True by (auto simp: min_def)
    have "slice bits (int i * int rb) ((int i + int ?h) * int rb) = slice bits (int (i * rb)) (int ((i + ?h) * rb))"
      by (simp only: of_nat_mult of_nat_add)
    also have "\<dots> = Val (take (?h * rb) (drop (i * rb) bits))"
      using slice_nat [of "i * rb" "(i + ?h) * rb" bits] bands_fit [OF _ 1(4), of i ?h] True
      by (simp add: add_mult_distrib add.commute)
    finally have s: "slice bits (int i * int rb) ((int i + int ?h) * int rb)
        = Val (take (?h * rb) (drop (i * rb) bits))" .
    have e: "appendRasterBands out' bits (int rb) (int band) (int i + int band) (int j)
        = Val (out' @ stream (bands bits rb band (i + ?h) j))" for out'
    proof (cases "i + band \<le> j")
      case True
      then have "?h = band" by simp
      with 1(1) [of ?h out'] 1(2-) True \<open>i < j\<close> show ?thesis by simp
    next
      case False
      then have "i + ?h = j" using \<open>i < j\<close> by simp
      with False show ?thesis by (subst appendRasterBands.simps, subst bands.simps) simp
    qed
    show ?thesis
      using True 1(2) by (subst appendRasterBands.simps, subst bands.simps)
        (simp only: Let_def h s, simp add: e)
  next
    case False
    then show ?thesis by (subst appendRasterBands.simps, subst bands.simps) simp
  qed
qed


text \<open>
  What the printer is told for a control: a feed always, a cut only when the printer has a cutter,
  in the mode of the element or the printer's own.
\<close>

fun ctl_cmds :: "profile \<Rightarrow> block_element \<Rightarrow> cmd list" where
  "ctl_cmds p (Plain (EFeed n)) = [FeedLines (word_of_int n)]"
| "ctl_cmds p (Plain (ECut m)) =
     (if \<not> p_supports_cut p then []
      else [CutPaper (if (if m = '''' then p_default_cut p else m) = ''full'' then 0 else 1)])"
| "ctl_cmds p _ = []"

fun cut_mode_ok :: "profile \<Rightarrow> block_element \<Rightarrow> bool" where
  "cut_mode_ok p (Plain (EFeed n)) = True"
| "cut_mode_ok p (Plain (ECut m)) = (m \<in> {'''', ''full'', ''partial''})"
| "cut_mode_ok p _ = False"

definition auto_cut :: "canvas \<Rightarrow> profile \<Rightarrow> cmd list" where
  "auto_cut c p =
     (if p_supports_cut p \<and> \<not> endsWithExplicitCut (cv_controls c)
      then [FeedLines 4, CutPaper (if p_default_cut p = ''full'' then 0 else 1)] else [])"

fun control_cmds :: "canvas \<Rightarrow> profile \<Rightarrow> nat \<Rightarrow> nat \<Rightarrow> control list \<Rightarrow> nat \<Rightarrow> cmd list" where
  "control_cmds c p rb band [] pos = bands (cv_bits c) rb band pos (nat (cv_height c))"
| "control_cmds c p rb band (k # ks) pos =
     bands (cv_bits c) rb band pos (nat (ctl_y k)) @ ctl_cmds p (ctl_element k)
     @ control_cmds c p rb band ks (nat (ctl_y k))"

definition commands :: "canvas \<Rightarrow> profile \<Rightarrow> cmd list" where
  "commands c p = InitPrinter
     # control_cmds c p (nat (row_bytes (cv_width c))) (nat (bandHeight (cv_height c) (p_max_image_height p)))
         (cv_controls c) 0
     @ auto_cut c p"

text \<open>A canvas as \<open>Paint\<close> makes it: the controls are in order and on the canvas.\<close>

definition canvas_ok :: "canvas \<Rightarrow> bool" where
  "canvas_ok c \<longleftrightarrow> 0 < cv_width c \<and> 0 < cv_height c
     \<and> int (length (cv_bits c)) = row_bytes (cv_width c) * cv_height c
     \<and> sorted (map ctl_y (cv_controls c)) \<and> (\<forall>k \<in> set (cv_controls c). 0 \<le> ctl_y k \<and> ctl_y k \<le> cv_height c)"

definition cuts_ok :: "canvas \<Rightarrow> profile \<Rightarrow> bool" where
  "cuts_ok c p \<longleftrightarrow> (p_supports_cut p \<longrightarrow> p_default_cut p \<in> {''full'', ''partial''})
     \<and> (\<forall>k \<in> set (cv_controls c). cut_mode_ok p (ctl_element k))"

lemma cutCommand_ok:
  "m \<in> {''full'', ''partial''} \<Longrightarrow> cutCommand m = Val (cmd_bytes (CutPaper (if m = ''full'' then 0 else 1)))"
  by (auto simp: cutCommand_def)

lemma controlCommand_ok:
  assumes "cut_mode_ok p el" "p_supports_cut p \<longrightarrow> p_default_cut p \<in> {''full'', ''partial''}"
  shows "controlCommand el p = Val (stream (ctl_cmds p el))"
  using assms
  by (cases "(p, el)" rule: cut_mode_ok.cases)
    (auto simp: controlCommand_def feedCommand_def cutCommand_def)

lemma encode_controls_spec:
  assumes "0 < band" "h * rb \<le> length (cv_bits c)" "p_supports_cut p \<longrightarrow> p_default_cut p \<in> {''full'', ''partial''}"
    and "cv_height c = int h"
    and "sorted (map ctl_y ks)" "\<forall>k \<in> set ks. int pos \<le> ctl_y k \<and> ctl_y k \<le> int h \<and> cut_mode_ok p (ctl_element k)"
    and "pos \<le> h"
  shows "go_bind (encode_controls c p (int rb) (int band) ks (int pos) out)
           (\<lambda>(out, pos). appendRasterBands out (cv_bits c) (int rb) (int band) pos (int h))
         = Val (out @ stream (control_cmds c p rb band ks pos))"
  using assms(5-7)
proof (induction ks arbitrary: pos out)
  case Nil
  with assms(1,2,4) show ?case by (simp add: appendRasterBands_spec)
next
  case (Cons k ks)
  let ?y = "nat (ctl_y k)"
  have y: "int ?y = ctl_y k" "pos \<le> ?y" "?y \<le> h" using Cons.prems by auto
  have "?y * rb \<le> length (cv_bits c)" using y(3) assms(2) by (meson le_trans mult_le_mono1)
  from appendRasterBands_spec [OF assms(1) y(2) this, of out]
  have a: "appendRasterBands out (cv_bits c) (int rb) (int band) (int pos) (ctl_y k)
      = Val (out @ stream (bands (cv_bits c) rb band pos ?y))" using y(1) by simp
  have k: "controlCommand (ctl_element k) p = Val (stream (ctl_cmds p (ctl_element k)))"
    using controlCommand_ok assms(3) Cons.prems(2) by simp
  have "sorted (map ctl_y ks)" "\<forall>k' \<in> set ks. int ?y \<le> ctl_y k' \<and> ctl_y k' \<le> int h \<and> cut_mode_ok p (ctl_element k')"
    using Cons.prems y(1) by auto
  from Cons.IH [OF this y(3)] y(1) a k show ?case by simp
qed

lemma bandHeight_pos: "0 < h \<Longrightarrow> 0 < bandHeight h m \<and> bandHeight h m \<le> h \<and> (0 < m \<longrightarrow> bandHeight h m \<le> m)"
  by (auto simp: bandHeight_def)

lemma canvas_ok_row: "canvas_ok c \<Longrightarrow> 0 < row_bytes (cv_width c)"
  using row_bytes_bounds [of "cv_width c"] by (simp add: canvas_ok_def)

lemma canvas_ok_bits:
  "canvas_ok c \<Longrightarrow> length (cv_bits c) = nat (cv_height c) * nat (row_bytes (cv_width c))"
proof -
  assume c: "canvas_ok c"
  then have "length (cv_bits c) = nat (cv_height c * row_bytes (cv_width c))"
    by (metis canvas_ok_def mult.commute nat_int)
  with c show ?thesis by (simp add: nat_mult_distrib canvas_ok_def)
qed

lemma Encode_stream:
  assumes c: "canvas_ok c" and k: "cuts_ok c p"
  shows "Encode c p = Val (stream (commands c p))"
proof -
  let ?rb = "nat (row_bytes (cv_width c))" and ?h = "nat (cv_height c)"
  let ?band = "nat (bandHeight (cv_height c) (p_max_image_height p))"
  have i: "int ?rb = row_bytes (cv_width c)" "int ?h = cv_height c"
    "int ?band = bandHeight (cv_height c) (p_max_image_height p)" "0 < ?band"
    using canvas_ok_row [OF c] c bandHeight_pos [of "cv_height c" "p_max_image_height p"]
    by (simp_all add: canvas_ok_def)
  have bits: "?h * ?rb \<le> length (cv_bits c)" using canvas_ok_bits [OF c] by simp
  have ctl: "sorted (map ctl_y (cv_controls c))"
    "\<forall>k \<in> set (cv_controls c). int 0 \<le> ctl_y k \<and> ctl_y k \<le> int ?h \<and> cut_mode_ok p (ctl_element k)"
    using c k i by (auto simp: canvas_ok_def cuts_ok_def)
  have dc: "p_supports_cut p \<longrightarrow> p_default_cut p \<in> {''full'', ''partial''}" using k by (simp add: cuts_ok_def)
  from encode_controls_spec [OF i(4) bits dc i(2) [symmetric] ctl, of initSequence]
  have e: "go_bind (encode_controls c p (row_bytes (cv_width c))
         (bandHeight (cv_height c) (p_max_image_height p)) (cv_controls c) 0 initSequence)
       (\<lambda>(out, pos). appendRasterBands out (cv_bits c) (row_bytes (cv_width c))
            (bandHeight (cv_height c) (p_max_image_height p)) pos (cv_height c))
     = Val (initSequence @ stream (control_cmds c p ?rb ?band (cv_controls c) 0))"
    using i by simp
  then obtain out pos where "encode_controls c p (row_bytes (cv_width c))
         (bandHeight (cv_height c) (p_max_image_height p)) (cv_controls c) 0 initSequence = Val (out, pos)"
    "appendRasterBands out (cv_bits c) (row_bytes (cv_width c))
            (bandHeight (cv_height c) (p_max_image_height p)) pos (cv_height c)
      = Val (initSequence @ stream (control_cmds c p ?rb ?band (cv_controls c) 0))"
    by (auto simp: go_simps)
  with c dc show ?thesis
    by (auto simp: Encode_def Let_def canvas_ok_def commands_def auto_cut_def cutCommand_ok
        feedCommand_def defaultFeedLines_def simp del: insert_iff)
qed

section \<open>What the commands print\<close>

lemma ctl_cmds_facts [simp]: "raster_data (ctl_cmds p el) = []" "rows_of (ctl_cmds p el) = 0"
  "marks n (ctl_cmds p el) = map (Pair n) (ctl_cmds p el)" "list_all cmd_ok (ctl_cmds p el)"
  "Raster w h d \<notin> set (ctl_cmds p el)"
  by (cases "(p, el)" rule: ctl_cmds.cases; simp)+

lemma auto_cut_facts [simp]: "raster_data (auto_cut c p) = []"
  "marks n (auto_cut c p) = map (Pair n) (auto_cut c p)" "list_all cmd_ok (auto_cut c p)"
  "Raster w h d \<notin> set (auto_cut c p)"
  by (simp_all add: auto_cut_def)

definition control_marks :: "profile \<Rightarrow> control list \<Rightarrow> (nat \<times> cmd) list" where
  "control_marks p ks = concat (map (\<lambda>k. map (Pair (nat (ctl_y k))) (ctl_cmds p (ctl_element k))) ks)"

lemma control_cmds_facts:
  assumes "0 < band" "nat (cv_height c) * rb \<le> length (cv_bits c)"
    and "sorted (map ctl_y ks)" "\<forall>k \<in> set ks. int pos \<le> ctl_y k \<and> ctl_y k \<le> cv_height c"
    and "int pos \<le> cv_height c"
  shows "rows_of (control_cmds c p rb band ks pos) = nat (cv_height c) - pos"
    and "marks pos (control_cmds c p rb band ks pos) = control_marks p ks"
    and "raster_data (control_cmds c p rb band ks pos)
          = take ((nat (cv_height c) - pos) * rb) (drop (pos * rb) (cv_bits c))"
    and "rb < 2 ^ 16 \<Longrightarrow> band < 2 ^ 16 \<Longrightarrow> list_all cmd_ok (control_cmds c p rb band ks pos)"
    and "Raster w h d \<in> set (control_cmds c p rb band ks pos) \<Longrightarrow> w = rb \<and> 0 < h \<and> h \<le> band"
proof -
  let ?h = "nat (cv_height c)"
  have "rows_of (control_cmds c p rb band ks pos) = ?h - pos
    \<and> marks pos (control_cmds c p rb band ks pos) = control_marks p ks
    \<and> raster_data (control_cmds c p rb band ks pos) = take ((?h - pos) * rb) (drop (pos * rb) (cv_bits c))
    \<and> (rb < 2 ^ 16 \<longrightarrow> band < 2 ^ 16 \<longrightarrow> list_all cmd_ok (control_cmds c p rb band ks pos))
    \<and> (Raster w h d \<in> set (control_cmds c p rb band ks pos) \<longrightarrow> w = rb \<and> 0 < h \<and> h \<le> band)"
    using assms(3-5)
  proof (induction ks arbitrary: pos)
    case Nil
    then have p: "pos \<le> ?h" by simp
    from assms(1,2) p show ?case
      by (auto simp: bands_rows bands_data bands_ok control_marks_def dest: bands_bounds)
  next
    case (Cons k ks)
    let ?y = "nat (ctl_y k)"
    have y: "int ?y = ctl_y k" "pos \<le> ?y" "?y \<le> ?h" using Cons.prems by auto
    have "\<forall>k' \<in> set ks. int ?y \<le> ctl_y k' \<and> ctl_y k' \<le> cv_height c" "sorted (map ctl_y ks)"
      "int ?y \<le> cv_height c" using Cons.prems y(1) by auto
    note IH = Cons.IH [OF this(2,1,3)]
    have l: "?y * rb \<le> length (cv_bits c)" using y(3) assms(2) by (meson le_trans mult_le_mono1)
    have "take ((?y - pos) * rb) (drop (pos * rb) (cv_bits c)) @ take ((?h - ?y) * rb) (drop (?y * rb) (cv_bits c))
        = take ((?h - pos) * rb) (drop (pos * rb) (cv_bits c))"
    proof -
      have "?y * rb = (?y - pos) * rb + pos * rb" "(?h - pos) * rb = (?y - pos) * rb + (?h - ?y) * rb"
        using y(2,3) by (simp_all flip: add_mult_distrib)
      then show ?thesis by (simp add: take_add)
    qed
    with IH y assms(1) l show ?case
      by (auto simp: bands_rows bands_data bands_ok control_marks_def dest: bands_bounds)
  qed
  then show "rows_of (control_cmds c p rb band ks pos) = ?h - pos"
    "marks pos (control_cmds c p rb band ks pos) = control_marks p ks"
    "raster_data (control_cmds c p rb band ks pos) = take ((?h - pos) * rb) (drop (pos * rb) (cv_bits c))"
    "rb < 2 ^ 16 \<Longrightarrow> band < 2 ^ 16 \<Longrightarrow> list_all cmd_ok (control_cmds c p rb band ks pos)"
    "Raster w h d \<in> set (control_cmds c p rb band ks pos) \<Longrightarrow> w = rb \<and> 0 < h \<and> h \<le> band"
    by blast+
qed

text \<open>The widths and heights of the raster commands fit their 16-bit fields.\<close>

definition fits_16_bits :: "canvas \<Rightarrow> profile \<Rightarrow> bool" where
  "fits_16_bits c p \<longleftrightarrow> row_bytes (cv_width c) < 2 ^ 16 \<and> bandHeight (cv_height c) (p_max_image_height p) < 2 ^ 16"

lemma commands_spec:
  assumes c: "canvas_ok c" and f: "fits_16_bits c p"
  shows "\<exists>cmds. commands c p = InitPrinter # cmds \<and> list_all cmd_ok cmds \<and> raster_data cmds = cv_bits c
    \<and> marks 0 cmds = control_marks p (cv_controls c) @ map (Pair (nat (cv_height c))) (auto_cut c p)
    \<and> (\<forall>w h d. Raster w h d \<in> set cmds \<longrightarrow> int w = row_bytes (cv_width c) \<and> 0 < h
         \<and> int h \<le> bandHeight (cv_height c) (p_max_image_height p))"
proof -
  let ?rb = "nat (row_bytes (cv_width c))" and ?h = "nat (cv_height c)"
  let ?band = "nat (bandHeight (cv_height c) (p_max_image_height p))"
  let ?cs = "control_cmds c p ?rb ?band (cv_controls c) 0"
  have i: "int ?rb = row_bytes (cv_width c)" "int ?band = bandHeight (cv_height c) (p_max_image_height p)"
    "0 < ?band" using canvas_ok_row [OF c] c bandHeight_pos [of "cv_height c" "p_max_image_height p"]
    by (simp_all add: canvas_ok_def)
  have b: "?h * ?rb \<le> length (cv_bits c)" using canvas_ok_bits [OF c] by simp
  have k: "sorted (map ctl_y (cv_controls c))"
    "\<forall>k \<in> set (cv_controls c). int 0 \<le> ctl_y k \<and> ctl_y k \<le> cv_height c" "int 0 \<le> cv_height c"
    using c by (auto simp: canvas_ok_def)
  note s = control_cmds_facts [OF i(3) b k, where p = p]
  have "list_all cmd_ok ?cs" by (rule s(4)) (use f i in \<open>auto simp: fits_16_bits_def\<close>)
  moreover have "raster_data ?cs = cv_bits c" using s(3) canvas_ok_bits [OF c] by simp
  moreover have "\<forall>w h d. Raster w h d \<in> set ?cs \<longrightarrow> int w = row_bytes (cv_width c) \<and> 0 < h
      \<and> int h \<le> bandHeight (cv_height c) (p_max_image_height p)"
    using s(5) i by (metis of_nat_le_iff)
  ultimately show ?thesis
    by (intro exI [of _ "?cs @ auto_cut c p"]) (simp add: commands_def s(1,2))
qed

lemma encode_parses:
  assumes "canvas_ok c" and "cuts_ok c p" and "fits_16_bits c p"
  shows "\<exists>out cmds. Encode c p = Val out \<and> parse out = Some (InitPrinter # cmds)
    \<and> raster_data cmds = cv_bits c
    \<and> marks 0 cmds = control_marks p (cv_controls c) @ map (Pair (nat (cv_height c))) (auto_cut c p)
    \<and> (\<forall>w h d. Raster w h d \<in> set cmds \<longrightarrow> int w = row_bytes (cv_width c) \<and> 0 < h
         \<and> (0 < p_max_image_height p \<longrightarrow> int h \<le> p_max_image_height p))"
proof -
  from commands_spec [OF assms(1,3)] obtain cmds where
    s: "commands c p = InitPrinter # cmds" "list_all cmd_ok cmds" "raster_data cmds = cv_bits c"
    "marks 0 cmds = control_marks p (cv_controls c) @ map (Pair (nat (cv_height c))) (auto_cut c p)"
    "\<forall>w h d. Raster w h d \<in> set cmds \<longrightarrow> int w = row_bytes (cv_width c) \<and> 0 < h
         \<and> int h \<le> bandHeight (cv_height c) (p_max_image_height p)" by blast
  have "parse (stream (InitPrinter # cmds)) = Some (InitPrinter # cmds)" by (rule parse_stream) (simp add: s(2))
  moreover have "Encode c p = Val (stream (InitPrinter # cmds))" using Encode_stream [OF assms(1,2)] s(1) by simp
  moreover have "bandHeight (cv_height c) (p_max_image_height p) \<le> p_max_image_height p" if "0 < p_max_image_height p"
    using bandHeight_pos [of "cv_height c" "p_max_image_height p"] that assms(1) by (simp add: canvas_ok_def)
  ultimately show ?thesis using s(3,4,5) by (meson order_trans)
qed

section \<open>Properties\<close>

text \<open>
  (C6) The byte stream says what the canvas shows, where the two dimensions of every raster band fit the 16 bits the
  command has for them (C39 shows that they need not): for a canvas whose rows have its width and whose
  controls are ordered, lie inside it and name known cut modes, reading the stream back as the printer does gives an
  initialisation, then raster commands whose data, put together, are exactly the canvas rows in
  order, each of the canvas width and of at most the printer's maximum height, with every feed and
  cut after precisely the rows above it, and the automatic feed and cut last.
\<close>

theorem escpos_roundtrip:
  assumes "canvas_ok c" and "cuts_ok c p" and "fits_16_bits c p"
  shows "\<exists>out cmds. Encode c p = Val out \<and> parse out = Some (InitPrinter # cmds)
    \<and> raster_data cmds = cv_bits c
    \<and> marks 0 cmds = control_marks p (cv_controls c) @ map (Pair (nat (cv_height c))) (auto_cut c p)
    \<and> (\<forall>w h d. Raster w h d \<in> set cmds \<longrightarrow> int w = row_bytes (cv_width c) \<and> 0 < h
         \<and> (0 < p_max_image_height p \<longrightarrow> int h \<le> p_max_image_height p))"
  by (rule encode_parses [OF assms])

definition sample_canvas :: canvas where
  "sample_canvas = \<lparr>cv_width = 8, cv_height = 3, cv_bits = [1, 2, 3],
     cv_controls = [\<lparr>ctl_y = 2, ctl_element = Plain (EFeed 2), ctl_terminal = False\<rparr>]\<rparr>"

lemma sample_canvas_ok: "canvas_ok sample_canvas" "cuts_ok sample_canvas epson_tm_m30ii"
  "fits_16_bits sample_canvas epson_tm_m30ii"
  by (simp_all add: canvas_ok_def cuts_ok_def fits_16_bits_def sample_canvas_def row_bytes_def
      epson_tm_m30ii_def bandHeight_def sdiv_pos)

theorem escpos_roundtrip_witness:
  "\<exists>out cmds. Encode sample_canvas epson_tm_m30ii = Val out \<and> parse out = Some (InitPrinter # cmds)
    \<and> raster_data cmds = [1, 2, 3] \<and> marks 0 cmds = [(2, FeedLines 2), (3, FeedLines 4), (3, CutPaper 1)]"
proof -
  have "control_marks epson_tm_m30ii (cv_controls sample_canvas) @ map (Pair (nat (cv_height sample_canvas)))
      (auto_cut sample_canvas epson_tm_m30ii) = [(2, FeedLines 2), (3, FeedLines 4), (3, CutPaper 1)]"
    by (simp add: sample_canvas_def control_marks_def auto_cut_def epson_tm_m30ii_def endsWithExplicitCut_def)
  moreover have "cv_bits sample_canvas = [1, 2, 3]" by (simp add: sample_canvas_def)
  ultimately show ?thesis using escpos_roundtrip [OF sample_canvas_ok] by metis
qed

text \<open>
  (C39) A tall receipt on a printer without a maximum image height (the shipped profile) is announced
  with its height modulo 65536: 65536 rows are sent as one raster command of height 0, so the
  printer takes the picture for further commands.
\<close>

theorem band_height_wraps:
  "Encode \<lparr>cv_width = 8, cv_height = 65536, cv_bits = replicate 65536 0, cv_controls = []\<rparr> epson_tm_m30ii
   = Val ([0x1B, 0x40] @ [0x1D, 0x76, 0x30, 0x00, 1, 0, 0, 0] @ replicate 65536 0
          @ [0x1B, 0x64, 4, 0x1D, 0x56, 1])"
proof -
  let ?c = "\<lparr>cv_width = 8, cv_height = 65536, cv_bits = replicate 65536 0, cv_controls = []\<rparr>"
  have c: "canvas_ok ?c" "cuts_ok ?c epson_tm_m30ii"
    by (simp_all add: canvas_ok_def cuts_ok_def row_bytes_def epson_tm_m30ii_def sdiv_pos)
  have b: "bands bits (Suc 0) 65536 0 65536 = [Raster (Suc 0) 65536 (take 65536 bits)]" for bits
    by (simp add: bands.simps)
  have "commands ?c epson_tm_m30ii = [InitPrinter, Raster 1 65536 (replicate 65536 0), FeedLines 4, CutPaper 1]"
    by (simp add: commands_def row_bytes_def sdiv_pos bandHeight_def epson_tm_m30ii_def b auto_cut_def
        endsWithExplicitCut_def)
  with Encode_stream [OF c] show ?thesis
    by (simp add: initSequence_def rasterCommandFixed_def loHi_def)
qed

end
