(* ===== verification/Assets.thy ===== *)
theory Assets
  imports Job "HOL-Library.AList"
begin

text \<open>
  Package \<open>internal/assets\<close>: named asset storage.  The memory store is an association list in
  arbitrary order; the filesystem store runs over a record of the operating system calls it
  makes, whose documented behaviour is \<open>fs_ok\<close>.  Both satisfy the locale \<open>asset_store\<close>.  The
  lexical \<open>filepath.Join\<close> is modelled, so that a validated name is shown to stay under the root.
\<close>

section \<open>The interface\<close>

record asset_info =
  ai_name :: string
  ai_size :: int
  ai_mod_time :: time

record 's asset_ops =
  as_get :: "string \<Rightarrow> 's \<Rightarrow> goerr + byte list"
  as_put :: "string \<Rightarrow> byte list \<Rightarrow> time \<Rightarrow> 's \<Rightarrow> goerr option \<times> 's"
  as_delete :: "string \<Rightarrow> 's \<Rightarrow> goerr option \<times> 's"
  as_list :: "'s \<Rightarrow> goerr + asset_info list"

definition validateName :: "string \<Rightarrow> string \<Rightarrow> goerr option" where
  "validateName op name =
     (if name = '''' then Some (wrap KindValidation op (Some (Leaf ''asset name is required'')))
      else if CHR ''/'' \<in> set name \<or> CHR 0x5C \<in> set name \<or> name = ''.'' \<or> name = ''..''
      then Some (wrap KindValidation op (Some (errorf ''invalid asset name %q'' [FStr name])))
      else None)"

definition asset_not_found :: "string \<Rightarrow> string \<Rightarrow> goerr" where
  "asset_not_found op name = wrap KindNotFound op (Some (errorf ''asset %q not found'' [FStr name]))"

text \<open>A safe, single-segment key.\<close>

definition name_ok :: "string \<Rightarrow> bool" where
  "name_ok name \<longleftrightarrow> name \<notin> {'''', ''.'', ''..''} \<and> CHR ''/'' \<notin> set name \<and> CHR 0x5C \<notin> set name"

lemma validateName_None [simp]: "validateName op name = None \<longleftrightarrow> name_ok name"
  by (auto simp: validateName_def name_ok_def)

lemma validateName_Some: "validateName op name = Some e \<Longrightarrow> \<not> name_ok name \<and> (is_kind (Some e) k \<longleftrightarrow> k = KindValidation)"
  by (auto simp: validateName_def name_ok_def split: if_splits)

lemma asset_not_found_kind [simp]: "is_kind (Some (asset_not_found op n)) k \<longleftrightarrow> k = KindNotFound"
  by (auto simp: asset_not_found_def)

locale asset_store =
  fixes ops :: "'s asset_ops" and content :: "'s \<Rightarrow> (string \<rightharpoonup> byte list)" and invar :: "'s \<Rightarrow> bool"
  assumes get_ok: "invar s \<Longrightarrow> as_get ops n s = Inr d \<Longrightarrow> name_ok n \<and> content s n = Some d"
    and get_not_found: "invar s \<Longrightarrow> as_get ops n s = Inl e \<Longrightarrow> is_kind (Some e) KindNotFound \<Longrightarrow> content s n = None"
    and get_invalid: "invar s \<Longrightarrow> \<not> name_ok n \<Longrightarrow> \<exists>e. as_get ops n s = Inl e \<and> is_kind (Some e) KindValidation"
    and put_ok: "invar s \<Longrightarrow> as_put ops n d now s = (None, s') \<Longrightarrow>
                    name_ok n \<and> invar s' \<and> content s' = (content s)(n \<mapsto> d)"
    and put_err: "invar s \<Longrightarrow> as_put ops n d now s = (Some e, s') \<Longrightarrow>
                    invar s' \<and> (\<forall>m. m \<noteq> n \<longrightarrow> content s' m = content s m)"
    and put_invalid: "invar s \<Longrightarrow> \<not> name_ok n \<Longrightarrow>
                    \<exists>e. as_put ops n d now s = (Some e, s) \<and> is_kind (Some e) KindValidation"
    and delete_ok: "invar s \<Longrightarrow> as_delete ops n s = (None, s') \<Longrightarrow>
                    name_ok n \<and> invar s' \<and> content s' = (content s)(n := None)"
    and delete_err: "invar s \<Longrightarrow> as_delete ops n s = (Some e, s') \<Longrightarrow> invar s' \<and> content s' = content s
                    \<and> (is_kind (Some e) KindNotFound \<longrightarrow> content s n = None)"
    and delete_invalid: "invar s \<Longrightarrow> \<not> name_ok n \<Longrightarrow>
                    \<exists>e. as_delete ops n s = (Some e, s) \<and> is_kind (Some e) KindValidation"
    and list_ok: "invar s \<Longrightarrow> as_list ops s = Inr infos \<Longrightarrow>
                    sorted (map ai_name infos) \<and> distinct (map ai_name infos)
                    \<and> (\<forall>n z. (n, z) \<in> (\<lambda>i. (ai_name i, ai_size i)) ` set infos
                         \<longleftrightarrow> (\<exists>d. content s n = Some d \<and> z = int (length d)))"
begin

text \<open>What is put is what is read, and what is deleted is not found.\<close>

lemma put_then_get:
  "invar s \<Longrightarrow> as_put ops n d now s = (None, s') \<Longrightarrow> as_get ops n s' = Inr d' \<Longrightarrow> d' = d"
  using put_ok [of s n d now s'] get_ok [of s' n d'] by simp

lemma put_then_get_other:
  "invar s \<Longrightarrow> as_put ops n d now s = (r, s') \<Longrightarrow> m \<noteq> n \<Longrightarrow> as_get ops m s = Inr a \<Longrightarrow>
     as_get ops m s' = Inr b \<Longrightarrow> a = b"
  using put_ok [of s n d now s'] put_err [of s n d now _ s'] get_ok [of s m a] get_ok [of s' m b]
  by (cases r) auto

lemma delete_then_get:
  "invar s \<Longrightarrow> as_delete ops n s = (None, s') \<Longrightarrow> as_get ops n s' \<noteq> Inr d"
  using delete_ok [of s n s'] get_ok [of s' n d] by auto

end

section \<open>The memory store\<close>

record asset_entry =
  ae_data :: "byte list"
  ae_mod_time :: time

type_synonym asset_mem = "(string \<times> asset_entry) list"

definition mem_asset_get :: "string \<Rightarrow> asset_mem \<Rightarrow> goerr + byte list" where
  "mem_asset_get name s =
     (case validateName ''assets.Store.Get'' name of
        Some err \<Rightarrow> Inl err
      | None \<Rightarrow> (case map_of s name of
                   None \<Rightarrow> Inl (asset_not_found ''assets.Store.Get'' name)
                 | Some e \<Rightarrow> Inr (ae_data e)))"

definition mem_asset_put :: "string \<Rightarrow> byte list \<Rightarrow> time \<Rightarrow> asset_mem \<Rightarrow> goerr option \<times> asset_mem" where
  "mem_asset_put name data now s =
     (case validateName ''assets.Store.Put'' name of
        Some err \<Rightarrow> (Some err, s)
      | None \<Rightarrow> (None, AList.update name \<lparr>ae_data = data, ae_mod_time = now\<rparr> s))"

definition mem_asset_delete :: "string \<Rightarrow> asset_mem \<Rightarrow> goerr option \<times> asset_mem" where
  "mem_asset_delete name s =
     (case validateName ''assets.Store.Delete'' name of
        Some err \<Rightarrow> (Some err, s)
      | None \<Rightarrow> (case map_of s name of
                   None \<Rightarrow> (Some (asset_not_found ''assets.Store.Delete'' name), s)
                 | Some _ \<Rightarrow> (None, AList.delete name s)))"

definition mem_asset_list :: "asset_mem \<Rightarrow> goerr + asset_info list" where
  "mem_asset_list s =
     Inr (sort_key ai_name
       (map (\<lambda>(name, e). \<lparr>ai_name = name, ai_size = int (length (ae_data e)), ai_mod_time = ae_mod_time e\<rparr>) s))"

definition mem_asset_ops :: "asset_mem asset_ops" where
  "mem_asset_ops = \<lparr>as_get = mem_asset_get, as_put = mem_asset_put, as_delete = mem_asset_delete,
                    as_list = mem_asset_list\<rparr>"

definition mem_asset_content :: "asset_mem \<Rightarrow> (string \<rightharpoonup> byte list)" where
  "mem_asset_content s n = map_option ae_data (map_of s n)"

definition mem_asset_invar :: "asset_mem \<Rightarrow> bool" where
  "mem_asset_invar s \<longleftrightarrow> distinct (map fst s)"

interpretation memassets: asset_store mem_asset_ops mem_asset_content mem_asset_invar
proof
  fix s s' :: asset_mem and n d e now and infos :: "asset_info list"
  assume inv: "mem_asset_invar s"
  show "name_ok n \<and> mem_asset_content s n = Some d" if "as_get mem_asset_ops n s = Inr d"
    using that by (auto simp: mem_asset_ops_def mem_asset_get_def mem_asset_content_def split: option.splits)
  show "mem_asset_content s n = None" if "as_get mem_asset_ops n s = Inl e" "is_kind (Some e) KindNotFound"
    using that by (auto simp: mem_asset_ops_def mem_asset_get_def mem_asset_content_def split: option.splits
        dest: validateName_Some)
  show "\<exists>e. as_get mem_asset_ops n s = Inl e \<and> is_kind (Some e) KindValidation" if "\<not> name_ok n"
    using that validateName_None [of "''assets.Store.Get''" n]
    by (cases "validateName ''assets.Store.Get'' n")
      (auto simp: mem_asset_ops_def mem_asset_get_def dest: validateName_Some)
  show "name_ok n \<and> mem_asset_invar s' \<and> mem_asset_content s' = (mem_asset_content s)(n \<mapsto> d)"
    if "as_put mem_asset_ops n d now s = (None, s')"
    using that inv by (auto simp: mem_asset_ops_def mem_asset_put_def mem_asset_content_def mem_asset_invar_def
        update_conv' distinct_update split: option.splits)
  show "mem_asset_invar s' \<and> (\<forall>m. m \<noteq> n \<longrightarrow> mem_asset_content s' m = mem_asset_content s m)"
    if "as_put mem_asset_ops n d now s = (Some e, s')"
    using that inv by (auto simp: mem_asset_ops_def mem_asset_put_def split: option.splits)
  show "\<exists>e. as_put mem_asset_ops n d now s = (Some e, s) \<and> is_kind (Some e) KindValidation" if "\<not> name_ok n"
    using that validateName_None [of "''assets.Store.Put''" n]
    by (cases "validateName ''assets.Store.Put'' n")
      (auto simp: mem_asset_ops_def mem_asset_put_def dest: validateName_Some)
  show "name_ok n \<and> mem_asset_invar s' \<and> mem_asset_content s' = (mem_asset_content s)(n := None)"
    if "as_delete mem_asset_ops n s = (None, s')"
    using that inv by (auto simp: mem_asset_ops_def mem_asset_delete_def mem_asset_content_def mem_asset_invar_def
        delete_conv' distinct_delete fun_eq_iff split: option.splits)
  show "mem_asset_invar s' \<and> mem_asset_content s' = mem_asset_content s
      \<and> (is_kind (Some e) KindNotFound \<longrightarrow> mem_asset_content s n = None)"
    if "as_delete mem_asset_ops n s = (Some e, s')"
    using that inv by (auto simp: mem_asset_ops_def mem_asset_delete_def mem_asset_content_def
        split: option.splits dest: validateName_Some)
  show "\<exists>e. as_delete mem_asset_ops n s = (Some e, s) \<and> is_kind (Some e) KindValidation" if "\<not> name_ok n"
    using that validateName_None [of "''assets.Store.Delete''" n]
    by (cases "validateName ''assets.Store.Delete'' n")
      (auto simp: mem_asset_ops_def mem_asset_delete_def dest: validateName_Some)
  show "sorted (map ai_name infos) \<and> distinct (map ai_name infos)
      \<and> (\<forall>n z. (n, z) \<in> (\<lambda>i. (ai_name i, ai_size i)) ` set infos
           \<longleftrightarrow> (\<exists>d. mem_asset_content s n = Some d \<and> z = int (length d)))"
    if "as_list mem_asset_ops s = Inr infos"
  proof -
    let ?i = "\<lambda>(name, e). \<lparr>ai_name = name, ai_size = int (length (ae_data e)), ai_mod_time = ae_mod_time e\<rparr>"
    from that have i: "infos = sort_key ai_name (map ?i s)" by (simp add: mem_asset_ops_def mem_asset_list_def)
    have "map ai_name (map ?i s) = map fst s" by (induction s) auto
    then have "distinct (map ai_name (map ?i s))" using inv by (simp only: mem_asset_invar_def)
    then have "distinct (map ai_name infos)"
      unfolding i distinct_map [of ai_name] set_sort distinct_sort .
    moreover have "mem_asset_content s n = Some d \<longleftrightarrow> (\<exists>e. (n, e) \<in> set s \<and> d = ae_data e)" for n d
      using inv by (auto simp: mem_asset_content_def mem_asset_invar_def)
    moreover have "(\<lambda>i. (ai_name i, ai_size i)) ` set infos = (\<lambda>(n, e). (n, int (length (ae_data e)))) ` set s"
      by (simp add: i image_image case_prod_beta)
    moreover have "sorted (map ai_name infos)" by (simp add: i)
    ultimately show ?thesis by (auto simp: image_iff Bex_def)
  qed
qed

section \<open>Paths\<close>

text \<open>
  \<open>filepath.Join\<close> on Unix: the non-empty elements joined by slashes and cleaned.  \<open>Clean\<close> drops
  empty and \<open>.\<close> segments and lets \<open>..\<close> cancel the segment before it.
\<close>

fun clean_segs :: "bool \<Rightarrow> string list \<Rightarrow> string list \<Rightarrow> string list" where
  "clean_segs rooted acc [] = acc"
| "clean_segs rooted acc (s # ss) =
     (if s = '''' \<or> s = ''.'' then clean_segs rooted acc ss
      else if s = ''..'' then
        (if acc \<noteq> [] \<and> last acc \<noteq> ''..'' then clean_segs rooted (butlast acc) ss
         else if rooted then clean_segs rooted acc ss
         else clean_segs rooted (acc @ [s]) ss)
      else clean_segs rooted (acc @ [s]) ss)"

definition path_clean :: "string \<Rightarrow> string" where
  "path_clean p =
     (let rooted = p \<noteq> [] \<and> hd p = CHR ''/'';
          s = join_with ''/'' (clean_segs rooted [] (split_on (CHR ''/'') p));
          q = (if rooted then ''/'' else '''') @ s
      in if q = '''' then ''.'' else q)"

definition path_join :: "string list \<Rightarrow> string" where
  "path_join es =
     (let ne = filter (\<lambda>e. e \<noteq> '''') es in if ne = [] then '''' else path_clean (join_with ''/'' ne))"

lemma clean_segs_append: "clean_segs r acc (ss @ ts) = clean_segs r (clean_segs r acc ss) ts"
  by (induction r acc ss rule: clean_segs.induct) auto

lemma split_on_append:
  "split_on c (s @ c # t) = split_on c s @ split_on c t"
  by (induction s) (auto split: list.split)

lemma split_on_none: "c \<notin> set s \<Longrightarrow> split_on c s = [s]"
  by (induction s) auto

text \<open>A validated name is one more segment below the root, whatever the root.\<close>

lemma join_name:
  assumes "name_ok n" and "root \<noteq> ''''"
  shows "path_join [root, n] = path_clean (root @ ''/'' @ n)"
    and "clean_segs (hd root = CHR ''/'') [] (split_on (CHR ''/'') (root @ ''/'' @ n))
          = clean_segs (hd root = CHR ''/'') [] (split_on (CHR ''/'') root) @ [n]"
proof -
  show "path_join [root, n] = path_clean (root @ ''/'' @ n)"
    using assms by (simp add: path_join_def name_ok_def)
  have "split_on (CHR ''/'') (root @ CHR ''/'' # n) = split_on (CHR ''/'') root @ [n]"
    using assms(1) by (simp add: split_on_append split_on_none name_ok_def)
  then show "clean_segs (hd root = CHR ''/'') [] (split_on (CHR ''/'') (root @ ''/'' @ n))
          = clean_segs (hd root = CHR ''/'') [] (split_on (CHR ''/'') root) @ [n]"
    using assms(1) by (simp add: clean_segs_append name_ok_def)
qed

lemma join_with_last_eq:
  "join_with sep (xs @ [a]) = join_with sep (xs @ [b]) \<Longrightarrow> a = b"
  by (cases "xs = []") (auto simp: join_with_snoc)

lemma path_join_inj:
  assumes "name_ok n" "name_ok m" "path_join [root, n] = path_join [root, m]"
  shows "n = m"
proof (cases "root = ''''")
  case True
  have "path_join ['''', k] = k" if "name_ok k" for k
  proof -
    from that have "k \<noteq> ''''" "hd k \<noteq> CHR ''/''" "CHR ''/'' \<notin> set k"
      by (auto simp: name_ok_def dest: hd_in_set)
    with that show ?thesis by (auto simp: path_join_def path_clean_def Let_def split_on_none name_ok_def)
  qed
  with assms True show ?thesis by simp
next
  case False
  have "path_clean (root @ ''/'' @ k) = (if hd root = CHR ''/'' then ''/'' else '''') @
      join_with ''/'' (clean_segs (hd root = CHR ''/'') [] (split_on (CHR ''/'') root) @ [k])" if "name_ok k" for k
  proof -
    have "k \<noteq> ''''" using that by (simp add: name_ok_def)
    then have "join_with ''/'' (xs @ [k]) \<noteq> ''''" for xs by (cases "xs = []") (simp_all add: join_with_snoc)
    with join_name(2) [OF that False] False show ?thesis by (simp add: path_clean_def Let_def)
  qed
  with assms False show ?thesis by (auto simp: join_name(1) dest: join_with_last_eq)
qed

section \<open>The filesystem store\<close>

text \<open>An error of the operating system: whether it is \<open>fs.ErrNotExist\<close>, and the error itself.\<close>

record os_error =
  oe_not_exist :: bool
  oe_error :: goerr

record dirent =
  de_name :: string
  de_is_dir :: bool
  de_info :: "os_error + int \<times> time"

record 'w fsys =
  fs_read_file :: "string \<Rightarrow> 'w \<Rightarrow> os_error + byte list"
  fs_mkdir_all :: "string \<Rightarrow> 'w \<Rightarrow> os_error option \<times> 'w"
  fs_write_file :: "string \<Rightarrow> byte list \<Rightarrow> 'w \<Rightarrow> os_error option \<times> 'w"
  fs_remove :: "string \<Rightarrow> 'w \<Rightarrow> os_error option \<times> 'w"
  fs_read_dir :: "string \<Rightarrow> 'w \<Rightarrow> os_error + dirent list"

definition fs_path :: "string \<Rightarrow> string \<Rightarrow> goerr + string" where
  "fs_path root name =
     (case validateName ''assets.Store'' name of
        Some err \<Rightarrow> Inl err
      | None \<Rightarrow> Inr (path_join [root, name]))"

definition fs_asset_get :: "'w fsys \<Rightarrow> string \<Rightarrow> string \<Rightarrow> 'w \<Rightarrow> goerr + byte list" where
  "fs_asset_get fs root name w =
     (case fs_path root name of
        Inl err \<Rightarrow> Inl err
      | Inr p \<Rightarrow>
          (case fs_read_file fs p w of
             Inl err \<Rightarrow>
               if oe_not_exist err then Inl (asset_not_found ''assets.Store.Get'' name)
               else Inl (wrap KindPermanent ''assets.Store.Get'' (Some (oe_error err)))
           | Inr data \<Rightarrow> Inr data))"

definition fs_asset_put ::
  "'w fsys \<Rightarrow> string \<Rightarrow> string \<Rightarrow> byte list \<Rightarrow> time \<Rightarrow> 'w \<Rightarrow> goerr option \<times> 'w" where
  "fs_asset_put fs root name data now w =
     (case fs_path root name of
        Inl err \<Rightarrow> (Some err, w)
      | Inr p \<Rightarrow>
          (case fs_mkdir_all fs root w of
             (Some err, w) \<Rightarrow> (Some (wrap KindPermanent ''assets.Store.Put'' (Some (oe_error err))), w)
           | (None, w) \<Rightarrow>
               (case fs_write_file fs p data w of
                  (Some err, w) \<Rightarrow> (Some (wrap KindPermanent ''assets.Store.Put'' (Some (oe_error err))), w)
                | (None, w) \<Rightarrow> (None, w))))"

definition fs_asset_delete :: "'w fsys \<Rightarrow> string \<Rightarrow> string \<Rightarrow> 'w \<Rightarrow> goerr option \<times> 'w" where
  "fs_asset_delete fs root name w =
     (case fs_path root name of
        Inl err \<Rightarrow> (Some err, w)
      | Inr p \<Rightarrow>
          (case fs_remove fs p w of
             (Some err, w) \<Rightarrow>
               (if oe_not_exist err then (Some (asset_not_found ''assets.Store.Delete'' name), w)
                else (Some (wrap KindPermanent ''assets.Store.Delete'' (Some (oe_error err))), w))
           | (None, w) \<Rightarrow> (None, w)))"

fun fs_infos :: "dirent list \<Rightarrow> goerr + asset_info list" where
  "fs_infos [] = Inr []"
| "fs_infos (e # es) =
     (if de_is_dir e then fs_infos es
      else case de_info e of
        Inl err \<Rightarrow>
          if oe_not_exist err then fs_infos es
          else Inl (wrap KindPermanent ''assets.Store.List'' (Some (oe_error err)))
      | Inr (z, t) \<Rightarrow>
          (case fs_infos es of
             Inl err \<Rightarrow> Inl err
           | Inr is \<Rightarrow> Inr (\<lparr>ai_name = de_name e, ai_size = z, ai_mod_time = t\<rparr> # is)))"

definition fs_asset_list :: "'w fsys \<Rightarrow> string \<Rightarrow> 'w \<Rightarrow> goerr + asset_info list" where
  "fs_asset_list fs root w =
     (case fs_read_dir fs root w of
        Inl err \<Rightarrow>
          if oe_not_exist err then Inr []
          else Inl (wrap KindPermanent ''assets.Store.List'' (Some (oe_error err)))
      | Inr es \<Rightarrow> fs_infos es)"

definition fs_asset_ops :: "'w fsys \<Rightarrow> string \<Rightarrow> 'w asset_ops" where
  "fs_asset_ops fs root = \<lparr>as_get = fs_asset_get fs root, as_put = fs_asset_put fs root,
     as_delete = fs_asset_delete fs root, as_list = fs_asset_list fs root\<rparr>"

text \<open>
  Documented behaviour of the operating system, for the regular files \<open>files w\<close> directly under the
  root: a file is read as it is, written whole or (on an error) left in any state, removed, and
  listed once with its size in name order; its errors are its own.
\<close>

definition fs_ok :: "'w fsys \<Rightarrow> string \<Rightarrow> ('w \<Rightarrow> string \<rightharpoonup> byte list) \<Rightarrow> bool" where
  "fs_ok fs root files \<longleftrightarrow>
     (\<forall>n w d. name_ok n \<longrightarrow> fs_read_file fs (path_join [root, n]) w = Inr d \<longrightarrow> files w n = Some d)
   \<and> (\<forall>n w e. name_ok n \<longrightarrow> fs_read_file fs (path_join [root, n]) w = Inl e \<longrightarrow>
        plain_error (oe_error e) \<and> (oe_not_exist e \<longrightarrow> files w n = None))
   \<and> (\<forall>w r w'. fs_mkdir_all fs root w = (r, w') \<longrightarrow> files w' = files w)
   \<and> (\<forall>n d w w'. name_ok n \<longrightarrow> fs_write_file fs (path_join [root, n]) d w = (None, w') \<longrightarrow>
        files w' = (files w)(n \<mapsto> d))
   \<and> (\<forall>n d w e w'. name_ok n \<longrightarrow> fs_write_file fs (path_join [root, n]) d w = (Some e, w') \<longrightarrow>
        (\<forall>m. m \<noteq> n \<longrightarrow> files w' m = files w m))
   \<and> (\<forall>n w w'. name_ok n \<longrightarrow> fs_remove fs (path_join [root, n]) w = (None, w') \<longrightarrow>
        files w' = (files w)(n := None))
   \<and> (\<forall>n w e w'. name_ok n \<longrightarrow> fs_remove fs (path_join [root, n]) w = (Some e, w') \<longrightarrow>
        plain_error (oe_error e) \<and> files w' = files w \<and> (oe_not_exist e \<longrightarrow> files w n = None))
   \<and> (\<forall>w e. fs_read_dir fs root w = Inl e \<longrightarrow> oe_not_exist e \<longrightarrow> files w = Map.empty)
   \<and> (\<forall>w es. fs_read_dir fs root w = Inr es \<longrightarrow>
        sorted (map de_name es) \<and> distinct (map de_name es)
        \<and> (\<forall>e \<in> set es. \<forall>z t. \<not> de_is_dir e \<longrightarrow> de_info e = Inr (z, t) \<longrightarrow>
             (\<exists>d. files w (de_name e) = Some d \<and> z = int (length d)))
        \<and> (\<forall>e \<in> set es. \<forall>err. de_info e = Inl err \<longrightarrow> oe_not_exist err \<longrightarrow> files w (de_name e) = None)
        \<and> (\<forall>n \<in> dom (files w). \<exists>e \<in> set es. de_name e = n \<and> \<not> de_is_dir e))"

lemma fs_path_facts:
  "fs_path root n = Inr p \<longleftrightarrow> name_ok n \<and> p = path_join [root, n]"
  "fs_path root n = Inl e \<Longrightarrow> \<not> name_ok n \<and> (is_kind (Some e) k \<longleftrightarrow> k = KindValidation)"
  by (auto simp: fs_path_def split: option.splits dest: validateName_Some)

lemma fs_path_bad: "\<not> name_ok n \<Longrightarrow> \<exists>e. fs_path root n = Inl e \<and> is_kind (Some e) KindValidation"
  using fs_path_facts [of root n] by (cases "fs_path root n") auto

text \<open>The entries a listing keeps: the files that still exist when they are inspected.\<close>

definition listed :: "dirent \<Rightarrow> asset_info option" where
  "listed e =
     (if de_is_dir e then None
      else case de_info e of
        Inl _ \<Rightarrow> None
      | Inr (z, t) \<Rightarrow> Some \<lparr>ai_name = de_name e, ai_size = z, ai_mod_time = t\<rparr>)"

lemma fs_infos_listed:
  "fs_infos es = Inr is \<Longrightarrow> is = List.map_filter listed es
     \<and> (\<forall>e \<in> set es. \<forall>err. \<not> de_is_dir e \<longrightarrow> de_info e = Inl err \<longrightarrow> oe_not_exist err)"
  by (induction es arbitrary: "is")
    (auto simp: listed_def List.map_filter_simps split: if_splits sum.splits)

lemma listed_name: "listed e = Some i \<Longrightarrow> ai_name i = de_name e"
  by (auto simp: listed_def split: if_splits sum.splits)

lemma map_filter_listed:
  "sorted (map de_name es) \<Longrightarrow> distinct (map de_name es) \<Longrightarrow>
     sorted (map ai_name (List.map_filter listed es)) \<and> distinct (map ai_name (List.map_filter listed es))
     \<and> (\<forall>i. i \<in> set (List.map_filter listed es) \<longleftrightarrow> (\<exists>e \<in> set es. listed e = Some i))"
proof (induction es)
  case (Cons e es)
  then show ?case
    by (cases "listed e") (auto simp: List.map_filter_simps listed_name image_iff, blast)
qed (simp add: List.map_filter_simps)

lemma fs_list_content:
  assumes "fs_ok fs root files" "fs_asset_list fs root w = Inr infos"
  shows "sorted (map ai_name infos) \<and> distinct (map ai_name infos)
    \<and> (\<forall>n z. (n, z) \<in> (\<lambda>i. (ai_name i, ai_size i)) ` set infos
         \<longleftrightarrow> (\<exists>d. files w n = Some d \<and> z = int (length d)))"
proof (cases "fs_read_dir fs root w")
  case (Inl e)
  then have "files w = Map.empty" "infos = []"
    using assms by (auto simp: fs_ok_def fs_asset_list_def split: if_splits)
  then show ?thesis by simp
next
  case (Inr es)
  then have "fs_infos es = Inr infos" using assms(2) by (simp add: fs_asset_list_def)
  note i = fs_infos_listed [OF this]
  have es: "sorted (map de_name es)" "distinct (map de_name es)"
    "\<And>e z t. e \<in> set es \<Longrightarrow> \<not> de_is_dir e \<Longrightarrow> de_info e = Inr (z, t) \<Longrightarrow>
        \<exists>d. files w (de_name e) = Some d \<and> z = int (length d)"
    "\<And>e err. e \<in> set es \<Longrightarrow> de_info e = Inl err \<Longrightarrow> oe_not_exist err \<Longrightarrow> files w (de_name e) = None"
    "\<And>n. n \<in> dom (files w) \<Longrightarrow> \<exists>e \<in> set es. de_name e = n \<and> \<not> de_is_dir e"
    using assms(1) Inr unfolding fs_ok_def by blast+
  note m = map_filter_listed [OF es(1,2)]
  have "(n, z) \<in> (\<lambda>i. (ai_name i, ai_size i)) ` set infos \<longleftrightarrow> (\<exists>d. files w n = Some d \<and> z = int (length d))" for n z
  proof
    assume "(n, z) \<in> (\<lambda>i. (ai_name i, ai_size i)) ` set infos"
    then obtain e i' where "e \<in> set es" "listed e = Some i'" "n = ai_name i'" "z = ai_size i'"
      using i m by auto
    then show "\<exists>d. files w n = Some d \<and> z = int (length d)"
      using es(3) by (auto simp: listed_def split: if_splits sum.splits)
  next
    assume "\<exists>d. files w n = Some d \<and> z = int (length d)"
    then obtain d where d: "files w n = Some d" "z = int (length d)" by blast
    then obtain e where e: "e \<in> set es" "de_name e = n" "\<not> de_is_dir e" using es(5) by blast
    have "\<exists>z t. de_info e = Inr (z, t)"
    proof (cases "de_info e")
      case (Inl err)
      then have "oe_not_exist err" using i e by blast
      with es(4) [OF e(1) Inl] e(2) d(1) show ?thesis by simp
    qed auto
    then obtain z' t where "de_info e = Inr (z', t)" by blast
    moreover from es(3) [OF e(1,3) this] d e have "z' = z" by simp
    ultimately have "listed e = Some \<lparr>ai_name = n, ai_size = z, ai_mod_time = t\<rparr>"
      using e by (simp add: listed_def)
    then have "\<lparr>ai_name = n, ai_size = z, ai_mod_time = t\<rparr> \<in> set infos" using i m e(1) by blast
    then show "(n, z) \<in> (\<lambda>i. (ai_name i, ai_size i)) ` set infos" by force
  qed
  then show ?thesis using i m by simp
qed

interpretation fsassets: asset_store "fs_asset_ops fs root" files "\<lambda>_. fs_ok fs root files" for fs root files
proof
  fix s s' n d e now infos
  assume ok: "fs_ok fs root files"
  note d = fs_asset_ops_def fs_asset_get_def fs_asset_put_def fs_asset_delete_def fs_path_facts(1)
  show "name_ok n \<and> files s n = Some d" if "as_get (fs_asset_ops fs root) n s = Inr d"
    using that ok by (auto simp: d fs_ok_def split: sum.splits if_splits)
  show "files s n = None" if "as_get (fs_asset_ops fs root) n s = Inl e" "is_kind (Some e) KindNotFound"
    using that ok by (auto simp: d fs_ok_def plain_error_def split: sum.splits if_splits dest: fs_path_facts(2))
  show "\<exists>e. as_get (fs_asset_ops fs root) n s = Inl e \<and> is_kind (Some e) KindValidation" if "\<not> name_ok n"
    using fs_path_bad [OF that, of root] by (auto simp: d)
  show "name_ok n \<and> fs_ok fs root files \<and> files s' = (files s)(n \<mapsto> d)"
    if "as_put (fs_asset_ops fs root) n d now s = (None, s')"
  proof -
    from that obtain w where "name_ok n" "fs_mkdir_all fs root s = (None, w)"
      "fs_write_file fs (path_join [root, n]) d w = (None, s')"
      by (auto simp: d split: sum.splits prod.splits option.splits)
    with ok show ?thesis by (simp add: fs_ok_def)
  qed
  show "fs_ok fs root files \<and> (\<forall>m. m \<noteq> n \<longrightarrow> files s' m = files s m)"
    if "as_put (fs_asset_ops fs root) n d now s = (Some e, s')"
  proof -
    from that consider "s' = s" | e' where "fs_mkdir_all fs root s = (Some e', s')"
      | w e' where "name_ok n" "fs_mkdir_all fs root s = (None, w)"
          "fs_write_file fs (path_join [root, n]) d w = (Some e', s')"
      by (auto simp: d split: sum.splits prod.splits option.splits)
    then show ?thesis using ok by cases (auto simp: fs_ok_def)
  qed
  show "\<exists>e. as_put (fs_asset_ops fs root) n d now s = (Some e, s) \<and> is_kind (Some e) KindValidation"
    if "\<not> name_ok n"
    using fs_path_bad [OF that, of root] by (auto simp: d)
  show "name_ok n \<and> fs_ok fs root files \<and> files s' = (files s)(n := None)"
    if "as_delete (fs_asset_ops fs root) n s = (None, s')"
  proof -
    from that have "name_ok n" "fs_remove fs (path_join [root, n]) s = (None, s')"
      by (auto simp: d split: sum.splits prod.splits option.splits if_splits)
    with ok show ?thesis by (simp add: fs_ok_def)
  qed
  show "fs_ok fs root files \<and> files s' = files s \<and> (is_kind (Some e) KindNotFound \<longrightarrow> files s n = None)"
    if "as_delete (fs_asset_ops fs root) n s = (Some e, s')"
  proof (cases "fs_path root n")
    case (Inl err)
    with that ok fs_path_facts(2) [OF Inl, of KindNotFound] show ?thesis by (auto simp: d)
  next
    case (Inr p)
    with that obtain err where "name_ok n" "p = path_join [root, n]" "fs_remove fs p s = (Some err, s')"
      "e = (if oe_not_exist err then asset_not_found ''assets.Store.Delete'' n
            else wrap KindPermanent ''assets.Store.Delete'' (Some (oe_error err)))"
      by (auto simp: d split: prod.splits option.splits if_splits)
    with ok show ?thesis by (auto simp: fs_ok_def plain_error_def split: if_splits)
  qed
  show "\<exists>e. as_delete (fs_asset_ops fs root) n s = (Some e, s) \<and> is_kind (Some e) KindValidation"
    if "\<not> name_ok n"
    using fs_path_bad [OF that, of root] by (auto simp: d)
  show "sorted (map ai_name infos) \<and> distinct (map ai_name infos)
      \<and> (\<forall>n z. (n, z) \<in> (\<lambda>i. (ai_name i, ai_size i)) ` set infos
           \<longleftrightarrow> (\<exists>d. files s n = Some d \<and> z = int (length d)))"
    if "as_list (fs_asset_ops fs root) s = Inr infos"
    by (rule fs_list_content [OF ok]) (use that in \<open>simp add: d\<close>)
qed

lemma validateName_ok: "name_ok n \<Longrightarrow> validateName op n = None"
  by simp

section \<open>Properties\<close>

text \<open>
  A file system of one directory \<open>/assets\<close>: the files by name, in any order.
\<close>

definition sample_fs :: "(string \<times> byte list) list fsys" where
  "sample_fs =
     (let nm = (\<lambda>p. drop 8 p); none = \<lparr>oe_not_exist = True, oe_error = Leaf ''file does not exist''\<rparr> in
      \<lparr>fs_read_file = (\<lambda>p w. case map_of w (nm p) of None \<Rightarrow> Inl none | Some d \<Rightarrow> Inr d),
       fs_mkdir_all = (\<lambda>p w. (None, w)),
       fs_write_file = (\<lambda>p d w. (None, AList.update (nm p) d w)),
       fs_remove = (\<lambda>p w. case map_of w (nm p) of None \<Rightarrow> (Some none, w) | Some d \<Rightarrow> (None, AList.delete (nm p) w)),
       fs_read_dir = (\<lambda>p w. Inr (map (\<lambda>n. \<lparr>de_name = n, de_is_dir = False,
          de_info = Inr (int (length (the (map_of w n))), 0)\<rparr>) (sort (remdups (map fst w)))))\<rparr>)"

lemma sample_join: "name_ok n \<Longrightarrow> path_join [''/assets'', n] = ''/assets/'' @ n"
proof -
  assume n: "name_ok n"
  have "clean_segs True [] (split_on (CHR ''/'') ''/assets'') = [''assets'']" by simp
  with join_name [OF n, of "''/assets''"] n show ?thesis
    by (simp add: path_clean_def Let_def join_with_snoc)
qed

lemma sample_fs_ok: "fs_ok sample_fs ''/assets'' map_of"
proof -
  have r: "name_ok n \<Longrightarrow> drop 8 (path_join [''/assets'', n]) = n" for n by (simp add: sample_join)
  have s: "sorted (map de_name (map (\<lambda>n. \<lparr>de_name = n, de_is_dir = False, de_info = g n\<rparr>) (sort (remdups xs))))"
    "distinct (map de_name (map (\<lambda>n. \<lparr>de_name = n, de_is_dir = False, de_info = g n\<rparr>) (sort (remdups xs))))"
    for g :: "string \<Rightarrow> os_error + int \<times> time" and xs
    by (simp_all add: o_def)
  show ?thesis
    unfolding fs_ok_def sample_fs_def Let_def
    by (simp add: r s update_conv' delete_conv' plain_error_def dom_map_of_conv_image_fst
        split: option.split) (auto simp: o_def dest!: weak_map_of_SomeI)
qed

text \<open>
  (C33) The persistent asset store is a map from valid names to byte strings: what is put is what is
  read back, other assets are untouched even by a put that fails halfway, and a deleted asset is
  not found.
\<close>

theorem asset_round_trip:
  assumes "fs_ok fs root files"
  shows "(\<forall>w w1 d d' now. fs_asset_put fs root n d now w = (None, w1) \<longrightarrow> fs_asset_get fs root n w1 = Inr d' \<longrightarrow> d' = d)
    \<and> (\<forall>w w1 r m a b now d. fs_asset_put fs root n d now w = (r, w1) \<longrightarrow> m \<noteq> n \<longrightarrow>
         fs_asset_get fs root m w = Inr a \<longrightarrow> fs_asset_get fs root m w1 = Inr b \<longrightarrow> a = b)
    \<and> (\<forall>w w1 d. fs_asset_delete fs root n w = (None, w1) \<longrightarrow> fs_asset_get fs root n w1 \<noteq> Inr d)"
  using fsassets.put_then_get [OF assms] fsassets.put_then_get_other [OF assms] fsassets.delete_then_get [OF assms]
  unfolding fs_asset_ops_def by simp

theorem asset_round_trip_witness:
  "\<exists>w1. fs_asset_put sample_fs ''/assets'' ''logo'' [1, 2] 0 [] = (None, w1)
     \<and> fs_asset_get sample_fs ''/assets'' ''logo'' w1 = Inr [1, 2]"
proof -
  have "name_ok ''logo''" by (simp add: name_ok_def)
  then have n: "fs_path ''/assets'' ''logo'' = Inr ''/assets/logo''" by (simp add: fs_path_facts(1) sample_join)
  then have p: "fs_asset_put sample_fs ''/assets'' ''logo'' [1, 2] 0 [] = (None, [(''logo'', [1, 2])])"
    by (simp add: fs_asset_put_def sample_fs_def Let_def)
  from n obtain d where d: "fs_asset_get sample_fs ''/assets'' ''logo'' [(''logo'', [1, 2])] = Inr d"
    by (simp add: fs_asset_get_def sample_fs_def Let_def)
  from conjunct1 [OF asset_round_trip [OF sample_fs_ok, of "''logo''"], rule_format, OF p d] have "d = [1, 2]" .
  with p d show ?thesis by blast
qed

text \<open>
  (C34) A name that passes \<open>validateName\<close> never escapes the asset directory: the file the store touches
  is the cleaned root with exactly that one segment below it, and two names never share a file.
\<close>

theorem asset_path_confined:
  assumes "validateName op n = None" and "validateName op m = None" and "root \<noteq> ''''"
  shows "fs_path root n = Inr (path_clean (root @ ''/'' @ n))
    \<and> clean_segs (hd root = CHR ''/'') [] (split_on (CHR ''/'') (root @ ''/'' @ n))
        = clean_segs (hd root = CHR ''/'') [] (split_on (CHR ''/'') root) @ [n]
    \<and> (fs_path root n = fs_path root m \<longrightarrow> n = m)"
proof -
  from assms(1,2) have ok: "name_ok n" "name_ok m" by simp_all
  with join_name [OF ok(1) assms(3)] path_join_inj [OF ok, of root] show ?thesis
    by (simp add: fs_path_def validateName_ok)
qed

theorem asset_path_confined_witness:
  "fs_path ''/var/assets'' ''logo.png'' = Inr ''/var/assets/logo.png''
   \<and> fs_path ''/var/assets'' ''logo.png'' \<noteq> fs_path ''/var/assets'' ''tea.png''"
proof -
  have v: "validateName ''x'' ''logo.png'' = None" "validateName ''x'' ''tea.png'' = None"
    by (simp_all add: name_ok_def)
  note c = asset_path_confined [OF v, of "''/var/assets''"]
  have "path_clean (''/var/assets'' @ ''/'' @ ''logo.png'') = ''/var/assets/logo.png''"
    by (simp add: path_clean_def Let_def)
  with c show ?thesis by auto
qed

text \<open>
  The memory and the filesystem store reject exactly the same names, with the same kind of error,
  on every operation.
\<close>

lemma stores_reject_same_names:
  assumes "fs_ok fs root files" and "mem_asset_invar s"
  shows "(\<exists>e. mem_asset_get n s = Inl e \<and> is_kind (Some e) KindValidation)
      \<longleftrightarrow> (\<exists>e. fs_asset_get fs root n w = Inl e \<and> is_kind (Some e) KindValidation)"
proof (cases "name_ok n")
  case True
  then have "\<not> is_kind (Some e) KindValidation" if "mem_asset_get n s = Inl e" for e
    using that True by (auto simp: mem_asset_get_def validateName_ok split: option.splits)
  moreover have "\<not> is_kind (Some e) KindValidation" if "fs_asset_get fs root n w = Inl e" for e
    using that True assms(1)
    by (auto simp: fs_asset_get_def fs_path_def validateName_ok fs_ok_def plain_error_def split: sum.splits if_splits)
  ultimately show ?thesis by blast
next
  case False
  with memassets.get_invalid [OF assms(2), of n] fsassets.get_invalid [OF assms(1), of n w] show ?thesis
    by (simp add: mem_asset_ops_def fs_asset_ops_def)
qed

end
