(* ===== verification/Printer.thy ===== *)
theory Printer
  imports Queue
begin

text \<open>
  Package \<open>internal/printer\<close>: the \<open>Printer\<close> interface and its TCP implementation
  (\<open>network.go\<close>).  A connection is a record of what the code does with it over a world state; the
  write loop of \<open>Send\<close> ends because every accepted write takes at least one byte.
\<close>

section \<open>The interface\<close>

record status =
  ps_online :: bool
  ps_detail :: string

record connection =
  cn_transport :: string
  cn_address :: string
  cn_device :: string
  cn_mac :: string

record 'w printer =
  pr_send :: "byte list \<Rightarrow> 'w \<Rightarrow> unit res \<times> 'w"
  pr_status :: "'w \<Rightarrow> (goerr option \<times> status) \<times> 'w"

section \<open>Printing over TCP\<close>

text \<open>
  What the code uses of a network: dialing an address, and on a connection the write deadline and
  \<open>Write\<close>, which returns the number of bytes it took and possibly an error, and \<open>Close\<close>.
\<close>

record ('c, 'w) net =
  nt_dial :: "string \<Rightarrow> 'w \<Rightarrow> (goerr + 'c) \<times> 'w"
  nt_set_deadline :: "'c \<Rightarrow> 'w \<Rightarrow> goerr option \<times> 'w"
  nt_write :: "'c \<Rightarrow> byte list \<Rightarrow> 'w \<Rightarrow> (int \<times> goerr option) \<times> 'w"
  nt_close :: "'c \<Rightarrow> 'w \<Rightarrow> 'w"

definition networkTimeout :: duration where
  "networkTimeout = 30 * 1000000000"

definition send_error :: "goerr \<Rightarrow> goerr" where
  "send_error err = wrap KindTransient ''printer.Send'' (Some err)"

text \<open>\<open>data[n:]\<close> panics when \<open>n\<close> is not a position of the slice.\<close>

function write_loop :: "('c, 'w) net \<Rightarrow> 'c \<Rightarrow> byte list \<Rightarrow> 'w \<Rightarrow> unit res \<times> 'w" where
  "write_loop nt c data w =
     (if data = [] then (Val (), w)
      else case nt_write nt c data w of ((n, err), w') \<Rightarrow>
        (case err of
           Some e \<Rightarrow> (Fail (send_error e), w')
         | None \<Rightarrow>
             if n = 0 then (Fail (send_error (Leaf ''short write'')), w')
             else if n < 0 \<or> n > int (length data)
             then (Panic ''runtime error: slice bounds out of range'', w')
             else write_loop nt c (drop (nat n) data) w'))"
  by pat_completeness auto
termination by (relation "measure (\<lambda>(nt, c, data, w). length data)") auto

declare write_loop.simps [simp del]

definition network_Send :: "('c, 'w) net \<Rightarrow> string \<Rightarrow> byte list \<Rightarrow> 'w \<Rightarrow> unit res \<times> 'w" where
  "network_Send nt address data w =
     (case nt_dial nt address w of
        (Inl err, w) \<Rightarrow> (Fail (send_error err), w)
      | (Inr c, w) \<Rightarrow>
          (case nt_set_deadline nt c w of
             (Some err, w) \<Rightarrow> (Fail (send_error err), nt_close nt c w)
           | (None, w) \<Rightarrow>
               (case write_loop nt c data w of (r, w) \<Rightarrow> (r, nt_close nt c w))))"

definition network_Status :: "('c, 'w) net \<Rightarrow> string \<Rightarrow> 'w \<Rightarrow> (goerr option \<times> status) \<times> 'w" where
  "network_Status nt address w =
     (case nt_dial nt address w of
        (Inl err, w) \<Rightarrow> ((None, \<lparr>ps_online = False, ps_detail = error_text err\<rparr>), w)
      | (Inr c, w) \<Rightarrow> ((None, \<lparr>ps_online = True, ps_detail = ''''\<rparr>), nt_close nt c w))"

definition NewNetworkPrinter :: "('c, 'w) net \<Rightarrow> connection \<Rightarrow> 'w printer" where
  "NewNetworkPrinter nt conn =
     \<lparr>pr_send = network_Send nt (cn_address conn), pr_status = network_Status nt (cn_address conn)\<rparr>"

section \<open>What is delivered\<close>

text \<open>
  Documented behaviour of a TCP connection: a \<open>Write\<close> takes a prefix of its bytes, at most all of
  them, and appends it to what the peer receives; the other calls deliver nothing.
\<close>

definition net_ok :: "('c, 'w) net \<Rightarrow> ('w \<Rightarrow> byte list) \<Rightarrow> bool" where
  "net_ok nt received \<longleftrightarrow>
     (\<forall>c data w n e w'. nt_write nt c data w = ((n, e), w') \<longrightarrow>
        0 \<le> n \<and> n \<le> int (length data) \<and> received w' = received w @ take (nat n) data)
   \<and> (\<forall>a w r w'. nt_dial nt a w = (r, w') \<longrightarrow> received w' = received w)
   \<and> (\<forall>c w r w'. nt_set_deadline nt c w = (r, w') \<longrightarrow> received w' = received w)
   \<and> (\<forall>c w. received (nt_close nt c w) = received w)"

definition sent :: "('w \<Rightarrow> byte list) \<Rightarrow> byte list \<Rightarrow> unit res \<times> 'w \<Rightarrow> 'w \<Rightarrow> bool" where
  "sent received data = (\<lambda>(r, w') w.
     (r = Val () \<and> received w' = received w @ data)
     \<or> (\<exists>e k. r = Fail e \<and> is_kind (Some e) KindTransient \<and> k \<le> length data
          \<and> received w' = received w @ take k data))"

lemma send_error_kind [simp]: "is_kind (Some (send_error e)) KindTransient"
  by (simp add: send_error_def)

lemma write_loop_sent:
  assumes "net_ok nt received"
  shows "sent received data (write_loop nt c data w) w"
proof (induction data arbitrary: w rule: length_induct)
  case (1 data)
  show ?case
  proof (cases "data = []")
    case True
    then show ?thesis by (simp add: write_loop.simps sent_def)
  next
    case False
    obtain n err w1 where wr: "nt_write nt c data w = ((n, err), w1)" by (metis surj_pair)
    with assms have n: "0 \<le> n" "n \<le> int (length data)" "received w1 = received w @ take (nat n) data"
      by (simp_all add: net_ok_def)
    consider (err) e where "err = Some e" | (zero) "err = None" "n = 0" | (some) "err = None" "0 < n"
      using n(1) by (metis not_None_eq order_le_less)
    then show ?thesis
    proof cases
      case some
      let ?d = "drop (nat n) data"
      have "sent received ?d (write_loop nt c ?d w1) w1"
        by (rule 1 [rule_format]) (use some False in simp)
      moreover have "write_loop nt c data w = write_loop nt c ?d w1"
        using False wr some n by (subst write_loop.simps) simp
      moreover have "take (nat n) data @ take k ?d = take (nat n + k) data" for k by (simp add: take_add)
      moreover have "k \<le> length ?d \<Longrightarrow> nat n + k \<le> length data" for k using n(2) by simp
      ultimately show ?thesis using n(3) unfolding sent_def by (fastforce split: prod.splits)
    next
      case err
      then have "write_loop nt c data w = (Fail (send_error e), w1)"
        using False wr by (subst write_loop.simps) simp
      then show ?thesis using n by (auto simp: sent_def intro!: exI [of _ "nat n"])
    next
      case zero
      then have "write_loop nt c data w = (Fail (send_error (Leaf ''short write'')), w1)"
        using False wr by (subst write_loop.simps) simp
      then show ?thesis using n zero by (auto simp: sent_def)
    qed
  qed
qed

lemma network_Send_sent:
  assumes "net_ok nt received"
  shows "sent received data (network_Send nt a data w) w"
proof -
  obtain r w1 where d: "nt_dial nt a w = (r, w1)" by (metis surj_pair)
  with assms have r1: "received w1 = received w" by (simp add: net_ok_def)
  show ?thesis
  proof (cases r)
    case (Inl err)
    with d r1 show ?thesis by (auto simp: network_Send_def sent_def)
  next
    case (Inr c)
    obtain e w2 where s: "nt_set_deadline nt c w1 = (e, w2)" by (metis surj_pair)
    with assms r1 have r2: "received w2 = received w" by (simp add: net_ok_def)
    have cl: "received (nt_close nt c v) = received v" for v using assms by (simp add: net_ok_def)
    show ?thesis
    proof (cases e)
      case None
      obtain q w3 where wl: "write_loop nt c data w2 = (q, w3)" by (metis surj_pair)
      from write_loop_sent [OF assms, of data c w2] d Inr s None r2 cl wl show ?thesis
        by (simp add: network_Send_def sent_def)
    next
      case (Some err)
      with d Inr s r2 cl show ?thesis by (auto simp: network_Send_def sent_def)
    qed
  qed
qed

section \<open>The interface's contract\<close>

text \<open>
  What the service relies on: \<open>Send\<close> delivers all of its bytes, or a prefix and a transient error.
  \<open>lawful\<close> is the condition under which a provider promises it.
\<close>

locale printer_device =
  fixes p :: "'w printer" and received :: "'w \<Rightarrow> byte list" and lawful :: bool
  assumes send_sent: "lawful \<Longrightarrow> sent received data (pr_send p data w) w"

interpretation netprinter: printer_device "NewNetworkPrinter nt conn" received "net_ok nt received" for nt conn received
  by unfold_locales (simp add: NewNetworkPrinter_def network_Send_sent)

definition printer_ok :: "'w printer \<Rightarrow> ('w \<Rightarrow> byte list) \<Rightarrow> bool" where
  "printer_ok p received \<longleftrightarrow> (\<forall>data w. sent received data (pr_send p data w) w)"

lemma printer_ok_device: "printer_ok p received \<Longrightarrow> printer_device p received True"
  by unfold_locales (simp add: printer_ok_def)

lemma network_printer_ok: "net_ok nt received \<Longrightarrow> printer_ok (NewNetworkPrinter nt conn) received"
  using netprinter.send_sent by (auto simp: printer_ok_def)

section \<open>Properties\<close>

text \<open>
  (C23) \<open>Send\<close> delivers all or reports a transient error: against any connection that may take only
  part of each write, it ends; it returns nil only when exactly the given bytes were delivered in
  order, and otherwise a transient error after a prefix of them.  It never panics.
\<close>

theorem send_all_or_transient:
  assumes "net_ok nt received"
  shows "\<exists>r w'. network_Send nt a data w = (r, w')
    \<and> (r = Val () \<and> received w' = received w @ data
       \<or> (\<exists>e k. r = Fail e \<and> is_kind (Some e) KindTransient \<and> k \<le> length data
            \<and> received w' = received w @ take k data))"
  using network_Send_sent [OF assms, of data a w] by (cases "network_Send nt a data w") (simp add: sent_def)

text \<open>A peer that takes two bytes at a time, until it has taken four.\<close>

definition sample_net :: "(unit, byte list) net" where
  "sample_net =
     \<lparr>nt_dial = (\<lambda>a w. (Inr (), w)), nt_set_deadline = (\<lambda>c w. (None, w)),
      nt_write = (\<lambda>c data w. if length w < 4
         then ((int (min 2 (length data)), None), w @ take 2 data)
         else ((0, Some (Leaf ''broken pipe'')), w)),
      nt_close = (\<lambda>c w. w)\<rparr>"

lemma sample_net_ok: "net_ok sample_net (\<lambda>w. w)"
  by (auto simp: net_ok_def sample_net_def min_def split: if_splits)

theorem send_all_or_transient_witness:
  "\<exists>e. network_Send sample_net ''10.0.0.7:9100'' [1, 2, 3, 4, 5] [] = (Fail e, [1, 2, 3, 4])
     \<and> is_kind (Some e) KindTransient"
proof -
  have l: "write_loop sample_net () data w = (if data = [] then (Val (), w)
      else if length w < 4 then write_loop sample_net () (drop 2 data) (w @ take 2 data)
      else (Fail (send_error (Leaf ''broken pipe'')), w))" for data w
    by (subst write_loop.simps) (auto simp: sample_net_def min_def)
  have "network_Send sample_net x data [] = write_loop sample_net () data []" for x data
    by (simp add: network_Send_def sample_net_def split: prod.split)
  then have s: "network_Send sample_net ''10.0.0.7:9100'' [1, 2, 3, 4, 5] []
      = (Fail (send_error (Leaf ''broken pipe'')), [1, 2, 3, 4])"
    by (simp add: l)
  with send_all_or_transient [OF sample_net_ok, of "''10.0.0.7:9100''" "[1, 2, 3, 4, 5]" "[]"]
  show ?thesis by auto
qed

end
