(* ===== verification/App.thy ===== *)
theory App
  imports Escpos Assets Printer
begin

text \<open>
  Package \<open>internal/app\<close>: the service behind the API, the Web UI and the queue's workers.  It ties
  the other components together: \<open>Print\<close> validates and enqueues, \<open>Process\<close> renders, encodes and
  sends, \<open>Preview\<close> renders to a PNG.  Asset storage, printers and the network share one world
  state \<open>'w\<close>; the Go maps are a key list (in the arbitrary order of \<open>range\<close>) or a partial map.
\<close>

section \<open>The service\<close>

record connection_summary =
  cs_transport :: string
  cs_address :: string

record build_info =
  bi_version :: string
  bi_commit :: string
  bi_date :: string

record ('s, 'w) service =
  sv_queue :: "'s queue"
  sv_printers :: "(string \<times> 'w printer) list"
  sv_profiles :: "string \<rightharpoonup> profile"
  sv_connections :: "string \<rightharpoonup> connection_summary"
  sv_assets :: "'w asset_ops option"
  sv_build :: build_info

definition NewService :: "'s queue \<Rightarrow> ('s, 'w) service" where
  "NewService q = \<lparr>sv_queue = q, sv_printers = [], sv_profiles = Map.empty, sv_connections = Map.empty,
     sv_assets = None, sv_build = \<lparr>bi_version = '''', bi_commit = '''', bi_date = ''''\<rparr>\<rparr>"

section \<open>Print\<close>

text \<open>The job \<open>Print\<close> hands to the queue; the queue fills in the rest.\<close>

definition new_job :: "string \<Rightarrow> receipt \<Rightarrow> job" where
  "new_job printerName r = \<lparr>j_id = '''', j_printer = printerName, j_receipt = r, j_state = JobPending,
     j_attempts = 0, j_last_error = '''', j_created = 0, j_updated = 0, j_key = ''''\<rparr>"

definition service_Print ::
  "codecs \<Rightarrow> ('s, 'w) service \<Rightarrow> goerr + string \<Rightarrow> time \<Rightarrow> receipt \<Rightarrow> string \<Rightarrow> string \<Rightarrow> 's
     \<Rightarrow> (goerr + string) \<times> 's" where
  "service_Print cd svc newID now r printerName idempotencyKey s =
     (case validate_receipt cd r of
        Some err \<Rightarrow> (Inl err, s)
      | None \<Rightarrow>
          let j = new_job printerName r in
          if idempotencyKey = ''''
          then (case queue_Enqueue (sv_queue svc) newID now j s of
                  (Inl err, s) \<Rightarrow> (Inl err, s)
                | (Inr j, s) \<Rightarrow> (Inr (j_id j), s))
          else queue_EnqueueIdempotent (sv_queue svc) newID now j idempotencyKey s)"

definition service_JobStatus :: "('s, 'w) service \<Rightarrow> string \<Rightarrow> 's \<Rightarrow> goerr + job" where
  "service_JobStatus svc i s = queue_Get (sv_queue svc) i s"

section \<open>Process\<close>

definition service_render ::
  "codecs \<Rightarrow> face \<Rightarrow> ('s, 'w) service \<Rightarrow> 'w \<Rightarrow> receipt \<Rightarrow> profile \<Rightarrow> canvas res" where
  "service_render cd fc svc w r p =
     go_bind (Build cd (map_option (\<lambda>ops name. as_get ops name w) (sv_assets svc)) r p (EmbeddedFont fc))
       (Paint cd)"

text \<open>\<open>n\<close> copies, one after the other, until one fails.\<close>

fun send_copies :: "'w printer \<Rightarrow> byte list \<Rightarrow> nat \<Rightarrow> 'w \<Rightarrow> unit res \<times> 'w" where
  "send_copies p data 0 w = (Val (), w)"
| "send_copies p data (Suc n) w =
     (case pr_send p data w of
        (Val _, w) \<Rightarrow> send_copies p data n w
      | (r, w) \<Rightarrow> (r, w))"

definition service_Process ::
  "codecs \<Rightarrow> face \<Rightarrow> ('s, 'w) service \<Rightarrow> job \<Rightarrow> 'w \<Rightarrow> unit res \<times> 'w" where
  "service_Process cd fc svc j w =
     (case sv_profiles svc (j_printer j) of
        None \<Rightarrow> (Fail (wrap KindNotFound ''app.Process''
                   (Some (errorf ''printer profile %q not configured'' [FStr (j_printer j)]))), w)
      | Some profile \<Rightarrow>
          (case go_bind (service_render cd fc svc w (j_receipt j) profile) (\<lambda>c. Encode c profile) of
             Val data \<Rightarrow>
               (case map_of (sv_printers svc) (j_printer j) of
                  None \<Rightarrow> (Fail (wrap KindNotFound ''app.Process''
                             (Some (errorf ''printer %q not configured'' [FStr (j_printer j)]))), w)
                | Some p \<Rightarrow> send_copies p data (nat (EffectiveCopies (j_receipt j))) w)
           | Fail err \<Rightarrow> (Fail err, w)
           | Panic m \<Rightarrow> (Panic m, w)
           | Diverge \<Rightarrow> (Diverge, w)))"

section \<open>Preview\<close>

text \<open>
  \<open>EncodePNG\<close>: one grey value per dot, black where the bit is set.  The PNG encoder is a parameter
  that takes the dimensions and the rows.
\<close>

definition gray_rows :: "canvas \<Rightarrow> int list list res" where
  "gray_rows c =
     go_map (\<lambda>y. go_map (\<lambda>x.
         go_bind (bit_at (cv_bits c) (y * row_bytes (cv_width c)) x)
           (\<lambda>b. Val (if b then 0 else 0xff)))
       [0..cv_width c - 1]) [0..cv_height c - 1]"

definition EncodePNG :: "(int \<Rightarrow> int \<Rightarrow> int list list \<Rightarrow> goerr + byte list) \<Rightarrow> canvas \<Rightarrow> byte list res" where
  "EncodePNG png c =
     go_bind (gray_rows c) (\<lambda>rows.
       case png (cv_width c) (cv_height c) rows of
         Inl err \<Rightarrow> Fail (wrap KindPermanent ''canvas.EncodePNG'' (Some err))
       | Inr bytes \<Rightarrow> Val bytes)"

definition service_Preview ::
  "codecs \<Rightarrow> face \<Rightarrow> (int \<Rightarrow> int \<Rightarrow> int list list \<Rightarrow> goerr + byte list) \<Rightarrow> ('s, 'w) service
     \<Rightarrow> 'w \<Rightarrow> receipt \<Rightarrow> string \<Rightarrow> byte list res" where
  "service_Preview cd fc png svc w r printerName =
     (case validate_receipt cd r of
        Some err \<Rightarrow> Fail err
      | None \<Rightarrow>
          (case sv_profiles svc printerName of
             None \<Rightarrow> Fail (wrap KindNotFound ''app.Preview''
                       (Some (errorf ''printer profile %q not configured'' [FStr printerName])))
           | Some profile \<Rightarrow> go_bind (service_render cd fc svc w r profile) (EncodePNG png)))"

section \<open>Printers, assets and the queue summary\<close>

record printer_summary =
  pm_name :: string
  pm_transport :: string
  pm_address :: string
  pm_width_dots :: int
  pm_dpi :: int
  pm_supports_cut :: bool
  pm_supports_partial :: bool
  pm_online :: bool
  pm_detail :: string

definition printerStatusTimeout :: duration where
  "printerStatusTimeout = 5 * 1000000000"

definition printerSummaryWithStatus ::
  "string \<Rightarrow> 'w printer \<Rightarrow> profile \<Rightarrow> connection_summary \<Rightarrow> 'w \<Rightarrow> printer_summary \<times> 'w" where
  "printerSummaryWithStatus name p profile conn w =
     (case pr_status p w of ((err, st), w) \<Rightarrow>
        let st = (case err of
                    Some e \<Rightarrow> st\<lparr>ps_online := False, ps_detail := error_text e\<rparr>
                  | None \<Rightarrow> st)
        in (\<lparr>pm_name = name, pm_transport = cs_transport conn, pm_address = cs_address conn,
             pm_width_dots = p_width_dots profile, pm_dpi = p_dpi profile,
             pm_supports_cut = p_supports_cut profile, pm_supports_partial = p_supports_partial profile,
             pm_online = ps_online st, pm_detail = ps_detail st\<rparr>, w))"

fun printer_entries ::
  "('s, 'w) service \<Rightarrow> (string \<times> 'w printer) list
     \<Rightarrow> goerr + (string \<times> 'w printer \<times> profile \<times> connection_summary) list" where
  "printer_entries svc [] = Inr []"
| "printer_entries svc ((name, p) # ps) =
     (case sv_profiles svc name of
        None \<Rightarrow> Inl (wrap KindPermanent ''app.ListPrinters''
                  (Some (errorf ''printer %q has no configured Profile'' [FStr name])))
      | Some profile \<Rightarrow>
          (case sv_connections svc name of
             None \<Rightarrow> Inl (wrap KindPermanent ''app.ListPrinters''
                       (Some (errorf ''printer %q has no configured ConnectionSummary'' [FStr name])))
           | Some conn \<Rightarrow>
               (case printer_entries svc ps of
                  Inl err \<Rightarrow> Inl err
                | Inr es \<Rightarrow> Inr ((name, p, profile, conn) # es))))"

text \<open>The concurrent status checks, in one of the orders they may take effect in.\<close>

fun check_printers ::
  "(string \<times> 'w printer \<times> profile \<times> connection_summary) list \<Rightarrow> 'w \<Rightarrow> printer_summary list \<times> 'w" where
  "check_printers [] w = ([], w)"
| "check_printers ((name, p, profile, conn) # es) w =
     (case printerSummaryWithStatus name p profile conn w of (s, w) \<Rightarrow>
        (case check_printers es w of (ss, w) \<Rightarrow> (s # ss, w)))"

definition service_ListPrinters :: "('s, 'w) service \<Rightarrow> 'w \<Rightarrow> (goerr + printer_summary list) \<times> 'w" where
  "service_ListPrinters svc w =
     (case printer_entries svc (sv_printers svc) of
        Inl err \<Rightarrow> (Inl err, w)
      | Inr es \<Rightarrow> (case check_printers es w of (ss, w) \<Rightarrow> (Inr (sort_key pm_name ss), w)))"

definition service_PrinterNames :: "('s, 'w) service \<Rightarrow> string list" where
  "service_PrinterNames svc = sort (map fst (sv_printers svc))"

record asset_summary =
  am_name :: string
  am_size :: int
  am_mod_time :: time

definition service_ListAssets :: "'w asset_ops \<Rightarrow> 'w \<Rightarrow> goerr + asset_summary list" where
  "service_ListAssets ops w =
     (case as_list ops w of
        Inl err \<Rightarrow> Inl err
      | Inr infos \<Rightarrow> Inr (sort_key am_name
          (map (\<lambda>i. \<lparr>am_name = ai_name i, am_size = ai_size i, am_mod_time = ai_mod_time i\<rparr>) infos)))"

definition service_UploadAsset :: "'w asset_ops \<Rightarrow> string \<Rightarrow> byte list \<Rightarrow> time \<Rightarrow> 'w \<Rightarrow> goerr option \<times> 'w" where
  "service_UploadAsset ops name data now w = as_put ops name data now w"

definition service_DeleteAsset :: "'w asset_ops \<Rightarrow> string \<Rightarrow> 'w \<Rightarrow> goerr option \<times> 'w" where
  "service_DeleteAsset ops name w = as_delete ops name w"

definition service_GetAsset :: "'w asset_ops \<Rightarrow> string \<Rightarrow> 'w \<Rightarrow> goerr + byte list" where
  "service_GetAsset ops name w = as_get ops name w"

record queue_summary =
  qs_pending :: int
  qs_running :: int
  qs_done :: int
  qs_failed :: int
  qs_cancelled :: int

fun count_job :: "job \<Rightarrow> queue_summary \<Rightarrow> queue_summary" where
  "count_job j s =
     (case j_state j of
        JobPending \<Rightarrow> s\<lparr>qs_pending := qs_pending s + 1\<rparr>
      | JobRunning \<Rightarrow> s\<lparr>qs_running := qs_running s + 1\<rparr>
      | JobDone \<Rightarrow> s\<lparr>qs_done := qs_done s + 1\<rparr>
      | JobFailed \<Rightarrow> s\<lparr>qs_failed := qs_failed s + 1\<rparr>
      | JobCancelled \<Rightarrow> s\<lparr>qs_cancelled := qs_cancelled s + 1\<rparr>)"

definition service_QueueSummary :: "('s, 'w) service \<Rightarrow> 's \<Rightarrow> goerr + queue_summary" where
  "service_QueueSummary svc s =
     (case queue_List (sv_queue svc) s of
        Inl err \<Rightarrow> Inl err
      | Inr jobs \<Rightarrow> Inr (fold count_job jobs
          \<lparr>qs_pending = 0, qs_running = 0, qs_done = 0, qs_failed = 0, qs_cancelled = 0\<rparr>))"

definition queue_Total :: "queue_summary \<Rightarrow> int" where
  "queue_Total s = qs_pending s + qs_running s + qs_done s + qs_failed s + qs_cancelled s"

section \<open>The canvas of a valid receipt\<close>

lemma fold_max_mem: "p \<in> set ps \<Longrightarrow> g p \<le> fold (\<lambda>p h. max h (g p :: int)) ps h"
proof (induction ps arbitrary: h)
  case (Cons q ps)
  show ?case
  proof (cases "p = q")
    case True
    have "g p \<le> max h (g q)" using True by simp
    also have "\<dots> \<le> fold (\<lambda>p h. max h (g p)) ps (max h (g q))" by (rule fold_max_ge)
    finally show ?thesis by simp
  next
    case False
    with Cons show ?thesis by simp
  qed
qed simp

lemma controls_of_sorted:
  "stacked ext y bs y' \<Longrightarrow> sorted (map ctl_y (controls_of bs)) \<and> (\<forall>k \<in> set (controls_of bs). y \<le> ctl_y k)"
proof (induction bs arbitrary: y)
  case (Cons b bs)
  then obtain h where h: "blk_y b = y" "0 \<le> h" "stacked ext (y + h) bs y'" by auto
  from Cons.IH [OF h(3)] h(1,2) show ?case by fastforce
qed simp

lemma controls_of_blocks:
  "k \<in> set (controls_of bs) \<Longrightarrow> \<exists>b \<in> set bs. is_control (blk_element b) \<and> ctl_y k = blk_y b \<and> ctl_element k = blk_element b"
  by (induction bs) (auto split: if_splits)

lemma control_bottom:
  assumes "is_control (blk_element b)" "resolved cd dw (b, g)"
  shows "bottom_of f (b, g) = blk_y b"
proof -
  have "rasterBitmap cd (blk_element b) dw = None" "blockHeight (blk_element b) st f = Some 0" for st
    using assms(1) by (auto elim!: is_control.elims)
  with assms(2) show ?thesis by (simp add: resolved_def bottom_of_def)
qed

text \<open>A cut or feed block comes from a cut or feed element.\<close>

lemma build_element_control:
  assumes "build_element cd store p f y el = Val (bs, y')" "b \<in> set bs" "is_control (blk_element b)"
  shows "\<exists>e. el = Some e \<and> blk_element b = Plain e"
proof (cases el)
  case None
  with assms(1) show ?thesis by (simp add: build_element_def Let_def)
next
  case (Some e)
  have lines: False
    if "stack_lines mk st h y ls = (bs, y')" "\<And>l. \<not> is_control (mk l)" for mk st h ls
    using stack_lines_elements [OF that(1) assms(2)] that(2) assms(3) by auto
  show ?thesis
    using assms Some
    by (cases e) (auto simp: build_element_def Let_def go_simps mk_block_def
        split: option.splits sum.splits if_splits dest!: lines)
qed

lemma build_blocks_control:
  "build_blocks cd store p f y els = Val (bs, y') \<Longrightarrow> b \<in> set bs \<Longrightarrow> is_control (blk_element b) \<Longrightarrow>
     \<exists>e. Some e \<in> set els \<and> blk_element b = Plain e"
proof (induction els arbitrary: y bs)
  case (Cons el els)
  then obtain b1 z b2 where r: "build_element cd store p f y el = Val (b1, z)"
    "build_blocks cd store p f z els = Val (b2, y')" "bs = b1 @ b2"
    by (auto simp: go_simps)
  show ?case
  proof (cases "b \<in> set b1")
    case True
    from build_element_control [OF r(1) this Cons.prems(3)] show ?thesis by auto
  next
    case False
    with Cons.IH [OF r(2)] Cons.prems r(3) show ?thesis by auto
  qed
qed simp

context spaced_font
begin

lemma render_canvas_ok:
  assumes cd: "codecs_ok cd" and r: "validate_receipt cd r = None" and p: "0 < p_width_dots p"
    and b: "Build cd store r p f = Val doc" and c: "Paint cd doc = Val c" and h: "cv_height c \<noteq> 0"
  shows "canvas_ok c" and "cv_width c = p_width_dots p"
    and "p_supports_cut p \<longrightarrow> p_default_cut p \<in> {''full'', ''partial''} \<Longrightarrow> cuts_ok c p"
proof -
  have w: "0 \<le> p_width_dots p" using p by simp
  note v = Build_val [OF cd valid_heights [OF r] w b]
  from Paint_val [OF cd v(2,3) c] obtain bmps where
    m: "length bmps = length (doc_blocks doc)" "\<forall>q \<in> set (zip (doc_blocks doc) bmps). resolved cd (doc_width doc) q"
    "0 < doc_width doc \<longrightarrow> cv_width c = doc_width doc"
    "cv_height c = fold (\<lambda>p h. max h (bottom_of f p)) (zip (doc_blocks doc) bmps) 0"
    "int (length (cv_bits c)) = row_bytes (cv_width c) * cv_height c"
    "cv_controls c = controls_of (doc_blocks doc)" by blast
  from v(1) obtain y' where s: "stacked (extent cd f (p_width_dots p)) 0 (doc_blocks doc) y'" ..
  show "cv_width c = p_width_dots p" using m(3) v(4) p by simp
  have "ctl_y k \<le> cv_height c" if "k \<in> set (cv_controls c)" for k
  proof -
    from that m(6) obtain b where b: "b \<in> set (doc_blocks doc)" "is_control (blk_element b)" "ctl_y k = blk_y b"
      using controls_of_blocks by force
    then obtain g where g: "(b, g) \<in> set (zip (doc_blocks doc) bmps)"
      using m(1) by (metis in_set_impl_in_set_zip1)
    have "bottom_of f (b, g) = blk_y b" by (rule control_bottom [OF b(2) m(2) [rule_format, OF g]])
    with fold_max_mem [OF g, of "bottom_of f" 0] m(4) b(3) show ?thesis by simp
  qed
  moreover have "0 \<le> cv_height c" unfolding m(4) by (rule fold_max_ge)
  ultimately show "canvas_ok c"
    using controls_of_sorted [OF s] m(3,5,6) v(4) p h by (auto simp: canvas_ok_def)
  have "cut_mode_ok p (ctl_element k)" if "k \<in> set (cv_controls c)" for k
  proof -
    from that m(6) obtain b' where b': "b' \<in> set (doc_blocks doc)" "is_control (blk_element b')"
      "ctl_element k = blk_element b'" using controls_of_blocks by force
    from b obtain bs y' where "build_blocks cd store p f 0 (r_elements r) = Val (bs, y')" "bs = doc_blocks doc"
      by (auto simp: Build_def go_simps)
    with build_blocks_control b' obtain e where e: "Some e \<in> set (r_elements r)" "blk_element b' = Plain e" by metis
    then have "validate_element cd e = None"
      using validate_elements_Some [OF validate_receipt_elements [OF r]] by blast
    with e b'(2,3) show ?thesis
      by (cases e) (auto simp: validate_cut_def split: if_splits)
  qed
  then show "cuts_ok c p" if "p_supports_cut p \<longrightarrow> p_default_cut p \<in> {''full'', ''partial''}"
    using that by (simp add: cuts_ok_def)
qed

end

section \<open>Copies and pictures\<close>

context printer_device
begin

lemma send_copies_sent:
  assumes lawful
  shows "\<exists>r w'. send_copies p data n w = (r, w')
    \<and> (r = Val () \<and> received w' = received w @ concat (replicate n data)
       \<or> (\<exists>e. r = Fail e \<and> is_kind (Some e) KindTransient))"
proof (induction n arbitrary: w)
  case (Suc n)
  obtain r w1 where s: "pr_send p data w = (r, w1)" by (metis surj_pair)
  with send_sent [OF assms, of data w] have "sent received data (r, w1) w" by simp
  then consider (ok) "r = Val ()" "received w1 = received w @ data"
    | (err) e where "r = Fail e" "is_kind (Some e) KindTransient" by (auto simp: sent_def)
  then show ?case
  proof cases
    case ok
    with Suc.IH [of w1] s show ?thesis by auto
  next
    case err
    with s show ?thesis by simp
  qed
qed simp

lemma send_copies_extends:
  assumes lawful
  shows "\<exists>x. received (snd (send_copies p data n w)) = received w @ x"
proof (induction n arbitrary: w)
  case (Suc n)
  obtain r w1 where s: "pr_send p data w = (r, w1)" by (metis surj_pair)
  with send_sent [OF assms, of data w] obtain x where "received w1 = received w @ x" by (auto simp: sent_def)
  with Suc.IH [of w1] s show ?case by (auto split: go.split)
qed simp

end

lemma EffectiveCopies_bounds: "1 \<le> EffectiveCopies r \<and> EffectiveCopies r \<le> 100"
  by (simp add: EffectiveCopies_def maxCopies_def)

lemma Encode_empty:
  "cv_height c = 0 \<Longrightarrow> \<exists>e. Encode c p = Fail e \<and> is_kind (Some e) KindPermanent"
  by (simp add: Encode_def)

lemma gray_rows_val:
  assumes "int (length (cv_bits c)) = row_bytes (cv_width c) * cv_height c" "0 \<le> cv_width c"
  shows "gray_rows c = Val (map (\<lambda>y. map (\<lambda>x. if (y, x) \<in> canvas_pixels c then 0 else 0xff)
           [0..cv_width c - 1]) [0..cv_height c - 1])"
  unfolding gray_rows_def
proof (rule go_map_Val, rule go_map_Val)
  fix y x assume "y \<in> set [0..cv_height c - 1]" "x \<in> set [0..cv_width c - 1]"
  then have "bit_at (cv_bits c) (y * row_bytes (cv_width c)) x = Val ((y, x) \<in> canvas_pixels c)"
    unfolding canvas_pixels_def using row_bytes_bounds [OF assms(2)]
    by (intro bit_at_in [OF assms(1)]) auto
  then show "go_bind (bit_at (cv_bits c) (y * row_bytes (cv_width c)) x) (\<lambda>b. Val (if b then 0 else 0xff))
      = (Val (if (y, x) \<in> canvas_pixels c then 0 else 0xff) :: int res)" by simp
qed

text \<open>The profiles \<open>config\<close> can produce: a positive width that fits, a known cut mode.\<close>

definition profile_ok :: "profile \<Rightarrow> bool" where
  "profile_ok p \<longleftrightarrow> 0 < p_width_dots p \<and> p_width_dots p \<le> 8 * 65535
     \<and> (p_supports_cut p \<longrightarrow> p_default_cut p \<in> {''full'', ''partial''})"

abbreviation asset_source :: "('s, 'w) service \<Rightarrow> 'w \<Rightarrow> (string \<Rightarrow> goerr + byte list) option" where
  "asset_source svc w \<equiv> map_option (\<lambda>ops name. as_get ops name w) (sv_assets svc)"

lemma service_render_facts:
  assumes "codecs_ok cd" "face_7x13 fc" "validate_receipt cd r = None" "profile_ok p"
    and "service_render cd fc svc w r p = Val c"
  shows "cv_width c = p_width_dots p" and "int (length (cv_bits c)) = row_bytes (cv_width c) * cv_height c"
    and "cv_height c \<noteq> 0 \<Longrightarrow> canvas_ok c" and "cv_height c \<noteq> 0 \<Longrightarrow> cuts_ok c p"
proof -
  let ?f = "EmbeddedFont (mono_face (\<lambda>r. snd (fc_glyph fc r)))"
  have f: "EmbeddedFont fc = ?f" using face_7x13_mono [OF assms(2)] by simp
  from assms(5) obtain doc where d: "Build cd (asset_source svc w) r p ?f = Val doc" "Paint cd doc = Val c"
    by (auto simp: service_render_def f go_simps)
  have p: "0 < p_width_dots p" "p_supports_cut p \<longrightarrow> p_default_cut p \<in> {''full'', ''partial''}"
    using assms(4) by (simp_all add: profile_ok_def)
  note v = embedded.Build_val [OF assms(1) valid_heights [OF assms(3)] _ d(1)]
  from embedded.Paint_val [OF assms(1) v(2,3) d(2)] p(1) v(4)
  show "cv_width c = p_width_dots p" "int (length (cv_bits c)) = row_bytes (cv_width c) * cv_height c" by auto
  note k = embedded.render_canvas_ok [OF assms(1,3) p(1) d]
  show "canvas_ok c" if "cv_height c \<noteq> 0" by (rule k(1) [OF that])
  show "cuts_ok c p" if "cv_height c \<noteq> 0" by (rule k(3) [OF that p(2)])
qed

text \<open>
  Submitting a print through the persistent store: when \<open>Print\<close> returns an ID, the receipt is
  valid and the store holds under that ID a job for exactly this printer and receipt that is not
  failed; without an idempotency key it is a new pending job.  Nothing else in the store changes.
\<close>

lemma service_Print_spec:
  assumes "bolt_invar db c b" and "q_ops (sv_queue svc) = bolt_ops db c"
    and "\<forall>i. newID = Inr i \<longrightarrow> bolt_storable c (fresh_job i now ((new_job pn r)\<lparr>j_key := key\<rparr>))"
    and "service_Print cd svc newID now r pn key b = (Inr i, b')"
  shows "validate_receipt cd r = None \<and> bolt_invar db c b'
    \<and> (\<exists>j. bolt_content db c b' = (bolt_content db c b)(i \<mapsto> j) \<and> j_printer j = pn \<and> j_receipt j = r
         \<and> j_key j = key \<and> j_state j \<noteq> JobFailed
         \<and> (key = '''' \<longrightarrow> newID = Inr i \<and> j = fresh_job i now (new_job pn r)))"
proof -
  from assms(4) have v: "validate_receipt cd r = None" by (simp add: service_Print_def split: option.splits)
  show ?thesis
  proof (cases "key = ''''")
    case True
    with assms(4) v obtain j where q: "queue_Enqueue (sv_queue svc) newID now (new_job pn r) b = (Inr j, b')" "i = j_id j"
      by (auto simp: service_Print_def Let_def split: prod.splits sum.splits)
    then obtain k where k: "newID = Inr k" by (auto simp: queue_Enqueue_def split: sum.splits)
    have u: "(new_job pn r)\<lparr>j_key := ''''\<rparr> = new_job pn r" by (simp add: new_job_def)
    have s: "bolt_storable c (fresh_job k now (new_job pn r))" using assms(3) k True u by simp
    from bolt.enqueue_spec [OF assms(1) s assms(2)] q(1) k
    have e: "bolt_invar db c b' \<and> j = fresh_job k now (new_job pn r) \<and> bolt_content db c b' = (bolt_content db c b)(k \<mapsto> j)"
      by simp
    with q(2) k v True show ?thesis by (intro conjI exI [of _ j]) (simp_all add: new_job_def)
  next
    case False
    with assms(4) v have q: "queue_EnqueueIdempotent (sv_queue svc) newID now (new_job pn r) key b = (Inr i, b')"
      by (simp add: service_Print_def Let_def)
    from bolt.enqueue_idempotent_spec [OF assms(1-3) q] v False show ?thesis
      by (auto simp: sameLogicalRequest_def new_job_def)
  qed
qed

section \<open>What Process sends\<close>

text \<open>The stream the printer reads as exactly this canvas.\<close>

definition prints_canvas :: "profile \<Rightarrow> canvas \<Rightarrow> byte list \<Rightarrow> bool" where
  "prints_canvas p c out \<longleftrightarrow> (\<exists>cmds. parse out = Some (InitPrinter # cmds) \<and> raster_data cmds = cv_bits c
     \<and> marks 0 cmds = control_marks p (cv_controls c) @ map (Pair (nat (cv_height c))) (auto_cut c p))"

abbreviation short_canvases :: "codecs \<Rightarrow> face \<Rightarrow> ('s, 'w) service \<Rightarrow> 'w \<Rightarrow> receipt \<Rightarrow> profile \<Rightarrow> bool" where
  "short_canvases cd fc svc w r p \<equiv> 0 < p_max_image_height p \<and> p_max_image_height p < 2 ^ 16
     \<or> (\<forall>c. service_render cd fc svc w r p = Val c \<longrightarrow> cv_height c < 2 ^ 16)"

lemma rendered_encodes:
  assumes "codecs_ok cd" and "face_7x13 fc" and "validate_receipt cd r = None" and "profile_ok p"
    and "short_canvases cd fc svc w r p" and ok: "service_render cd fc svc w r p = Val c"
    and "cv_height c \<noteq> 0"
  shows "\<exists>out. Encode c p = Val out \<and> prints_canvas p c out"
proof -
  note c = service_render_facts [OF assms(1-4) ok]
  have "fits_16_bits c p"
    using assms(4,5) ok c(1) row_bytes_bounds [of "cv_width c"]
    by (auto simp: fits_16_bits_def profile_ok_def bandHeight_def)
  from encode_parses [OF c(3,4) [OF assms(7)] this] show ?thesis unfolding prints_canvas_def by blast
qed

lemma rendered_process:
  assumes "codecs_ok cd" and "face_7x13 fc" and "validate_receipt cd (j_receipt j) = None"
    and "sv_profiles svc (j_printer j) = Some p" and "profile_ok p"
    and "map_of (sv_printers svc) (j_printer j) = Some pr" and "printer_ok pr received"
    and "short_canvases cd fc svc w (j_receipt j) p"
    and ok: "service_render cd fc svc w (j_receipt j) p = Val c"
  shows "\<exists>r w'. service_Process cd fc svc j w = (r, w')
    \<and> (r = Val () \<and> (\<exists>out. prints_canvas p c out
           \<and> received w' = received w @ concat (replicate (nat (EffectiveCopies (j_receipt j))) out))
       \<or> (\<exists>e. r = Fail e \<and> (is_kind (Some e) KindTransient \<or> w' = w)))"
proof (cases "cv_height c = 0")
  case True
  from Encode_empty [OF this, of p] ok assms(4) show ?thesis by (auto simp: service_Process_def)
next
  case False
  from rendered_encodes [OF assms(1-3,5,8) ok this] obtain out where
    o: "Encode c p = Val out" "prints_canvas p c out" by blast
  obtain r w' where "send_copies pr out (nat (EffectiveCopies (j_receipt j))) w = (r, w')"
    "r = Val () \<and> received w' = received w @ concat (replicate (nat (EffectiveCopies (j_receipt j))) out)
     \<or> (\<exists>e. r = Fail e \<and> is_kind (Some e) KindTransient)"
    using printer_device.send_copies_sent [OF printer_ok_device [OF assms(7)] TrueI, of out "nat (EffectiveCopies (j_receipt j))" w] by blast
  with o ok assms(4,6) show ?thesis by (auto simp: service_Process_def)
qed

text \<open>Whatever \<open>Process\<close> answers, it only adds to what the printer received.\<close>

lemma process_extends:
  assumes "map_of (sv_printers svc) (j_printer j) = Some pr" and "printer_ok pr received"
    and "service_Process cd fc svc j w = (r, w')"
  shows "\<exists>x. received w' = received w @ x"
proof -
  have "\<exists>x. received (snd (send_copies pr data n w)) = received w @ x" for data n
    by (rule printer_device.send_copies_extends [OF printer_ok_device [OF assms(2)] TrueI])
  then have "\<exists>x. received (snd (service_Process cd fc svc j w)) = received w @ x"
    using assms(1) by (simp add: service_Process_def split: option.split go.split)
  with assms(3) show ?thesis by simp
qed

text \<open>What a nil answer of \<open>Process\<close> says of the bytes sent.\<close>

lemma process_done:
  assumes "codecs_ok cd" and "face_7x13 fc" and "validate_receipt cd (j_receipt j) = None"
    and "sv_profiles svc (j_printer j) = Some p" and "profile_ok p"
    and "map_of (sv_printers svc) (j_printer j) = Some pr" and "printer_ok pr received"
    and "short_canvases cd fc svc w (j_receipt j) p"
    and "service_Process cd fc svc j w = (Val (), w')"
  shows "\<exists>c out. service_render cd fc svc w (j_receipt j) p = Val c \<and> prints_canvas p c out
    \<and> received w' = received w @ concat (replicate (nat (EffectiveCopies (j_receipt j))) out)"
proof -
  obtain c where ok: "service_render cd fc svc w (j_receipt j) p = Val c"
    using assms(4,9) by (cases "service_render cd fc svc w (j_receipt j) p") (auto simp: service_Process_def)
  with rendered_process [OF assms(1-8) ok] assms(9) show ?thesis by auto
qed

section \<open>Properties\<close>


definition sample_printer :: "byte list printer" where
  "sample_printer = \<lparr>pr_send = (\<lambda>d w. (Val (), w @ d)),
     pr_status = (\<lambda>w. ((Some (Leaf ''no route''), \<lparr>ps_online = True, ps_detail = ''''\<rparr>), w))\<rparr>"

definition sample_profile :: profile where
  "sample_profile = epson_tm_m30ii\<lparr>p_max_image_height := 255\<rparr>"

definition sample_service :: "((string \<times> job) list, byte list) service" where
  "sample_service = (NewService sample_queue)
     \<lparr>sv_printers := [(''bar'', sample_printer)], sv_profiles := [''bar'' \<mapsto> sample_profile],
      sv_connections := [''bar'' \<mapsto> \<lparr>cs_transport = ''network'', cs_address = ''10.0.0.7:9100''\<rparr>]\<rparr>"

lemma sample_service_parts [simp]:
  "sv_printers sample_service = [(''bar'', sample_printer)]" "sv_profiles sample_service = [''bar'' \<mapsto> sample_profile]"
  "sv_connections sample_service = [''bar'' \<mapsto> \<lparr>cs_transport = ''network'', cs_address = ''10.0.0.7:9100''\<rparr>]"
  "sv_assets sample_service = None" "sv_queue sample_service = sample_queue"
  by (simp_all add: sample_service_def NewService_def)


lemma sample_profile_ok: "profile_ok sample_profile"
  by (simp add: profile_ok_def sample_profile_def epson_tm_m30ii_def)

lemma build_element_width:
  "p_width_dots p = p_width_dots p' \<Longrightarrow> build_element cd store p f y el = build_element cd store p' f y el"
  by (simp add: build_element_def Let_def cong: option.case_cong element.case_cong)

lemma build_blocks_width:
  "p_width_dots p = p_width_dots p' \<Longrightarrow> build_blocks cd store p f y els = build_blocks cd store p' f y els"
proof (induction els arbitrary: y)
  case (Cons el els)
  then show ?case by (simp add: build_element_width [OF Cons.prems] cong: prod.case_cong)
qed simp

lemma Build_width: "p_width_dots p = p_width_dots p' \<Longrightarrow> Build cd store r p f = Build cd store r p' f"
  by (simp add: Build_def build_blocks_width [of p p'])

lemma sample_rendered:
  "\<exists>c. service_render sample_codecs sample_face sample_service w sample_bill sample_profile = Val c \<and> cv_height c \<noteq> 0"
proof -
  have "Build sample_codecs None sample_bill sample_profile (EmbeddedFont sample_face)
      = Build sample_codecs None sample_bill epson_tm_m30ii (EmbeddedFont sample_face)"
    by (rule Build_width) (simp add: sample_profile_def)
  with sample_bill_rendered show ?thesis by (auto simp: service_render_def)
qed




text \<open>
  (C31) The preview is what is printed: when \<open>Preview\<close> returns a picture, its PNG was made from one row
  per dot row of the very canvas \<open>Process\<close> sends, as wide as the printer, black exactly where the
  canvas has ink.
\<close>

theorem preview_shows_canvas:
  assumes "codecs_ok cd" and "face_7x13 fc" and "sv_profiles svc pn = Some p" and "profile_ok p"
    and "service_Preview cd fc png svc w r pn = Val bytes"
  shows "\<exists>c. service_render cd fc svc w r p = Val c
    \<and> png (p_width_dots p) (cv_height c)
        (map (\<lambda>y. map (\<lambda>x. if (y, x) \<in> canvas_pixels c then 0 else 255) [0..p_width_dots p - 1])
           [0..cv_height c - 1]) = Inr bytes"
proof -
  from assms(3,5) obtain c where v: "validate_receipt cd r = None" "service_render cd fc svc w r p = Val c"
    and e: "EncodePNG png c = Val bytes"
    by (auto simp: service_Preview_def go_simps split: option.splits)
  note f = service_render_facts [OF assms(1,2) v(1) assms(4) v(2)]
  have "0 \<le> cv_width c" using f(1) assms(4) by (simp add: profile_ok_def)
  from gray_rows_val [OF f(2) this] e f(1) v(2) show ?thesis
    by (auto simp: EncodePNG_def split: sum.splits)
qed

theorem preview_shows_canvas_witness:
  "\<exists>c. service_render sample_codecs sample_face sample_service [] sample_bill sample_profile = Val c
     \<and> service_Preview sample_codecs sample_face (\<lambda>w h rows. Inr (map word_of_int (hd rows))) sample_service [] sample_bill ''bar''
       = Val (map word_of_int (hd (map (\<lambda>y. map (\<lambda>x. if (y, x) \<in> canvas_pixels c then 0 else 255) [0..575]) [0..cv_height c - 1])))"
proof -
  let ?png = "\<lambda>(w::int) (h::int) rows. Inr (map word_of_int (hd rows)) :: goerr + byte list"
  have p: "sv_profiles sample_service ''bar'' = Some sample_profile" by simp
  obtain c where c: "service_render sample_codecs sample_face sample_service [] sample_bill sample_profile = Val c"
    using sample_rendered by blast
  note f = service_render_facts [OF sample_codecs_ok mono_face_7x13 sample_bill_valid sample_profile_ok c]
  have "0 \<le> cv_width c" using f(1) by (simp add: sample_profile_def)
  from gray_rows_val [OF f(2) this] c obtain bytes where
    b: "service_Preview sample_codecs sample_face ?png sample_service [] sample_bill ''bar'' = Val bytes"
    by (auto simp: service_Preview_def sample_bill_valid EncodePNG_def)
  from preview_shows_canvas [OF sample_codecs_ok mono_face_7x13 p sample_profile_ok b] b
  show ?thesis by (auto simp: sample_profile_def)
qed

lemma count_job_counts:
  "qs_pending (fold count_job js s) = qs_pending s + int (length (filter (\<lambda>j. j_state j = JobPending) js))"
  "qs_running (fold count_job js s) = qs_running s + int (length (filter (\<lambda>j. j_state j = JobRunning) js))"
  "qs_done (fold count_job js s) = qs_done s + int (length (filter (\<lambda>j. j_state j = JobDone) js))"
  "qs_failed (fold count_job js s) = qs_failed s + int (length (filter (\<lambda>j. j_state j = JobFailed) js))"
  "qs_cancelled (fold count_job js s) = qs_cancelled s + int (length (filter (\<lambda>j. j_state j = JobCancelled) js))"
  "queue_Total (fold count_job js s) = queue_Total s + int (length js)"
  by (induction js arbitrary: s) (simp_all add: queue_Total_def split: job_state.split)

text \<open>
  The queue summary is exact: over the persistent store, each of its counters is the number of
  stored jobs in that state, and their sum the number of stored jobs.
\<close>

lemma queue_summary_total:
  assumes "bolt_invar db c b" and "q_ops (sv_queue svc) = bolt_ops db c"
    and "service_QueueSummary svc b = Inr s"
  shows "qs_pending s = int (card {i. \<exists>j. bolt_content db c b i = Some j \<and> j_state j = JobPending})
    \<and> qs_running s = int (card {i. \<exists>j. bolt_content db c b i = Some j \<and> j_state j = JobRunning})
    \<and> qs_done s = int (card {i. \<exists>j. bolt_content db c b i = Some j \<and> j_state j = JobDone})
    \<and> qs_failed s = int (card {i. \<exists>j. bolt_content db c b i = Some j \<and> j_state j = JobFailed})
    \<and> qs_cancelled s = int (card {i. \<exists>j. bolt_content db c b i = Some j \<and> j_state j = JobCancelled})
    \<and> queue_Total s = int (card (dom (bolt_content db c b)))"
proof -
  from assms(2,3) obtain js where l: "st_list (bolt_ops db c) b = Inr js"
    and s: "s = fold count_job js \<lparr>qs_pending = 0, qs_running = 0, qs_done = 0, qs_failed = 0, qs_cancelled = 0\<rparr>"
    by (auto simp: service_QueueSummary_def queue_List_def split: sum.splits)
  have d: "dom (bolt_content db c b) = {i. \<exists>j. bolt_content db c b i = Some j \<and> True}" by (auto simp: dom_def)
  have "int (length js) = int (card (dom (bolt_content db c b)))"
    using bolt.list_counts [OF assms(1) l, of "\<lambda>j. True"] unfolding d by simp
  then show ?thesis
    unfolding s count_job_counts bolt.list_counts [OF assms(1) l] by (simp add: queue_Total_def)
qed

lemma queue_summary_total_witness:
  "\<exists>s. service_QueueSummary sample_service [(''7f'', sample_job)] = Inr s \<and> queue_Total s = 1"
proof -
  let ?b = "[(''7f'', sample_job)]"
  have inv: "bolt_invar list_bbolt plain_codec ?b" by (rule sample_bucket) simp_all
  have o: "q_ops (sv_queue sample_service) = bolt_ops list_bbolt plain_codec" by simp
  have "bolt_list list_bbolt plain_codec ?b = Inr [sample_job]"
    by (simp add: bolt_list_def db_view_def list_bbolt_def list_bucket_def plain_codec_def)
  then obtain s where s: "service_QueueSummary sample_service ?b = Inr s"
    by (simp add: service_QueueSummary_def queue_List_def)
  have "dom (bolt_content list_bbolt plain_codec ?b) = {''7f''}"
    by (auto simp: bolt_content_def list_bbolt_def list_bucket_def plain_codec_def split: if_splits)
  with queue_summary_total [OF inv o s] s show ?thesis by simp
qed

lemma check_printers_names: "map pm_name (fst (check_printers es w)) = map fst es"
  by (induction es w rule: check_printers.induct)
    (auto simp: printerSummaryWithStatus_def Let_def split: prod.splits)

lemma printer_entries_names: "printer_entries svc ps = Inr es \<Longrightarrow> map fst es = map fst ps"
  by (induction svc ps arbitrary: es rule: printer_entries.induct) (auto split: option.splits sum.splits)

lemma map_insort_key: "map f (insort_key f x xs) = insort (f x) (map f xs)"
  by (induction xs) simp_all

lemma map_sort_key: "map f (sort_key f xs) = sort (map f xs)"
  by (induction xs) (simp_all add: map_insort_key)

lemma printer_entries_ok:
  "\<forall>n \<in> fst ` set ps. n \<in> dom (sv_profiles svc) \<and> n \<in> dom (sv_connections svc) \<Longrightarrow>
     \<exists>es. printer_entries svc ps = Inr es"
proof (induction ps)
  case (Cons q ps)
  obtain n p where "q = (n, p)" by (cases q)
  with Cons show ?case by (fastforce simp: dom_def)
qed simp

lemma check_printers_source:
  "s \<in> set (fst (check_printers es w)) \<Longrightarrow>
     \<exists>n p pf cn w'. (n, p, pf, cn) \<in> set es \<and> s = fst (printerSummaryWithStatus n p pf cn w')"
proof (induction es arbitrary: w)
  case (Cons e es)
  obtain n p pf cn where e: "e = (n, p, pf, cn)" by (cases e)
  obtain s1 w1 ss w2 where r: "printerSummaryWithStatus n p pf cn w = (s1, w1)" "check_printers es w1 = (ss, w2)"
    by (metis surj_pair)
  with Cons.prems e consider "s = s1" | "s \<in> set (fst (check_printers es w1))" by auto
  then show ?case
  proof cases
    case 1
    with r(1) e show ?thesis by (metis fst_conv list.set_intros(1))
  next
    case 2
    from Cons.IH [OF this] show ?thesis by (metis list.set_intros(2))
  qed
qed simp

lemma printer_entries_source:
  "printer_entries svc ps = Inr es \<Longrightarrow> (n, p, pf, cn) \<in> set es \<Longrightarrow>
     (n, p) \<in> set ps \<and> sv_profiles svc n = Some pf \<and> sv_connections svc n = Some cn"
proof (induction ps arbitrary: es)
  case (Cons q ps)
  obtain m p' where "q = (m, p')" by (cases q)
  with Cons show ?case by (auto split: option.splits sum.splits)
qed simp

text \<open>
  The summary of a TCP printer, where \<open>up\<close> says whether its address can be dialed.  A status error, which this printer never
  returns, would count as offline too.
\<close>

lemma network_summary:
  assumes "\<forall>w. (\<exists>c w'. nt_dial nt (cn_address conn) w = (Inr c, w')) \<longleftrightarrow> up"
    and "s = fst (printerSummaryWithStatus n (NewNetworkPrinter nt conn) pf cn w)"
  shows "pm_online s = up \<and> (\<not> up \<longrightarrow> (\<exists>w err w'. nt_dial nt (cn_address conn) w = (Inl err, w') \<and> pm_detail s = error_text err))
    \<and> pm_name s = n \<and> pm_transport s = cs_transport cn \<and> pm_address s = cs_address cn
    \<and> pm_width_dots s = p_width_dots pf \<and> pm_dpi s = p_dpi pf"
proof -
  obtain x w' where d: "nt_dial nt (cn_address conn) w = (x, w')" by fastforce
  show ?thesis
  proof (cases x)
    case (Inl err)
    with d assms(1) have "\<not> up" by (metis prod.inject sum.distinct(1))
    with d Inl assms(2) show ?thesis
      by (auto simp: printerSummaryWithStatus_def NewNetworkPrinter_def network_Status_def Let_def)
  next
    case (Inr c)
    with d assms(1) have up by blast
    with d Inr assms(2) show ?thesis
      by (auto simp: printerSummaryWithStatus_def NewNetworkPrinter_def network_Status_def Let_def)
  qed
qed

lemma status_error_offline:
  "fst (pr_status p w) = (Some err, st) \<Longrightarrow>
     (let s = fst (printerSummaryWithStatus n p pf cn w) in \<not> pm_online s \<and> pm_detail s = error_text err)"
  by (cases "pr_status p w") (simp add: printerSummaryWithStatus_def Let_def)

text \<open>
  (C36) The printer list of TCP printers shows every configured printer once, in name order, with the size of its
  profile and the address of its connection, whether or not it answers; it is shown online exactly when its
  address can be dialed, and otherwise with the text of the dial error.  Each address is taken to be
  either reachable or not throughout the call.
\<close>

theorem list_printers_complete:
  assumes "\<forall>n \<in> fst ` set (sv_printers svc). n \<in> dom (sv_profiles svc) \<and> n \<in> dom (sv_connections svc)"
    and "\<forall>(n, p) \<in> set (sv_printers svc). p = NewNetworkPrinter nt (conn n)
      \<and> (\<forall>w. (\<exists>c w'. nt_dial nt (cn_address (conn n)) w = (Inr c, w')) \<longleftrightarrow> up n)"
  shows "\<exists>ss w'. service_ListPrinters svc w = (Inr ss, w') \<and> map pm_name ss = service_PrinterNames svc
    \<and> (\<forall>s \<in> set ss. pm_online s = up (pm_name s)
         \<and> (\<not> pm_online s \<longrightarrow> (\<exists>v err v'. nt_dial nt (cn_address (conn (pm_name s))) v = (Inl err, v') \<and> pm_detail s = error_text err))
         \<and> map_option p_width_dots (sv_profiles svc (pm_name s)) = Some (pm_width_dots s)
         \<and> map_option cs_address (sv_connections svc (pm_name s)) = Some (pm_address s))"
proof -
  obtain es where e: "printer_entries svc (sv_printers svc) = Inr es"
    using printer_entries_ok [OF assms(1)] by blast
  obtain ss w' where c: "check_printers es w = (ss, w')" by (metis surj_pair)
  then have "map pm_name ss = map fst (sv_printers svc)"
    using check_printers_names [of es w] printer_entries_names [OF e] by simp
  moreover have "pm_online s = up (pm_name s)
         \<and> (\<not> pm_online s \<longrightarrow> (\<exists>v err v'. nt_dial nt (cn_address (conn (pm_name s))) v = (Inl err, v') \<and> pm_detail s = error_text err))
         \<and> map_option p_width_dots (sv_profiles svc (pm_name s)) = Some (pm_width_dots s)
         \<and> map_option cs_address (sv_connections svc (pm_name s)) = Some (pm_address s)" if s: "s \<in> set ss" for s
  proof -
    from check_printers_source [of s es w] s c obtain n p pf cn w1 where
      q: "(n, p, pf, cn) \<in> set es" "s = fst (printerSummaryWithStatus n p pf cn w1)" by auto
    note src = printer_entries_source [OF e q(1)]
    then have p: "p = NewNetworkPrinter nt (conn n)" "\<forall>w. (\<exists>c w'. nt_dial nt (cn_address (conn n)) w = (Inr c, w')) \<longleftrightarrow> up n"
      using assms(2) by blast+
    from network_summary [OF p(2) q(2) [unfolded p(1)]] src show ?thesis by auto
  qed
  ultimately show ?thesis using e c
    by (simp add: service_ListPrinters_def service_PrinterNames_def map_sort_key)
qed

text \<open>Two printers, one of which is switched off.\<close>

definition half_net :: "(unit, byte list) net" where
  "half_net = sample_net\<lparr>nt_dial := (\<lambda>a w. (if a = ''10.0.0.8:9100'' then Inl (Leaf ''refused'') else Inr (), w))\<rparr>"

definition half_conn :: "string \<Rightarrow> connection" where
  "half_conn n = \<lparr>cn_transport = ''network'', cn_address = (if n = ''bar'' then ''10.0.0.7:9100'' else ''10.0.0.8:9100''),
     cn_device = '''', cn_mac = ''''\<rparr>"

abbreviation "half_service \<equiv> sample_service\<lparr>
     sv_printers := [(''till'', NewNetworkPrinter half_net (half_conn ''till'')), (''bar'', NewNetworkPrinter half_net (half_conn ''bar''))],
     sv_profiles := (\<lambda>n. Some sample_profile),
     sv_connections := (\<lambda>n. Some \<lparr>cs_transport = ''network'', cs_address = cn_address (half_conn n)\<rparr>)\<rparr>"

theorem list_printers_complete_witness:
  "\<exists>ss w'. service_ListPrinters half_service [] = (Inr ss, w') \<and> map (\<lambda>s. (pm_name s, pm_online s)) ss = [(''bar'', True), (''till'', False)]"
proof -
  have a: "\<forall>n \<in> fst ` set (sv_printers half_service). n \<in> dom (sv_profiles half_service) \<and> n \<in> dom (sv_connections half_service)"
    by simp
  have b: "\<forall>(n, p) \<in> set (sv_printers half_service). p = NewNetworkPrinter half_net (half_conn n)
      \<and> (\<forall>w. (\<exists>c w'. nt_dial half_net (cn_address (half_conn n)) w = (Inr c, w')) \<longleftrightarrow> n = ''bar'')"
    by (simp add: half_net_def half_conn_def)
  from list_printers_complete [OF a b, of "[]"] obtain ss w' where l: "service_ListPrinters half_service [] = (Inr ss, w')"
    "map pm_name ss = service_PrinterNames half_service" "\<forall>s \<in> set ss. pm_online s = (pm_name s = ''bar'')" by metis
  have "map (\<lambda>s. (pm_name s, pm_online s)) ss = map (\<lambda>n. (n, n = ''bar'')) (map pm_name ss)" using l(3) by simp
  also have "map pm_name ss = [''bar'', ''till'']"
    unfolding l(2) by (simp add: service_PrinterNames_def less_char_def less_eq_char_def)
  finally show ?thesis using l(1) by simp
qed

end
