(* ===== verification/Config.thy ===== *)
theory Config
  imports App
begin

text \<open>
  Package \<open>internal/config\<close>: the configuration, its decoding and its validation.  The YAML library is
  a parameter: \<open>Decode\<close> into the raw structs the code declares, and the parser.  So are
  \<open>time.ParseDuration\<close> and the conversion of a width in millimetres to dots, which is floating point.
\<close>

section \<open>The configuration\<close>

record server_config =
  sc_address :: string

record auth_config =
  ac_enabled :: bool
  ac_token_file :: string

record logging_config =
  lc_level :: string
  lc_format :: string

record assets_config =
  asc_path :: string

record queue_config =
  qc_store :: string
  qc_path :: string
  qc_max_attempts :: int
  qc_retry_backoff :: duration

record weather_config =
  wc_driver :: string
  wc_api_key_env :: string

record web_config =
  web_enabled :: bool

record printer_config =
  pc_name :: string
  pc_model :: string
  pc_profile :: profile
  pc_connection :: connection

record config =
  cf_server :: server_config
  cf_auth :: auth_config
  cf_logging :: logging_config
  cf_assets :: assets_config
  cf_queue :: queue_config
  cf_printers :: "printer_config list"
  cf_weather :: weather_config
  cf_web :: web_config

definition zero_profile :: profile where
  "zero_profile = \<lparr>p_width_dots = 0, p_dpi = 0, p_margin_left = 0, p_margin_right = 0, p_supports_cut = False,
     p_supports_partial = False, p_default_cut = '''', p_max_image_height = 0\<rparr>"

definition zero_config :: config where
  "zero_config = \<lparr>cf_server = \<lparr>sc_address = ''''\<rparr>, cf_auth = \<lparr>ac_enabled = False, ac_token_file = ''''\<rparr>,
     cf_logging = \<lparr>lc_level = '''', lc_format = ''''\<rparr>, cf_assets = \<lparr>asc_path = ''''\<rparr>,
     cf_queue = \<lparr>qc_store = '''', qc_path = '''', qc_max_attempts = 0, qc_retry_backoff = 0\<rparr>,
     cf_printers = [], cf_weather = \<lparr>wc_driver = '''', wc_api_key_env = ''''\<rparr>, cf_web = \<lparr>web_enabled = False\<rparr>\<rparr>"

section \<open>Decoding\<close>

text \<open>What \<open>value.Decode(&raw)\<close> reads of a queue block and of a printer block; \<open>'f\<close> is \<open>float64\<close>.\<close>

record raw_queue =
  rq_store :: string
  rq_path :: string
  rq_max_attempts :: int
  rq_retry_backoff :: string

record 'f raw_profile =
  rf_printable_width_mm :: 'f
  rf_dpi :: int
  rf_left :: int
  rf_right :: int
  rf_supports_cut :: bool
  rf_supports_partial_cut :: bool
  rf_default_cut :: string
  rf_max_image_height_dots :: int

record 'f raw_printer =
  rp_name :: string
  rp_model :: string
  rp_transport :: string
  rp_address :: string
  rp_device :: string
  rp_mac :: string
  rp_profile :: "'f raw_profile option"

definition queue_UnmarshalYAML ::
  "(string \<Rightarrow> goerr + duration) \<Rightarrow> goerr + raw_queue \<Rightarrow> queue_config \<Rightarrow> goerr + queue_config" where
  "queue_UnmarshalYAML parseDuration dec q =
     (case dec of
        Inl err \<Rightarrow> Inl err
      | Inr raw \<Rightarrow>
          let q = q\<lparr>qc_store := rq_store raw, qc_path := rq_path raw, qc_max_attempts := rq_max_attempts raw\<rparr> in
          if rq_retry_backoff raw \<noteq> ''''
          then (case parseDuration (rq_retry_backoff raw) of
                  Inl err \<Rightarrow> Inl (Wrapf ''queue.retry_backoff: '' err)
                | Inr d \<Rightarrow> Inr (q\<lparr>qc_retry_backoff := d\<rparr>))
          else Inr q)"

text \<open>The keys of \<open>ModelProfiles\<close>, sorted; there is one model.\<close>

definition knownModelNames :: string where
  "knownModelNames = join_with '', '' (sort [''epson-tm-m30ii''])"

definition printer_UnmarshalYAML ::
  "('f \<Rightarrow> int \<Rightarrow> int) \<Rightarrow> goerr + 'f raw_printer \<Rightarrow> printer_config \<Rightarrow> goerr + printer_config" where
  "printer_UnmarshalYAML widthDotsFromMM dec p =
     (case dec of
        Inl err \<Rightarrow> Inl err
      | Inr raw \<Rightarrow>
          let p = p\<lparr>pc_name := rp_name raw,
                    pc_connection := \<lparr>cn_transport = rp_transport raw, cn_address = rp_address raw,
                                      cn_device = rp_device raw, cn_mac = rp_mac raw\<rparr>\<rparr> in
          (case rp_profile raw of
             Some prof \<Rightarrow>
               if rp_model raw \<noteq> ''''
               then Inl (errorf ''printer %q: specify either %q or %q, not both''
                      [FStr (rp_name raw), FStr ''model'', FStr ''profile''])
               else Inr (p\<lparr>pc_profile :=
                 \<lparr>p_width_dots = widthDotsFromMM (rf_printable_width_mm prof) (rf_dpi prof), p_dpi = rf_dpi prof,
                  p_margin_left = rf_left prof, p_margin_right = rf_right prof,
                  p_supports_cut = rf_supports_cut prof, p_supports_partial = rf_supports_partial_cut prof,
                  p_default_cut = rf_default_cut prof, p_max_image_height = rf_max_image_height_dots prof\<rparr>\<rparr>)
           | None \<Rightarrow>
               if rp_model raw = ''''
               then Inl (errorf ''printer %q: specify either %q or %q''
                      [FStr (rp_name raw), FStr ''model'', FStr ''profile''])
               else (case ModelProfiles (rp_model raw) of
                  None \<Rightarrow> Inl (errorf ''printer %q: unknown model %q (known models: %s)''
                            [FStr (rp_name raw), FStr (rp_model raw), FStr knownModelNames])
                | Some prof \<Rightarrow> Inr (p\<lparr>pc_model := rp_model raw, pc_profile := prof\<rparr>))))"

text \<open>\<open>decode\<close> is \<open>value.Decode(&aux)\<close>: it overwrites the fields the document gives.\<close>

definition config_UnmarshalYAML :: "('n \<Rightarrow> config \<Rightarrow> goerr + config) \<Rightarrow> 'n \<Rightarrow> goerr + config" where
  "config_UnmarshalYAML decode node =
     decode node (zero_config\<lparr>cf_auth := \<lparr>ac_enabled = True, ac_token_file = ''''\<rparr>\<rparr>)"

section \<open>Validation\<close>

text \<open>\<open>int\<close> addition wraps at 64 bits.\<close>

definition add64 :: "int \<Rightarrow> int \<Rightarrow> int" where
  "add64 a b = sint (word_of_int a + word_of_int b :: 64 word)"

definition err_if :: "bool \<Rightarrow> goerr \<Rightarrow> goerr list" where
  "err_if b e = (if b then [e] else [])"

definition validate_printer :: "printer_config \<Rightarrow> goerr option" where
  "validate_printer c =
     (let p = pc_profile c in errors_join (
        err_if (pc_name c = '''') (Leaf ''name is required'')
      @ err_if (p_dpi p \<le> 0) (errorf ''dpi must be positive, got %d'' [FInt (p_dpi p)])
      @ err_if (p_width_dots p \<le> 0) (errorf ''printable width must be positive, got %d dots'' [FInt (p_width_dots p)])
      @ err_if (p_margin_left p < 0) (errorf ''margins_dots.left must not be negative, got %d'' [FInt (p_margin_left p)])
      @ err_if (p_margin_right p < 0) (errorf ''margins_dots.right must not be negative, got %d'' [FInt (p_margin_right p)])
      @ err_if (p_width_dots p > 0 \<and> add64 (p_margin_left p) (p_margin_right p) \<ge> p_width_dots p)
          (errorf ''margins_dots.left + margins_dots.right must leave a positive usable width, got %d + %d >= %d dots''
             [FInt (p_margin_left p), FInt (p_margin_right p), FInt (p_width_dots p)])
      @ err_if (p_max_image_height p < 0)
          (errorf ''max_image_height_dots must not be negative, got %d'' [FInt (p_max_image_height p)])
      @ err_if (p_default_cut p \<noteq> ''full'' \<and> p_default_cut p \<noteq> ''partial'')
          (errorf ''default_cut must be %q or %q, got %q'' [FStr ''full'', FStr ''partial'', FStr (p_default_cut p)])
      @ err_if (cn_transport (pc_connection c) \<noteq> ''network'')
          (errorf ''transport must be %q (usb, bluetooth, serial are not yet supported), got %q''
             [FStr ''network'', FStr (cn_transport (pc_connection c))])))"

text \<open>The loop over the printers: \<open>i\<close> is the index, \<open>seen\<close> the names of the valid printers so far.\<close>

fun validate_printers :: "int \<Rightarrow> string list \<Rightarrow> printer_config list \<Rightarrow> goerr list" where
  "validate_printers i seen [] = []"
| "validate_printers i seen (p # ps) =
     (case validate_printer p of
        Some err \<Rightarrow> Wrapf (sprintf ''printers[%d] %q: '' [FInt i, FStr (pc_name p)]) err # validate_printers (i + 1) seen ps
      | None \<Rightarrow>
          if pc_name p \<in> set seen
          then errorf ''printers[%d]: duplicate printer name %q'' [FInt i, FStr (pc_name p)]
                 # validate_printers (i + 1) seen ps
          else validate_printers (i + 1) (pc_name p # seen) ps)"

text \<open>\<open>Duration.String\<close>.\<close>

definition frac_string :: "nat \<Rightarrow> nat \<Rightarrow> string" where
  "frac_string r prec =
     (let ds = dec_nat r; ds = replicate (prec - length ds) (CHR ''0'') @ ds;
          ds = rev (dropWhile (\<lambda>c. c = CHR ''0'') (rev ds))
      in if r = 0 then '''' else CHR ''.'' # ds)"

definition scaled_string :: "nat \<Rightarrow> nat \<Rightarrow> string" where
  "scaled_string v prec = dec_nat (v div 10 ^ prec) @ frac_string (v mod 10 ^ prec) prec"

definition duration_string :: "duration \<Rightarrow> string" where
  "duration_string d =
     (let u = nat \<bar>sint d\<bar>; s = u div 1000000000 in
      (if sint d < 0 then ''-'' else '''') @
      (if u = 0 then ''0s''
       else if u < 1000 then dec_nat u @ ''ns''
       else if u < 1000000 then scaled_string u 3 @ [CHR 0xC2, CHR 0xB5] @ ''s''
       else if u < 1000000000 then scaled_string u 6 @ ''ms''
       else (if 3600 \<le> s then dec_nat (s div 3600) @ ''h'' else '''')
          @ (if 60 \<le> s then dec_nat (s div 60 mod 60) @ ''m'' else '''')
          @ dec_nat (s mod 60) @ frac_string (u mod 1000000000) 9 @ ''s''))"

definition validate_config :: "config \<Rightarrow> goerr option" where
  "validate_config c =
     (let q = cf_queue c; errs =
        err_if (sc_address (cf_server c) = '''') (Leaf ''server.address is required'')
      @ err_if (qc_store q \<noteq> ''memory'' \<and> qc_store q \<noteq> ''bbolt'')
          (errorf ''queue.store must be %q or %q, got %q'' [FStr ''memory'', FStr ''bbolt'', FStr (qc_store q)])
      @ err_if (qc_max_attempts q \<le> 0) (errorf ''queue.max_attempts must be positive, got %d'' [FInt (qc_max_attempts q)])
      @ err_if (sint (qc_retry_backoff q) \<le> 0)
          (errorf ''queue.retry_backoff must be positive, got %v'' [FStr (duration_string (qc_retry_backoff q))])
      @ validate_printers 0 [] (cf_printers c)
      in case errors_join errs of
           Some err \<Rightarrow> Some (wrap KindValidation ''config.Validate'' (Some err))
         | None \<Rightarrow> None)"

text \<open>\<open>Load\<close>: \<open>yaml\<close> is the parser; an empty document leaves the zero value.\<close>

definition Load ::
  "'w fsys \<Rightarrow> (byte list \<Rightarrow> goerr + 'n option) \<Rightarrow> ('n \<Rightarrow> config \<Rightarrow> goerr + config) \<Rightarrow> string \<Rightarrow> 'w \<Rightarrow> goerr + config" where
  "Load fs yaml decode path w =
     (case fs_read_file fs path w of
        Inl err \<Rightarrow>
          if oe_not_exist err then Inl (wrap KindNotFound ''config.Load'' (Some (oe_error err)))
          else Inl (wrap KindPermanent ''config.Load'' (Some (oe_error err)))
      | Inr data \<Rightarrow>
          (case (case yaml data of
                   Inl err \<Rightarrow> Inl err
                 | Inr None \<Rightarrow> Inr zero_config
                 | Inr (Some node) \<Rightarrow> config_UnmarshalYAML decode node) of
             Inl err \<Rightarrow> Inl (wrap KindValidation ''config.Load'' (Some err))
           | Inr cfg \<Rightarrow> (case validate_config cfg of Some err \<Rightarrow> Inl err | None \<Rightarrow> Inr cfg)))"

section \<open>What validation guarantees\<close>

definition printer_usable :: "printer_config \<Rightarrow> bool" where
  "printer_usable c \<longleftrightarrow>
     (let p = pc_profile c in
      pc_name c \<noteq> '''' \<and> cn_transport (pc_connection c) = ''network'' \<and> 0 < p_dpi p
      \<and> 0 \<le> p_margin_left p \<and> 0 \<le> p_margin_right p \<and> p_margin_left p + p_margin_right p < p_width_dots p
      \<and> 0 \<le> p_max_image_height p \<and> p_default_cut p \<in> {''full'', ''partial''})"

definition config_usable :: "config \<Rightarrow> bool" where
  "config_usable c \<longleftrightarrow>
     sc_address (cf_server c) \<noteq> '''' \<and> qc_store (cf_queue c) \<in> {''memory'', ''bbolt''}
     \<and> 0 < qc_max_attempts (cf_queue c) \<and> 0 < sint (qc_retry_backoff (cf_queue c))
     \<and> distinct (map pc_name (cf_printers c)) \<and> list_all printer_usable (cf_printers c)"

text \<open>The margins add up without wrapping.\<close>

definition margins_add :: "profile \<Rightarrow> bool" where
  "margins_add p \<longleftrightarrow> \<bar>p_margin_left p\<bar> < 2 ^ 62 \<and> \<bar>p_margin_right p\<bar> < 2 ^ 62"

lemma add64: "\<bar>a\<bar> < 2 ^ 62 \<Longrightarrow> \<bar>b\<bar> < 2 ^ 62 \<Longrightarrow> add64 a b = a + b"
proof -
  assume ab: "\<bar>a\<bar> < 2 ^ 62" "\<bar>b\<bar> < 2 ^ 62"
  then have "- (2 ^ 63) \<le> a + b" "a + b < 2 ^ 63" by (auto simp: abs_less_iff)
  then show ?thesis
    unfolding add64_def wi_hom_add
    by (intro signed_take_bit_int_eq_self [THEN trans [OF sint_sbintrunc']]) simp_all
qed

lemma err_if_Nil [simp]: "err_if b e = [] \<longleftrightarrow> \<not> b"
  by (simp add: err_if_def)

lemma validate_printer_None:
  "margins_add (pc_profile c) \<Longrightarrow> validate_printer c = None \<longleftrightarrow> printer_usable c"
  by (auto simp: validate_printer_def printer_usable_def margins_add_def add64 Let_def)

lemma validate_printers_Nil:
  "validate_printers i seen ps = [] \<longleftrightarrow>
     list_all (\<lambda>p. validate_printer p = None) ps \<and> distinct (map pc_name ps) \<and> set (map pc_name ps) \<inter> set seen = {}"
  by (induction ps arbitrary: i seen) (auto split: option.split)

lemma validate_config_None:
  assumes "\<forall>p \<in> set (cf_printers c). margins_add (pc_profile p)"
  shows "validate_config c = None \<longleftrightarrow> config_usable c"
proof -
  have "list_all (\<lambda>p. validate_printer p = None) (cf_printers c) \<longleftrightarrow> list_all printer_usable (cf_printers c)"
    using assms validate_printer_None by (simp add: list_all_iff)
  then show ?thesis
    by (auto simp: validate_config_def config_usable_def Let_def validate_printers_Nil errors_join_Some split: option.splits)
qed

lemma validate_config_kind: "validate_config c = Some e \<Longrightarrow> is_kind (Some e) KindValidation"
  by (auto simp: validate_config_def Let_def split: option.splits)

text \<open>A document that does not mention \<open>auth.enabled\<close> leaves authentication on.\<close>

lemma auth_on_by_default:
  assumes "\<And>c cfg. decode node c = Inr cfg \<Longrightarrow> ac_enabled (cf_auth cfg) = ac_enabled (cf_auth c)"
    and "config_UnmarshalYAML decode node = Inr cfg"
  shows "ac_enabled (cf_auth cfg)"
  using assms(1) [OF assms(2) [unfolded config_UnmarshalYAML_def]] by simp

lemma Load_Inr:
  "Load fs yaml decode path w = Inr cfg \<Longrightarrow> validate_config cfg = None"
  by (auto simp: Load_def split: sum.splits option.splits if_splits)

lemma printer_usable_profile:
  "printer_usable c \<Longrightarrow> p_width_dots (pc_profile c) \<le> 8 * 65535 \<Longrightarrow> profile_ok (pc_profile c)"
  by (auto simp: printer_usable_def profile_ok_def Let_def)

section \<open>Properties\<close>

definition sample_config :: config where
  "sample_config = zero_config\<lparr>cf_server := \<lparr>sc_address = '':8080''\<rparr>,
     cf_queue := \<lparr>qc_store = ''memory'', qc_path = '''', qc_max_attempts = 3, qc_retry_backoff = 5000000000\<rparr>,
     cf_printers := [\<lparr>pc_name = ''bar'', pc_model = '''', pc_profile = sample_profile, pc_connection =
       \<lparr>cn_transport = ''network'', cn_address = ''10.0.0.7:9100'', cn_device = '''', cn_mac = ''''\<rparr>\<rparr>]\<rparr>"

text \<open>
  (C26) Validation is exact: while the sum of a printer's margins does not wrap, \<open>Validate\<close> accepts a
  configuration exactly when it is usable (an address, a known store, positive attempts and backoff,
  printers of distinct names whose margins leave room, whose cut mode is known and whose transport
  exists), and reports a validation error otherwise; \<open>Load\<close> returns only accepted configurations.
\<close>

theorem config_validation_exact:
  assumes "\<forall>p \<in> set (cf_printers c). margins_add (pc_profile p)"
  shows "(if config_usable c then validate_config c = None
          else \<exists>e. validate_config c = Some e \<and> is_kind (Some e) KindValidation)
    \<and> (Load fs yaml decode path w = Inr c \<longrightarrow> config_usable c)"
  using validate_config_None [OF assms] validate_config_kind [of c] Load_Inr [of fs yaml decode path w c]
  by (cases "validate_config c") auto

theorem config_validation_exact_witness:
  "validate_config sample_config = None
   \<and> (\<exists>e. validate_config (sample_config\<lparr>cf_printers := cf_printers sample_config @ cf_printers sample_config\<rparr>) = Some e)"
proof -
  have m: "\<forall>p \<in> set (cf_printers sample_config). margins_add (pc_profile p)"
    "\<forall>p \<in> set (cf_printers (sample_config\<lparr>cf_printers := cf_printers sample_config @ cf_printers sample_config\<rparr>)).
       margins_add (pc_profile p)"
    by (simp_all add: sample_config_def margins_add_def sample_profile_def epson_tm_m30ii_def)
  have u: "config_usable sample_config"
    "\<not> config_usable (sample_config\<lparr>cf_printers := cf_printers sample_config @ cf_printers sample_config\<rparr>)"
    by (simp_all add: config_usable_def printer_usable_def sample_config_def sample_profile_def epson_tm_m30ii_def)
  show ?thesis
    using config_validation_exact [OF m(1), of undefined undefined undefined undefined undefined]
      config_validation_exact [OF m(2), of undefined undefined undefined undefined undefined] u by auto
qed

text \<open>Margins whose sum wraps at 64 bits pass the check that they leave a usable width.\<close>

theorem margin_sum_wraps:
  "validate_config (sample_config\<lparr>cf_printers :=
     map (pc_profile_update (\<lambda>p. p\<lparr>p_margin_left := 2 ^ 63 - 1, p_margin_right := 1\<rparr>)) (cf_printers sample_config)\<rparr>) = None"
proof -
  have a: "add64 (2 ^ 63 - 1) 1 < 576" by (simp add: add64_def)
  show ?thesis
    using a by (simp add: sample_config_def validate_config_def validate_printer_def sample_profile_def epson_tm_m30ii_def Let_def
        errors_join_def err_if_def)
qed

end
