(* ===== verification/Json.thy ===== *)
theory Json
  imports Text "HOL-Library.Word"
begin

text \<open>
  What the code uses of \<open>encoding/json\<close> and \<open>encoding/base64\<close>, on parsed JSON values: decoding into a
  struct field by field (names matched exactly, else case-insensitively; \<open>null\<close> changes nothing;
  unknown names are ignored; a repeated name is decoded again, and an array that replaces an earlier
  one starts from zero values, where the library may keep fields of the earlier elements), and encoding with \<open>omitempty\<close>.
  The text level (\<open>Valid\<close>, scanning, escaping) is left out.  A type error is \<open>None\<close>.
\<close>

datatype json =
    JNull
  | JBool bool
  | JInt int
  | JReal string
  | JStr string
  | JArr "json list"
  | JObj "(string \<times> json) list"

section \<open>Strings\<close>

text \<open>The encoder writes U+FFFD for every byte that is not part of a UTF-8 sequence.\<close>

definition to_valid :: "string \<Rightarrow> string" where
  "to_valid s = concat (map (\<lambda>(r, b). if r = rune_error \<and> length b = 1
     then [CHR 0xEF, CHR 0xBF, CHR 0xBD] else b) (runes s))"

lemma to_valid_id [simp]: "valid_string s \<Longrightarrow> to_valid s = s"
proof -
  assume "valid_string s"
  then have "map (\<lambda>(r, b). if r = rune_error \<and> length b = 1
      then [CHR 0xEF, CHR 0xBF, CHR 0xBD] else b) (runes s) = map snd (runes s)"
    by (auto simp: valid_string_def list_all_iff)
  then show ?thesis by (simp only: to_valid_def concat_runes)
qed

text \<open>
  Name folding: ASCII letters, the long s (U+017F) and the Kelvin sign (U+212A); no other rune folds
  to an ASCII letter.
\<close>

fun fold_name :: "string \<Rightarrow> string" where
  "fold_name (a # b # c # s) =
     (if a = CHR 0xC5 \<and> b = CHR 0xBF then CHR ''s'' # fold_name (c # s)
      else if a = CHR 0xE2 \<and> b = CHR 0x84 \<and> c = CHR 0xAA then CHR ''k'' # fold_name s
      else (if (of_char a :: nat) \<in> {65..90} then char_of (of_char a + 32 :: nat) else a) # fold_name (b # c # s))"
| "fold_name [a, b] =
     (if a = CHR 0xC5 \<and> b = CHR 0xBF then ''s''
      else [if (of_char a :: nat) \<in> {65..90} then char_of (of_char a + 32 :: nat) else a,
            if (of_char b :: nat) \<in> {65..90} then char_of (of_char b + 32 :: nat) else b])"
| "fold_name [a] = [if (of_char a :: nat) \<in> {65..90} then char_of (of_char a + 32 :: nat) else a]"
| "fold_name [] = []"

section \<open>Decoding\<close>

fun dec_string :: "json \<Rightarrow> string \<Rightarrow> string option" where
  "dec_string JNull s = Some s"
| "dec_string (JStr t) s = Some t"
| "dec_string _ s = None"

fun dec_int64 :: "json \<Rightarrow> int \<Rightarrow> int option" where
  "dec_int64 JNull i = Some i"
| "dec_int64 (JInt n) i = (if - (2 ^ 63) \<le> n \<and> n < 2 ^ 63 then Some n else None)"
| "dec_int64 _ i = None"

fun dec_bool :: "json \<Rightarrow> bool \<Rightarrow> bool option" where
  "dec_bool JNull b = Some b"
| "dec_bool (JBool c) b = Some c"
| "dec_bool _ b = None"

text \<open>A slice is replaced; each new element is decoded into a zero value.\<close>

fun dec_all :: "(json \<Rightarrow> 'a option) \<Rightarrow> json list \<Rightarrow> 'a list option" where
  "dec_all d [] = Some []"
| "dec_all d (j # js) =
     (case d j of
        None \<Rightarrow> None
      | Some x \<Rightarrow> (case dec_all d js of None \<Rightarrow> None | Some xs \<Rightarrow> Some (x # xs)))"

fun dec_slice :: "(json \<Rightarrow> 'a option) \<Rightarrow> json \<Rightarrow> 'a list \<Rightarrow> 'a list option" where
  "dec_slice d JNull xs = Some []"
| "dec_slice d (JArr js) xs = dec_all d js"
| "dec_slice d _ xs = None"

type_synonym 'a field = "string \<times> (json \<Rightarrow> 'a \<Rightarrow> 'a option)"

definition find_field :: "(string \<times> 'd) list \<Rightarrow> string \<Rightarrow> 'd option" where
  "find_field fs k =
     (case map_of fs k of
        Some d \<Rightarrow> Some d
      | None \<Rightarrow> map_option snd (find (\<lambda>(n, d). fold_name n = fold_name k) fs))"

fun dec_fields :: "'a field list \<Rightarrow> (string \<times> json) list \<Rightarrow> 'a \<Rightarrow> 'a option" where
  "dec_fields fs [] a = Some a"
| "dec_fields fs ((k, v) # kvs) a =
     (case find_field fs k of
        None \<Rightarrow> dec_fields fs kvs a
      | Some d \<Rightarrow> (case d v a of None \<Rightarrow> None | Some a' \<Rightarrow> dec_fields fs kvs a'))"

fun dec_struct :: "'a field list \<Rightarrow> json \<Rightarrow> 'a \<Rightarrow> 'a option" where
  "dec_struct fs JNull a = Some a"
| "dec_struct fs (JObj kvs) a = dec_fields fs kvs a"
| "dec_struct fs _ a = None"

text \<open>A field of a record, read and updated.\<close>

definition field :: "(json \<Rightarrow> 'f \<Rightarrow> 'f option) \<Rightarrow> ('a \<Rightarrow> 'f) \<Rightarrow> ('f \<Rightarrow> 'a \<Rightarrow> 'a) \<Rightarrow> json \<Rightarrow> 'a \<Rightarrow> 'a option" where
  "field d get put v a = map_option (\<lambda>x. put x a) (d v (get a))"

text \<open>
  Decoding into a struct with fields that decode themselves: the error of such a field (\<open>Inl\<close>) ends
  the decoding, a type error (\<open>Inr None\<close>) is kept and reported as \<open>je\<close> at the end.
\<close>

type_synonym ('e, 'a) own_field = "string \<times> (json \<Rightarrow> 'a \<Rightarrow> 'e + 'a option)"

fun dec_own_fields :: "('e, 'a) own_field list \<Rightarrow> 'e \<Rightarrow> (string \<times> json) list \<Rightarrow> bool \<Rightarrow> 'a \<Rightarrow> 'e + 'a" where
  "dec_own_fields fs je [] bad a = (if bad then Inl je else Inr a)"
| "dec_own_fields fs je ((k, v) # kvs) bad a =
     (case find_field fs k of
        None \<Rightarrow> dec_own_fields fs je kvs bad a
      | Some d \<Rightarrow>
          (case d v a of
             Inl err \<Rightarrow> Inl err
           | Inr None \<Rightarrow> dec_own_fields fs je kvs True a
           | Inr (Some a) \<Rightarrow> dec_own_fields fs je kvs bad a))"

fun dec_own_struct :: "('e, 'a) own_field list \<Rightarrow> 'e \<Rightarrow> json \<Rightarrow> 'a \<Rightarrow> 'e + 'a" where
  "dec_own_struct fs je JNull a = Inr a"
| "dec_own_struct fs je (JObj kvs) a = dec_own_fields fs je kvs False a"
| "dec_own_struct fs je _ a = Inl je"

definition own :: "(json \<Rightarrow> 'e + 'f) \<Rightarrow> ('f \<Rightarrow> 'a \<Rightarrow> 'a) \<Rightarrow> json \<Rightarrow> 'a \<Rightarrow> 'e + 'a option" where
  "own d put v a = (case d v of Inl err \<Rightarrow> Inl err | Inr x \<Rightarrow> Inr (Some (put x a)))"

definition plain :: "(json \<Rightarrow> 'f \<Rightarrow> 'f option) \<Rightarrow> ('a \<Rightarrow> 'f) \<Rightarrow> ('f \<Rightarrow> 'a \<Rightarrow> 'a) \<Rightarrow> json \<Rightarrow> 'a \<Rightarrow> 'e + 'a option" where
  "plain d get put v a = Inr (field d get put v a)"

section \<open>Encoding\<close>

text \<open>An object of the fields that are present.\<close>

definition opt_field :: "bool \<Rightarrow> string \<Rightarrow> json \<Rightarrow> (string \<times> json) list" where
  "opt_field present k v = (if present then [(k, v)] else [])"

lemma dec_fields_append:
  "dec_fields fs (xs @ ys) a = Option.bind (dec_fields fs xs a) (dec_fields fs ys)"
  by (induction fs xs a rule: dec_fields.induct) (auto split: option.splits)

text \<open>A present field decodes to what \<open>d\<close> makes of its value, an omitted one leaves the record.\<close>

lemma dec_opt_field:
  assumes "find_field fs k = Some (field d get put)"
    and "present \<Longrightarrow> d v (get a) = Some x" and "\<not> present \<Longrightarrow> put x a = a"
  shows "dec_fields fs (opt_field present k v) a = Some (put x a)"
  using assms by (cases present) (simp_all add: opt_field_def field_def)

lemma dec_all_map: "(\<And>x. x \<in> set xs \<Longrightarrow> d (e x) = Some x) \<Longrightarrow> dec_all d (map e xs) = Some xs"
  by (induction xs) auto

section \<open>Base64\<close>

definition b64_alphabet :: string where
  "b64_alphabet = ''ABCDEFGHIJKLMNOPQRSTUVWXYZabcdefghijklmnopqrstuvwxyz0123456789+/''"

definition b64_char :: "nat \<Rightarrow> char" where
  "b64_char n = b64_alphabet ! n"

definition b64_value :: "char \<Rightarrow> nat option" where
  "b64_value c = (let i = length (takeWhile (\<lambda>d. d \<noteq> c) b64_alphabet) in if i < 64 then Some i else None)"

fun b64_encode :: "byte list \<Rightarrow> string" where
  "b64_encode [] = ''''"
| "b64_encode [a] =
     [b64_char (unat a div 4), b64_char (unat a mod 4 * 16), CHR ''='', CHR ''='']"
| "b64_encode [a, b] =
     [b64_char (unat a div 4), b64_char (unat a mod 4 * 16 + unat b div 16),
      b64_char (unat b mod 16 * 4), CHR ''='']"
| "b64_encode (a # b # c # bs) =
     [b64_char (unat a div 4), b64_char (unat a mod 4 * 16 + unat b div 16),
      b64_char (unat b mod 16 * 4 + unat c div 64), b64_char (unat c mod 64)] @ b64_encode bs"

text \<open>The non-strict standard decoder: line breaks are skipped, padding ends the data.\<close>

fun b64_quads :: "string \<Rightarrow> byte list option" where
  "b64_quads [] = Some []"
| "b64_quads (p # q # r # s # cs) =
     (case (b64_value p, b64_value q) of
        (Some i, Some j) \<Rightarrow>
          if r = CHR ''='' then
            (if s = CHR ''='' \<and> cs = [] then Some [of_nat (i * 4 + j div 16)] else None)
          else (case b64_value r of
            None \<Rightarrow> None
          | Some k \<Rightarrow>
              if s = CHR ''='' then
                (if cs = [] then Some [of_nat (i * 4 + j div 16), of_nat (j mod 16 * 16 + k div 4)] else None)
              else (case b64_value s of
                None \<Rightarrow> None
              | Some l \<Rightarrow>
                  map_option (\<lambda>bs. of_nat (i * 4 + j div 16) # of_nat (j mod 16 * 16 + k div 4)
                                    # of_nat (k mod 4 * 64 + l) # bs) (b64_quads cs)))
      | _ \<Rightarrow> None)"
| "b64_quads _ = None"

definition b64_decode :: "string \<Rightarrow> byte list option" where
  "b64_decode s = b64_quads (filter (\<lambda>c. c \<noteq> CHR 0x0A \<and> c \<noteq> CHR 0x0D) s)"

fun dec_bytes :: "json \<Rightarrow> byte list \<Rightarrow> byte list option" where
  "dec_bytes JNull bs = Some []"
| "dec_bytes (JStr s) bs = b64_decode s"
| "dec_bytes _ bs = None"

lemma b64_alphabet_facts: "length b64_alphabet = 64" "distinct b64_alphabet"
  "CHR ''='' \<notin> set b64_alphabet" "CHR 0x0A \<notin> set b64_alphabet" "CHR 0x0D \<notin> set b64_alphabet"
  by (simp_all add: b64_alphabet_def)

lemma b64_char_in: "n < 64 \<Longrightarrow> b64_char n \<in> set b64_alphabet"
  by (simp add: b64_char_def b64_alphabet_facts)

lemma takeWhile_index:
  "distinct xs \<Longrightarrow> n < length xs \<Longrightarrow> length (takeWhile (\<lambda>d. d \<noteq> xs ! n) xs) = n"
  by (induction xs arbitrary: n) (auto simp: nth_Cons split: nat.splits)

lemma b64_value_char [simp]: "n < 64 \<Longrightarrow> b64_value (b64_char n) = Some n"
  by (simp add: b64_value_def b64_char_def takeWhile_index b64_alphabet_facts)

lemma b64_char_neq [simp]: "n < 64 \<Longrightarrow> b64_char n \<noteq> CHR ''=''" "n < 64 \<Longrightarrow> b64_char n \<noteq> CHR 0x0A"
  "n < 64 \<Longrightarrow> b64_char n \<noteq> CHR 0x0D"
  using b64_char_in b64_alphabet_facts by metis+

lemma unat_byte: "unat (a :: byte) < 256"
  by (rule less_le_trans [OF unsigned_less]) simp

lemma digit_pair: "z < k \<Longrightarrow> (m * k + z) div k = m" "z < k \<Longrightarrow> (m * k + z) mod k = z" for m :: nat
  by simp_all

lemma small_quotients:
  "unat (a :: byte) div 4 < 64" "unat a div 16 < 16" "unat a div 64 < 4" "unat a mod 4 < 4" "unat a mod 16 < 16"
  using unat_byte [of a] by (simp_all add: less_mult_imp_div_less)

lemma b64_digits:
  "unat (a :: byte) div 4 < 64" "unat a mod 4 * 16 + unat (b :: byte) div 16 < 64" "unat a mod 4 * 16 < 64"
  "unat b mod 16 * 4 + unat (c :: byte) div 64 < 64" "unat b mod 16 * 4 < 64" "unat c mod 64 < 64"
proof -
  note q = small_quotients [of a] small_quotients [of b] small_quotients [of c]
  show "unat a div 4 < 64" "unat c mod 64 < 64" using q(1) by simp_all
  show "unat a mod 4 * 16 + unat b div 16 < 64" "unat a mod 4 * 16 < 64" using q(4,7) by linarith+
  show "unat b mod 16 * 4 + unat c div 64 < 64" "unat b mod 16 * 4 < 64" using q(10,13) by linarith+
qed

lemma b64_bytes:
  "unat (a :: byte) div 4 * 4 + (unat a mod 4 * 16 + unat (b :: byte) div 16) div 16 = unat a"
  "(unat a mod 4 * 16 + unat b div 16) mod 16 * 16 + (unat b mod 16 * 4 + unat (c :: byte) div 64) div 4 = unat b"
  "(unat b mod 16 * 4 + unat c div 64) mod 4 * 64 + unat c mod 64 = unat c"
  by (simp_all only: digit_pair small_quotients div_mult_mod_eq)

lemma b64_encode_clean: "filter (\<lambda>c. c \<noteq> CHR 0x0A \<and> c \<noteq> CHR 0x0D) (b64_encode bs) = b64_encode bs"
  by (induction bs rule: b64_encode.induct) (simp_all only: b64_encode.simps filter.simps filter_append append.simps b64_digits b64_char_neq simp_thms if_True, simp_all)

lemma b64_quads_encode: "b64_quads (b64_encode bs) = Some bs"
proof (induction bs rule: b64_encode.induct)
  case (2 a)
  show ?case using b64_bytes(1) [of a 0] by (simp add: b64_digits)
next
  case (3 a b)
  show ?case using b64_bytes(1) [of a b] b64_bytes(2) [of a b 0] by (simp add: b64_digits)
next
  case (4 a b c bs)
  then show ?case using b64_bytes(1) [of a b] b64_bytes(2) [of a b c] b64_bytes(3) [of b c]
    by (simp add: b64_digits)
qed simp

lemma b64_round_trip: "b64_decode (b64_encode bs) = Some bs"
  by (simp add: b64_decode_def b64_encode_clean b64_quads_encode)

end
