(* ===== verification/Http.thy ===== *)
theory Http
  imports App Json
begin

text \<open>
  What the code uses of \<open>net/http\<close>, \<open>net/url\<close> and \<open>http.ServeMux\<close>: requests, responses and handlers over
  the state of the program, the segments of a cleaned path, and the values of a form.
\<close>

section \<open>Requests and responses\<close>

text \<open>\<open>hr_header\<close> is \<open>Header.Get\<close>, empty when the header is absent; \<open>hr_path\<close> is the path as it
  was sent, escapes included, \<open>hr_query\<close> the raw query; \<open>hr_body\<close> are the bytes sent.\<close>

record request =
  hr_method :: string
  hr_path :: string
  hr_query :: string
  hr_header :: "string \<Rightarrow> string"
  hr_body :: "byte list"

record response =
  rs_status :: int
  rs_headers :: "(string \<times> string) list"
  rs_body :: "byte list"

text \<open>A handler that panics aborts the connection: there is no response.\<close>

type_synonym 'w handler = "request \<Rightarrow> 'w \<Rightarrow> response res \<times> 'w"

definition bytes :: "string \<Rightarrow> byte list" where
  "bytes s = map (\<lambda>c. of_nat (of_char c)) s"

definition chars :: "byte list \<Rightarrow> string" where
  "chars bs = map (\<lambda>b. char_of (unat b)) bs"

lemma length_bytes [simp]: "length (bytes s) = length s"
  by (simp add: bytes_def)

lemma chars_bytes [simp]: "chars (bytes s) = s"
proof -
  have "char_of (unat (of_nat (of_char c) :: byte)) = c" for c
    using nat_of_char_less_256 [of c] by (simp add: unsigned_of_nat take_bit_nat_eq_self)
  then show ?thesis by (simp add: chars_def bytes_def map_idI)
qed

definition http_Error :: "(string \<times> string) list \<Rightarrow> string \<Rightarrow> int \<Rightarrow> response" where
  "http_Error hs msg code =
     \<lparr>rs_status = code,
      rs_headers = hs @ [(''Content-Type'', ''text/plain; charset=utf-8''), (''X-Content-Type-Options'', ''nosniff'')],
      rs_body = bytes (msg @ [CHR 0x0A])\<rparr>"

definition lower :: "string \<Rightarrow> string" where
  "lower s = map (\<lambda>c. if (of_char c :: nat) \<in> {65..90} then char_of (of_char c + 32 :: nat) else c) s"

text \<open>\<open>strings.Cut(s, sep)\<close> for a one-byte separator: what is before and after its first occurrence.\<close>

fun cut :: "char \<Rightarrow> string \<Rightarrow> (string \<times> string) option" where
  "cut sep [] = None"
| "cut sep (c # cs) = (if c = sep then Some ([], cs) else map_option (apfst (Cons c)) (cut sep cs))"

lemma cut_append: "sep \<notin> set a \<Longrightarrow> cut sep (a @ sep # b) = Some (a, b)"
  by (induction a) auto

lemma cut_SomeD: "cut sep s = Some (a, b) \<Longrightarrow> s = a @ sep # b \<and> sep \<notin> set a"
proof (induction s arbitrary: a)
  case (Cons c cs)
  then show ?case by (cases "c = sep") (auto split: if_splits)
qed simp

lemma cut_Some: "cut sep s = Some (a, b) \<longleftrightarrow> s = a @ sep # b \<and> sep \<notin> set a"
  using cut_append cut_SomeD by blast

text \<open>\<open>Header().Set\<close> on the headers a response has so far.\<close>

definition set_header :: "string \<Rightarrow> string \<Rightarrow> (string \<times> string) list \<Rightarrow> (string \<times> string) list" where
  "set_header k v hs = filter (\<lambda>(k', _). k' \<noteq> k) hs @ [(k, v)]"

section \<open>Escapes\<close>

definition hex_value :: "char \<Rightarrow> nat option" where
  "hex_value c =
     (let n = of_char c in
      if 48 \<le> n \<and> n \<le> 57 then Some (n - 48)
      else if 65 \<le> n \<and> n \<le> 70 then Some (n - 55)
      else if 97 \<le> n \<and> n \<le> 102 then Some (n - 87)
      else None)"

text \<open>\<open>url.PathUnescape\<close> and, with \<open>form\<close>, \<open>url.QueryUnescape\<close>.\<close>

fun unescape :: "bool \<Rightarrow> string \<Rightarrow> goerr + string" where
  "unescape form [] = Inr []"
| "unescape form (c # cs) =
     (if c = CHR ''%'' then
        (case cs of
           a # b # ds \<Rightarrow>
             (case (hex_value a, hex_value b) of
                (Some i, Some j) \<Rightarrow>
                  (case unescape form ds of Inl e \<Rightarrow> Inl e | Inr s \<Rightarrow> Inr (char_of (16 * i + j) # s))
              | _ \<Rightarrow> Inl (errorf ''invalid URL escape %q'' [FStr [c, a, b]]))
         | _ \<Rightarrow> Inl (errorf ''invalid URL escape %q'' [FStr (c # cs)]))
      else (case unescape form cs of
              Inl e \<Rightarrow> Inl e
            | Inr s \<Rightarrow> Inr ((if form \<and> c = CHR ''+'' then CHR '' '' else c) # s)))"

definition upper_hex :: "nat \<Rightarrow> char" where
  "upper_hex n = char_of (if n < 10 then 48 + n else 55 + n)"

definition unreserved :: "char \<Rightarrow> bool" where
  "unreserved c \<longleftrightarrow> (let n = of_char c :: nat in 48 \<le> n \<and> n \<le> 57 \<or> 65 \<le> n \<and> n \<le> 90 \<or> 97 \<le> n \<and> n \<le> 122)
     \<or> c \<in> {CHR ''-'', CHR ''_'', CHR ''.'', CHR ''~''}"

text \<open>\<open>url.QueryEscape\<close>.\<close>

definition QueryEscape :: "string \<Rightarrow> string" where
  "QueryEscape s = concat (map (\<lambda>c.
     if unreserved c then [c] else if c = CHR '' '' then ''+''
     else [CHR ''%'', upper_hex (of_char c div 16), upper_hex (of_char c mod 16)]) s)"

lemma hex_upper [simp]: "n < 16 \<Longrightarrow> hex_value (upper_hex n) = Some n"
proof -
  assume "n < 16"
  moreover have "\<forall>n \<in> {..<16}. hex_value (upper_hex n) = Some n"
    by (simp add: lessThan_nat_numeral lessThan_Suc hex_value_def upper_hex_def Let_def of_char_of)
  ultimately show ?thesis by blast
qed

lemma unescape_QueryEscape: "unescape True (QueryEscape s) = Inr s"
proof (induction s)
  case (Cons c s)
  have n: "of_char c div 16 < (16 :: nat)" using nat_of_char_less_256 [of c] by (simp add: less_mult_imp_div_less)
  have u: "c \<noteq> CHR ''%'' \<and> c \<noteq> CHR ''+''" if "unreserved c" using that by (auto simp: unreserved_def)
  from Cons show ?case
    using n u by (auto simp: QueryEscape_def)
qed (simp add: QueryEscape_def)

lemma QueryEscape_chars:
  "d \<in> set (QueryEscape s) \<Longrightarrow> unreserved d \<or> d \<in> {CHR ''+'', CHR ''%''} \<or> (\<exists>n < 16. d = upper_hex n)"
proof -
  assume "d \<in> set (QueryEscape s)"
  then obtain c where c: "unreserved d \<or> d = CHR ''+'' \<or> d = CHR ''%''
      \<or> d = upper_hex (of_char c div 16) \<or> d = upper_hex (of_char c mod 16)"
    by (auto simp: QueryEscape_def split: if_splits)
  have "of_char c div 16 < (16 :: nat)" "of_char c mod 16 < (16 :: nat)"
    using nat_of_char_less_256 [of c] by (simp_all add: less_mult_imp_div_less)
  with c show ?thesis by blast
qed

lemma QueryEscape_clean:
  assumes "d \<in> {CHR ''&'', CHR '';'', CHR ''=''}"
  shows "d \<notin> set (QueryEscape s)"
proof -
  have "list_all (\<lambda>n. upper_hex n \<notin> {CHR ''&'', CHR '';'', CHR ''=''}) [0..<16]" by code_simp
  then have "d \<noteq> upper_hex n" if "n < 16" for n using assms that by (auto simp: list_all_iff)
  moreover have "\<not> unreserved d" "d \<noteq> CHR ''+''" "d \<noteq> CHR ''%''" using assms by (auto simp: unreserved_def)
  ultimately show ?thesis using QueryEscape_chars [of d s] by blast
qed

section \<open>Routing\<close>

text \<open>\<open>cleanPath\<close> of \<open>net/http\<close>: rooted, without empty, dot and dot-dot segments, a final slash kept.\<close>

definition cleanPath :: "string \<Rightarrow> string" where
  "cleanPath p =
     (let p = (if p = '''' \<or> hd p \<noteq> CHR ''/'' then CHR ''/'' # p else p); np = path_clean p
      in if last p = CHR ''/'' \<and> np \<noteq> ''/'' then np @ ''/'' else np)"

text \<open>
  The path a \<open>ServeMux\<close> matches: the cleaned one, and for \<open>CONNECT\<close>, which is not canonicalized, the
  request's own.
\<close>

definition mux_path :: "request \<Rightarrow> string" where
  "mux_path r = (if hr_method r = ''CONNECT'' then hr_path r else cleanPath (hr_path r))"

text \<open>
  The segments of a rooted path, unescaped one by one; a segment that cannot be unescaped is kept.  A
  final slash is an empty last segment.
\<close>

definition path_segs :: "string \<Rightarrow> string list" where
  "path_segs p = map (\<lambda>s. case unescape False s of Inl _ \<Rightarrow> s | Inr t \<Rightarrow> t) (split_on (CHR ''/'') (tl p))"

definition not_found_page :: response where
  "not_found_page = http_Error [] ''404 page not found'' 404"

definition not_allowed :: "string \<Rightarrow> response" where
  "not_allowed allow = http_Error [(''Allow'', allow)] ''Method Not Allowed'' 405"

text \<open>A \<open>GET\<close> pattern also serves \<open>HEAD\<close>.\<close>

definition is_get :: "request \<Rightarrow> bool" where
  "is_get r \<longleftrightarrow> hr_method r \<in> {''GET'', ''HEAD''}"

section \<open>Forms\<close>

text \<open>\<open>url.ParseQuery\<close>: the pairs that parse, and an error if some do not.\<close>

fun parse_pairs :: "string list \<Rightarrow> goerr option \<Rightarrow> (string \<times> string) list \<times> goerr option" where
  "parse_pairs [] err = ([], err)"
| "parse_pairs (p # ps) err =
     (if CHR '';'' \<in> set p then parse_pairs ps (Some (Leaf ''invalid semicolon separator in query''))
      else if p = '''' then parse_pairs ps err
      else
        let (k, v) = (case cut (CHR ''='') p of None \<Rightarrow> (p, '''') | Some kv \<Rightarrow> kv) in
        (case unescape True k of
           Inl e \<Rightarrow> parse_pairs ps (if err = None then Some e else err)
         | Inr k \<Rightarrow>
             (case unescape True v of
                Inl e \<Rightarrow> parse_pairs ps (if err = None then Some e else err)
              | Inr v \<Rightarrow> apfst (Cons (k, v)) (parse_pairs ps err))))"

definition ParseQuery :: "string \<Rightarrow> (string \<times> string) list \<times> goerr option" where
  "ParseQuery s = parse_pairs (split_on (CHR ''&'') s) None"

text \<open>
  \<open>(*Request).ParseForm\<close> with a body behind \<open>MaxBytesReader\<close>: the values of the body come before those
  of the query.  \<open>media\<close> is \<open>mime.ParseMediaType\<close>.
\<close>

definition ParseForm ::
  "(string \<Rightarrow> string \<times> goerr option) \<Rightarrow> nat \<Rightarrow> request \<Rightarrow> (string \<times> string) list \<times> goerr option" where
  "ParseForm media maxBytes r =
     (let post = (if hr_method r \<in> {''POST'', ''PUT'', ''PATCH''} then
            (case media (if hr_header r ''Content-Type'' = '''' then ''application/octet-stream''
                         else hr_header r ''Content-Type'') of (ct, err) \<Rightarrow>
               if ct = ''application/x-www-form-urlencoded'' then
                 (if length (hr_body r) > maxBytes
                  then ([], if err = None then Some (Leaf ''http: request body too large'') else err)
                  else (case ParseQuery (chars (hr_body r)) of (vs, e) \<Rightarrow> (vs, if err = None then e else err)))
               else ([], err))
          else ([], None));
        query = ParseQuery (hr_query r)
      in (fst post @ fst query, if snd post = None then snd query else snd post))"

text \<open>\<open>FormValue\<close> and \<open>Query().Get\<close>: the first value, or empty.\<close>

definition form_value :: "(string \<times> string) list \<Rightarrow> string \<Rightarrow> string" where
  "form_value vs k = (case map_of vs k of None \<Rightarrow> '''' | Some v \<Rightarrow> v)"

lemma split_on_single: "c \<notin> set s \<Longrightarrow> split_on c s = [s]"
  by (induction s) auto

lemma ParseQuery_pair:
  assumes "set (k @ v) \<inter> {CHR ''&'', CHR '';''} = {}" "CHR ''='' \<notin> set k" "unescape True k = Inr k'" "unescape True v = Inr v'"
  shows "ParseQuery (k @ ''='' @ v) = ([(k', v')], None)"
proof -
  have "split_on (CHR ''&'') (k @ ''='' @ v) = [k @ ''='' @ v]" using assms(1) by (intro split_on_single) auto
  moreover have "CHR '';'' \<notin> set (k @ ''='' @ v)" using assms(1) by auto
  moreover have "cut (CHR ''='') (k @ ''='' @ v) = Some (k, v)" using cut_append [OF assms(2), of v] by simp
  ultimately show ?thesis using assms(3,4) by (simp add: ParseQuery_def)
qed

text \<open>What a value is written as in a query is read back from it.\<close>

lemma ParseQuery_escaped:
  "ParseQuery (QueryEscape k @ ''='' @ QueryEscape v) = ([(k, v)], None)"
  using QueryEscape_clean by (intro ParseQuery_pair) (auto simp: unescape_QueryEscape)

lemma form_value_mem: "form_value vs k \<noteq> '''' \<Longrightarrow> form_value vs k \<in> snd ` set vs"
  by (auto simp: form_value_def dest: map_of_SomeD split: option.splits intro: rev_image_eqI)

end
