(* ===== verification/Auth.thy ===== *)
theory Auth
  imports Config Http
begin

text \<open>
  Package \<open>internal/auth\<close>: the shared token and the two middlewares that guard a handler with it.  \<open>subtle.ConstantTimeCompare\<close> is equality of byte strings (its timing is not modelled).
\<close>

section \<open>The token\<close>

definition tokensEqual :: "string \<Rightarrow> string \<Rightarrow> bool" where
  "tokensEqual supplied expected = (if expected = '''' then False else supplied = expected)"

text \<open>\<open>strings.TrimRight(s, " \t\r\n")\<close>.\<close>

definition trim_right :: "string \<Rightarrow> string" where
  "trim_right s = rev (dropWhile (\<lambda>c. c \<in> {CHR '' '', CHR 0x09, CHR 0x0D, CHR 0x0A}) (rev s))"

definition resolve_error :: "kind \<Rightarrow> goerr \<Rightarrow> goerr" where
  "resolve_error k e = wrap k ''auth.ResolveToken'' (Some e)"

text \<open>\<open>env\<close> is \<open>os.LookupEnv(EnvToken)\<close>.\<close>

definition ResolveToken :: "string option \<Rightarrow> 'w fsys \<Rightarrow> auth_config \<Rightarrow> 'w \<Rightarrow> goerr + string" where
  "ResolveToken env fs cfg w =
     (if \<not> ac_enabled cfg then Inr ''''
      else case env of
        Some tok \<Rightarrow>
          if tok = '''' then Inl (resolve_error KindValidation (Leaf ''RECEIPTD_AUTH_TOKEN is set but empty''))
          else Inr tok
      | None \<Rightarrow>
          if ac_token_file cfg = ''''
          then Inl (resolve_error KindValidation
                 (Leaf ''auth enabled but no token source configured (RECEIPTD_AUTH_TOKEN or auth.token_file)''))
          else (case fs_read_file fs (ac_token_file cfg) w of
                  Inl err \<Rightarrow>
                    if oe_not_exist err then Inl (resolve_error KindNotFound (oe_error err))
                    else Inl (resolve_error KindPermanent (oe_error err))
                | Inr data \<Rightarrow>
                    let tok = trim_right (chars data) in
                    if tok = '''' then Inl (resolve_error KindValidation (Leaf ''token file is empty''))
                    else Inr tok))"

section \<open>The middlewares\<close>

definition bearerCredential :: "request \<Rightarrow> string option" where
  "bearerCredential r =
     (case cut (CHR '' '') (hr_header r ''Authorization'') of
        None \<Rightarrow> None
      | Some (scheme, credential) \<Rightarrow> if lower scheme = ''bearer'' then Some credential else None)"

definition unauthorized :: "string \<Rightarrow> response" where
  "unauthorized challenge = http_Error [(''WWW-Authenticate'', challenge)] ''Unauthorized'' 401"

definition Bearer :: "string \<Rightarrow> 'w handler \<Rightarrow> 'w handler" where
  "Bearer token nxt r w =
     (case bearerCredential r of
        Some supplied \<Rightarrow> if tokensEqual supplied token then nxt r w else (Val (unauthorized ''Bearer''), w)
      | None \<Rightarrow> (Val (unauthorized ''Bearer''), w))"

text \<open>\<open>(*Request).BasicAuth\<close>: the user name and the password of the decoded credentials.\<close>

definition basicAuth :: "request \<Rightarrow> (string \<times> string) option" where
  "basicAuth r =
     (let auth = hr_header r ''Authorization'' in
      if length auth < 6 \<or> lower (take 6 auth) \<noteq> ''basic '' then None
      else case b64_decode (drop 6 auth) of
        None \<Rightarrow> None
      | Some bs \<Rightarrow> cut (CHR '':'') (chars bs))"

definition basic_challenge :: string where
  "basic_challenge = ''Basic realm='' @ [CHR 0x22] @ ''Receiptd'' @ [CHR 0x22]"

definition Basic :: "string \<Rightarrow> 'w handler \<Rightarrow> 'w handler" where
  "Basic token nxt r w =
     (case basicAuth r of
        Some (username, password) \<Rightarrow>
          if username \<noteq> '''' \<and> tokensEqual password token then nxt r w else (Val (unauthorized basic_challenge), w)
      | None \<Rightarrow> (Val (unauthorized basic_challenge), w))"

section \<open>Properties\<close>

lemma ResolveToken_Inr: "ResolveToken env fs cfg w = Inr tok \<Longrightarrow> ac_enabled cfg \<Longrightarrow> tok \<noteq> ''''"
  by (auto simp: ResolveToken_def Let_def split: option.splits sum.splits if_splits)

text \<open>The credentials that open each gate.\<close>

definition bearer_header :: "string \<Rightarrow> string \<Rightarrow> bool" where
  "bearer_header token h \<longleftrightarrow> (\<exists>scheme. h = scheme @ '' '' @ token \<and> CHR '' '' \<notin> set scheme \<and> lower scheme = ''bearer'')"

definition basic_header :: "string \<Rightarrow> string \<Rightarrow> bool" where
  "basic_header token h \<longleftrightarrow>
     (\<exists>scheme cred bs user. h = scheme @ cred \<and> length scheme = 6 \<and> lower scheme = ''basic '' \<and> b64_decode cred = Some bs
        \<and> chars bs = user @ '':'' @ token \<and> CHR '':'' \<notin> set user \<and> user \<noteq> '''')"

lemma auth_gates:
  "Bearer token nxt r w =
     (if token \<noteq> '''' \<and> bearer_header token (hr_header r ''Authorization'') then nxt r w
      else (Val (unauthorized ''Bearer''), w))
   \<and> Basic token nxt r w =
     (if token \<noteq> '''' \<and> basic_header token (hr_header r ''Authorization'') then nxt r w
      else (Val (unauthorized basic_challenge), w))"
proof -
  let ?h = "hr_header r ''Authorization''"
  have "(\<exists>supplied. bearerCredential r = Some supplied \<and> tokensEqual supplied token)
      \<longleftrightarrow> token \<noteq> '''' \<and> bearer_header token ?h"
  proof
    assume "\<exists>supplied. bearerCredential r = Some supplied \<and> tokensEqual supplied token"
    then show "token \<noteq> '''' \<and> bearer_header token ?h"
      by (auto simp: bearerCredential_def bearer_header_def tokensEqual_def dest!: cut_SomeD split: option.splits if_splits)
  next
    assume "token \<noteq> '''' \<and> bearer_header token ?h"
    then show "\<exists>supplied. bearerCredential r = Some supplied \<and> tokensEqual supplied token"
      by (auto simp: bearerCredential_def bearer_header_def tokensEqual_def cut_append)
  qed
  then have "Bearer token nxt r w =
      (if token \<noteq> '''' \<and> bearer_header token ?h then nxt r w else (Val (unauthorized ''Bearer''), w))"
    by (auto simp: Bearer_def split: option.split)
  moreover have "(\<exists>u p. basicAuth r = Some (u, p) \<and> u \<noteq> '''' \<and> tokensEqual p token)
      \<longleftrightarrow> token \<noteq> '''' \<and> basic_header token ?h"
  proof
    assume "\<exists>u p. basicAuth r = Some (u, p) \<and> u \<noteq> '''' \<and> tokensEqual p token"
    then obtain u where c: "basicAuth r = Some (u, token)" "u \<noteq> ''''" "token \<noteq> ''''"
      by (auto simp: tokensEqual_def split: if_splits)
    then obtain bs where "\<not> length ?h < 6" "lower (take 6 ?h) = ''basic ''" "b64_decode (drop 6 ?h) = Some bs"
      "cut (CHR '':'') (chars bs) = Some (u, token)"
      by (auto simp: basicAuth_def Let_def split: option.splits if_splits)
    with c show "token \<noteq> '''' \<and> basic_header token ?h"
      unfolding basic_header_def
      by (intro conjI exI [of _ "take 6 ?h"] exI [of _ "drop 6 ?h"] exI [of _ bs] exI [of _ u])
        (auto dest: cut_SomeD)
  next
    assume "token \<noteq> '''' \<and> basic_header token ?h"
    then show "\<exists>u p. basicAuth r = Some (u, p) \<and> u \<noteq> '''' \<and> tokensEqual p token"
      by (auto simp: basic_header_def basicAuth_def tokensEqual_def cut_append)
  qed
  then have "Basic token nxt r w =
      (if token \<noteq> '''' \<and> basic_header token ?h then nxt r w else (Val (unauthorized basic_challenge), w))"
    by (auto simp: Basic_def split: option.split)
  ultimately show ?thesis by blast
qed

text \<open>
  (C13) The gates are exact: behind \<open>Bearer\<close> and \<open>Basic\<close> the guarded handler runs exactly when the token is
  not empty and the header carries it under the scheme; any other request gets one fixed 401
  response, which depends on neither the token nor the request, and changes nothing.
\<close>

theorem auth_gates_exact:
  "Bearer token nxt r w =
     (if token \<noteq> '''' \<and> bearer_header token (hr_header r ''Authorization'') then nxt r w
      else (Val (unauthorized ''Bearer''), w))
   \<and> Basic token nxt r w =
     (if token \<noteq> '''' \<and> basic_header token (hr_header r ''Authorization'') then nxt r w
      else (Val (unauthorized basic_challenge), w))"
  by (rule auth_gates)

end
