(* ===== verification/ReceiptJson.thy ===== *)
theory ReceiptJson
  imports Receipt Json
begin

text \<open>
  The wire form of a receipt (\<open>receipt/registry.go\<close> and the \<open>MarshalJSON\<close>, \<open>UnmarshalJSON\<close> and
  \<open>init\<close> of every element type): a discriminated union on the \<open>type\<close> field, decoded through the
  registry with a bound on the nesting of columns.  \<open>je\<close> is the error of \<open>encoding/json\<close>, whose text
  is left open.  A nil and an empty slice are the same list here.
\<close>

section \<open>Fields\<close>

abbreviation "zero_text \<equiv> \<lparr>t_content = '''', t_align = '''', t_bold = False, t_italic = False,
  t_underline = False, t_strikethrough = False, t_size = 0\<rparr>"

definition text_fields :: "text_el field list" where
  "text_fields =
     [(''content'', field dec_string t_content (\<lambda>x. t_content_update (\<lambda>_. x))),
      (''align'', field dec_string t_align (\<lambda>x. t_align_update (\<lambda>_. x))),
      (''bold'', field dec_bool t_bold (\<lambda>x. t_bold_update (\<lambda>_. x))),
      (''italic'', field dec_bool t_italic (\<lambda>x. t_italic_update (\<lambda>_. x))),
      (''underline'', field dec_bool t_underline (\<lambda>x. t_underline_update (\<lambda>_. x))),
      (''strikethrough'', field dec_bool t_strikethrough (\<lambda>x. t_strikethrough_update (\<lambda>_. x))),
      (''size'', field dec_int64 t_size (\<lambda>x. t_size_update (\<lambda>_. x)))]"

definition divider_fields :: "divider_el field list" where
  "divider_fields =
     [(''style'', field dec_string d_style (\<lambda>x. d_style_update (\<lambda>_. x))),
      (''size'', field dec_int64 d_size (\<lambda>x. d_size_update (\<lambda>_. x)))]"

definition asset_fields :: "asset_el field list" where
  "asset_fields =
     [(''name'', field dec_string a_name (\<lambda>x. a_name_update (\<lambda>_. x))),
      (''width'', field dec_int64 a_width (\<lambda>x. a_width_update (\<lambda>_. x))),
      (''align'', field dec_string a_align (\<lambda>x. a_align_update (\<lambda>_. x)))]"

definition qrcode_fields :: "qrcode_el field list" where
  "qrcode_fields =
     [(''content'', field dec_string q_content (\<lambda>x. q_content_update (\<lambda>_. x))),
      (''size'', field dec_int64 q_size (\<lambda>x. q_size_update (\<lambda>_. x))),
      (''error_correction'', field dec_string q_error_correction (\<lambda>x. q_error_correction_update (\<lambda>_. x)))]"

definition barcode_fields :: "barcode_el field list" where
  "barcode_fields =
     [(''content'', field dec_string b_content (\<lambda>x. b_content_update (\<lambda>_. x))),
      (''symbology'', field dec_string b_symbology (\<lambda>x. b_symbology_update (\<lambda>_. x))),
      (''height'', field dec_int64 b_height (\<lambda>x. b_height_update (\<lambda>_. x))),
      (''show_text'', field dec_bool b_show_text (\<lambda>x. b_show_text_update (\<lambda>_. x)))]"

definition dec_texts :: "json \<Rightarrow> string list \<Rightarrow> string list option" where
  "dec_texts = dec_slice (\<lambda>j. dec_string j '''')"

definition table_fields :: "table_el field list" where
  "table_fields =
     [(''headers'', field dec_texts tb_headers (\<lambda>x. tb_headers_update (\<lambda>_. x))),
      (''rows'', field (dec_slice (\<lambda>j. dec_texts j [])) tb_rows (\<lambda>x. tb_rows_update (\<lambda>_. x)))]"

definition item_fields :: "list_item field list" where
  "item_fields =
     [(''content'', field dec_string li_content (\<lambda>x. li_content_update (\<lambda>_. x))),
      (''checked'', field dec_bool li_checked (\<lambda>x. li_checked_update (\<lambda>_. x))),
      (''indent'', field dec_int64 li_indent (\<lambda>x. li_indent_update (\<lambda>_. x)))]"

definition decode_item :: "json \<Rightarrow> list_item option" where
  "decode_item j = dec_struct item_fields j \<lparr>li_content = '''', li_checked = False, li_indent = 0\<rparr>"

definition list_fields :: "list_el field list" where
  "list_fields =
     [(''kind'', field dec_string l_kind (\<lambda>x. l_kind_update (\<lambda>_. x))),
      (''items'', field (dec_slice decode_item) l_items (\<lambda>x. l_items_update (\<lambda>_. x)))]"

text \<open>An element type with a single field.\<close>

definition one_field :: "string \<Rightarrow> (json \<Rightarrow> 'a \<Rightarrow> 'a option) \<Rightarrow> 'a field list" where
  "one_field k d = [(k, field d (\<lambda>x. x) (\<lambda>x _. x))]"

section \<open>Decoding\<close>

definition maxElementDepth :: int where
  "maxElementDepth = 32"

text \<open>The decoders registered by the element types' \<open>init\<close>, columns apart.\<close>

definition text_decoder :: "json \<Rightarrow> element option" where
  "text_decoder j = map_option EText (dec_struct text_fields j zero_text)"

definition heading_decoder :: "json \<Rightarrow> element option" where
  "heading_decoder j = map_option EHeading (dec_struct (one_field ''content'' dec_string) j '''')"

definition divider_decoder :: "json \<Rightarrow> element option" where
  "divider_decoder j = map_option EDivider (dec_struct divider_fields j \<lparr>d_style = '''', d_size = 0\<rparr>)"

definition spacer_decoder :: "json \<Rightarrow> element option" where
  "spacer_decoder j = map_option ESpacer (dec_struct (one_field ''height'' dec_int64) j 0)"

definition image_decoder :: "json \<Rightarrow> element option" where
  "image_decoder j = map_option EImage (dec_struct (one_field ''data'' dec_bytes) j [])"

definition asset_decoder :: "json \<Rightarrow> element option" where
  "asset_decoder j = map_option EAsset (dec_struct asset_fields j \<lparr>a_name = '''', a_width = 0, a_align = ''''\<rparr>)"

definition qrcode_decoder :: "json \<Rightarrow> element option" where
  "qrcode_decoder j = map_option EQRCode (dec_struct qrcode_fields j \<lparr>q_content = '''', q_size = 0, q_error_correction = ''''\<rparr>)"

definition barcode_decoder :: "json \<Rightarrow> element option" where
  "barcode_decoder j = map_option EBarcode (dec_struct barcode_fields j \<lparr>b_content = '''', b_symbology = '''', b_height = 0, b_show_text = False\<rparr>)"

definition table_decoder :: "json \<Rightarrow> element option" where
  "table_decoder j = map_option ETable (dec_struct table_fields j \<lparr>tb_headers = [], tb_rows = []\<rparr>)"

definition list_decoder :: "json \<Rightarrow> element option" where
  "list_decoder j = map_option EList (dec_struct list_fields j \<lparr>l_kind = '''', l_items = []\<rparr>)"

definition feed_decoder :: "json \<Rightarrow> element option" where
  "feed_decoder j = map_option EFeed (dec_struct (one_field ''lines'' dec_int64) j 0)"

definition cut_decoder :: "json \<Rightarrow> element option" where
  "cut_decoder j = map_option ECut (dec_struct (one_field ''mode'' dec_string) j '''')"

definition registry :: "(string \<times> (json \<Rightarrow> element option)) list" where
  "registry =
     [(''text'', text_decoder),
      (''heading'', heading_decoder),
      (''divider'', divider_decoder),
      (''spacer'', spacer_decoder),
      (''image'', image_decoder),
      (''asset'', asset_decoder),
      (''qrcode'', qrcode_decoder),
      (''barcode'', barcode_decoder),
      (''table'', table_decoder),
      (''list'', list_decoder),
      (''feed'', feed_decoder),
      (''cut'', cut_decoder)]"

lemmas registry_defs = registry_def text_decoder_def heading_decoder_def divider_decoder_def spacer_decoder_def image_decoder_def
  asset_decoder_def qrcode_decoder_def barcode_decoder_def table_decoder_def list_decoder_def feed_decoder_def cut_decoder_def

text \<open>The wire structs of columns and of the receipt keep their elements as raw JSON.\<close>

definition wire_column :: "json \<Rightarrow> (int \<times> json list) option" where
  "wire_column j = dec_struct
     [(''weight'', field dec_int64 fst (\<lambda>x. apfst (\<lambda>_. x))),
      (''elements'', field (dec_slice Some) snd (\<lambda>x. apsnd (\<lambda>_. x)))] j (0, [])"

definition wire_columns :: "json \<Rightarrow> (int \<times> json list) list option" where
  "wire_columns j = dec_struct (one_field ''columns'' (dec_slice wire_column)) j []"

fun sum_map :: "('a \<Rightarrow> 'e + 'b) \<Rightarrow> 'a list \<Rightarrow> 'e + 'b list" where
  "sum_map f [] = Inr []"
| "sum_map f (x # xs) =
     (case f x of
        Inl e \<Rightarrow> Inl e
      | Inr y \<Rightarrow> (case sum_map f xs of Inl e \<Rightarrow> Inl e | Inr ys \<Rightarrow> Inr (y # ys)))"

lemma sum_map_cong [fundef_cong]:
  "xs = ys \<Longrightarrow> (\<And>x. x \<in> set ys \<Longrightarrow> f x = g x) \<Longrightarrow> sum_map f xs = sum_map g ys"
  by (induction ys arbitrary: xs) (auto split: sum.split)

definition decode_error :: "goerr \<Rightarrow> goerr" where
  "decode_error err = wrap KindValidation ''receipt.decodeElement'' (Some err)"

function decodeElement :: "goerr \<Rightarrow> int \<Rightarrow> json \<Rightarrow> goerr + element" where
  "decodeElement je depth data =
     (if depth > maxElementDepth
      then Inl (decode_error (errorf ''element nesting exceeds the maximum depth of %d'' [FInt maxElementDepth]))
      else case dec_struct (one_field ''type'' dec_string) data '''' of
        None \<Rightarrow> Inl (decode_error je)
      | Some typ \<Rightarrow>
          if typ = ''columns'' then
            (case wire_columns data of
               None \<Rightarrow> Inl (decode_error (wrap KindValidation ''receipt.Columns.UnmarshalJSON'' (Some je)))
             | Some wire \<Rightarrow>
                 (case sum_map (\<lambda>(weight, raws).
                          case sum_map (\<lambda>raw. decodeElement je (depth + 1) raw) raws of
                            Inl err \<Rightarrow> Inl err
                          | Inr els \<Rightarrow> Inr (Column weight (map Some els))) wire of
                    Inl err \<Rightarrow> Inl (decode_error err)
                  | Inr cols \<Rightarrow> Inr (EColumns cols)))
          else (case map_of registry typ of
                  None \<Rightarrow> Inl (decode_error (errorf ''unknown element type %q'' [FStr typ]))
                | Some decode \<Rightarrow>
                    (case decode data of
                       None \<Rightarrow> Inl (decode_error je)
                     | Some el \<Rightarrow> Inr el)))"
  by pat_completeness auto
termination
  by (relation "measure (\<lambda>(je, depth, data). nat (33 - depth))") (auto simp: maxElementDepth_def)

declare decodeElement.simps [simp del]

definition wire_receipt :: "json \<Rightarrow> (int \<times> int \<times> json list) option" where
  "wire_receipt j = dec_struct
     [(''version'', field dec_int64 fst (\<lambda>x (v, c, e). (x, c, e))),
      (''copies'', field dec_int64 (\<lambda>(v, c, e). c) (\<lambda>x (v, c, e). (v, x, e))),
      (''elements'', field (dec_slice Some) (\<lambda>(v, c, e). e) (\<lambda>x (v, c, e). (v, c, x)))] j (0, 0, [])"

definition unmarshal_receipt :: "goerr \<Rightarrow> json \<Rightarrow> goerr + receipt" where
  "unmarshal_receipt je data =
     (case wire_receipt data of
        None \<Rightarrow> Inl (wrap KindValidation ''receipt.UnmarshalJSON'' (Some je))
      | Some (version, copies, raws) \<Rightarrow>
          (case sum_map (decodeElement je 0) raws of
             Inl err \<Rightarrow> Inl err
           | Inr els \<Rightarrow> Inr \<lparr>r_version = version, r_copies = copies, r_elements = map Some els\<rparr>))"

section \<open>Encoding\<close>

definition str :: "string \<Rightarrow> json" where
  "str s = JStr (to_valid s)"

definition tagged :: "string \<Rightarrow> (string \<times> json) list \<Rightarrow> json" where
  "tagged typ fs = JObj ((''type'', JStr typ) # fs)"

definition marshal_text :: "text_el \<Rightarrow> json" where
  "marshal_text t = tagged ''text''
     ((''content'', str (t_content t))
      # opt_field (t_align t \<noteq> '''') ''align'' (str (t_align t))
      @ opt_field (t_bold t) ''bold'' (JBool True)
      @ opt_field (t_italic t) ''italic'' (JBool True)
      @ opt_field (t_underline t) ''underline'' (JBool True)
      @ opt_field (t_strikethrough t) ''strikethrough'' (JBool True)
      @ opt_field (t_size t \<noteq> 0) ''size'' (JInt (t_size t)))"

definition marshal_heading :: "string \<Rightarrow> json" where
  "marshal_heading c = tagged ''heading'' [(''content'', str c)]"

definition marshal_divider :: "divider_el \<Rightarrow> json" where
  "marshal_divider d = tagged ''divider''
     (opt_field (d_style d \<noteq> '''') ''style'' (str (d_style d))
      @ opt_field (d_size d \<noteq> 0) ''size'' (JInt (d_size d)))"

definition marshal_spacer :: "int \<Rightarrow> json" where
  "marshal_spacer h = tagged ''spacer'' [(''height'', JInt h)]"

definition marshal_image :: "byte list \<Rightarrow> json" where
  "marshal_image d = tagged ''image'' [(''data'', JStr (b64_encode d))]"

definition marshal_asset :: "asset_el \<Rightarrow> json" where
  "marshal_asset a = tagged ''asset''
     ((''name'', str (a_name a))
      # opt_field (a_width a \<noteq> 0) ''width'' (JInt (a_width a))
      @ opt_field (a_align a \<noteq> '''') ''align'' (str (a_align a)))"

definition marshal_qrcode :: "qrcode_el \<Rightarrow> json" where
  "marshal_qrcode q = tagged ''qrcode''
     ((''content'', str (q_content q))
      # opt_field (q_size q \<noteq> 0) ''size'' (JInt (q_size q))
      @ opt_field (q_error_correction q \<noteq> '''') ''error_correction'' (str (q_error_correction q)))"

definition marshal_barcode :: "barcode_el \<Rightarrow> json" where
  "marshal_barcode b = tagged ''barcode''
     ((''content'', str (b_content b)) # (''symbology'', str (b_symbology b))
      # opt_field (b_height b \<noteq> 0) ''height'' (JInt (b_height b))
      @ opt_field (b_show_text b) ''show_text'' (JBool True))"

definition marshal_table :: "table_el \<Rightarrow> json" where
  "marshal_table t = tagged ''table''
     [(''headers'', JArr (map str (tb_headers t))),
      (''rows'', JArr (map (\<lambda>row. JArr (map str row)) (tb_rows t)))]"

definition item_json :: "list_item \<Rightarrow> json" where
  "item_json i = JObj
     ((''content'', str (li_content i))
      # opt_field (li_checked i) ''checked'' (JBool True)
      @ opt_field (li_indent i \<noteq> 0) ''indent'' (JInt (li_indent i)))"

definition marshal_list :: "list_el \<Rightarrow> json" where
  "marshal_list l = tagged ''list''
     (opt_field (l_kind l \<noteq> '''') ''kind'' (str (l_kind l))
      @ [(''items'', JArr (map item_json (l_items l)))])"

definition marshal_feed :: "int \<Rightarrow> json" where
  "marshal_feed n = tagged ''feed'' [(''lines'', JInt n)]"

definition marshal_cut :: "string \<Rightarrow> json" where
  "marshal_cut m = tagged ''cut'' (opt_field (m \<noteq> '''') ''mode'' (str m))"

fun marshal_element :: "element \<Rightarrow> json"
and marshal_columns :: "column list \<Rightarrow> json list"
and marshal_elements :: "element option list \<Rightarrow> json list" where
  "marshal_element (EText t) = marshal_text t"
| "marshal_element (EHeading c) = marshal_heading c"
| "marshal_element (EDivider d) = marshal_divider d"
| "marshal_element (ESpacer h) = marshal_spacer h"
| "marshal_element (EImage d) = marshal_image d"
| "marshal_element (EAsset a) = marshal_asset a"
| "marshal_element (EQRCode q) = marshal_qrcode q"
| "marshal_element (EBarcode b) = marshal_barcode b"
| "marshal_element (ETable t) = marshal_table t"
| "marshal_element (EList l) = marshal_list l"
| "marshal_element (EFeed n) = marshal_feed n"
| "marshal_element (ECut m) = marshal_cut m"
| "marshal_element (EColumns cols) = tagged ''columns'' [(''columns'', JArr (marshal_columns cols))]"
| "marshal_columns [] = []"
| "marshal_columns (Column w els # cols) =
     JObj (opt_field (w \<noteq> 0) ''weight'' (JInt w) @ [(''elements'', JArr (marshal_elements els))])
     # marshal_columns cols"
| "marshal_elements [] = []"
| "marshal_elements (None # els) = JNull # marshal_elements els"
| "marshal_elements (Some el # els) = marshal_element el # marshal_elements els"

definition marshal_receipt :: "receipt \<Rightarrow> json" where
  "marshal_receipt r = JObj
     [(''version'', JInt (r_version r)), (''copies'', JInt (r_copies r)),
      (''elements'', JArr (marshal_elements (r_elements r)))]"

section \<open>Decoding what was encoded\<close>

declare dec_int64.simps(2) [simp del]

lemma dec_fields_opt:
  "dec_fields fs (opt_field p k v @ rest) a =
     Option.bind (if p then (case find_field fs k of None \<Rightarrow> Some a | Some d \<Rightarrow> d v a) else Some a)
       (dec_fields fs rest)"
  by (simp add: opt_field_def split: option.split)

lemma dec_fields_opt_last:
  "dec_fields fs (opt_field p k v) a =
     (if p then (case find_field fs k of None \<Rightarrow> Some a | Some d \<Rightarrow> d v a) else Some a)"
  by (simp add: opt_field_def split: option.split)

lemma if_Some: "(if p then Some x else Some y) = Some (if p then x else y)"
  by simp

definition int64_ok :: "int \<Rightarrow> bool" where
  "int64_ok n \<longleftrightarrow> - (2 ^ 63) \<le> n \<and> n < 2 ^ 63"

lemma dec_int64_ok [simp]: "int64_ok n \<Longrightarrow> dec_int64 (JInt n) i = Some n"
  by (simp add: int64_ok_def dec_int64.simps(2))

lemma dec_str [simp]: "valid_string s \<Longrightarrow> dec_string (str s) t = Some s"
  by (simp add: str_def)

lemma find_fields:
  "find_field text_fields ''type'' = None" "find_field divider_fields ''type'' = None"
  "find_field asset_fields ''type'' = None" "find_field qrcode_fields ''type'' = None"
  "find_field barcode_fields ''type'' = None" "find_field table_fields ''type'' = None"
  "find_field list_fields ''type'' = None"
  by (simp_all add: find_field_def text_fields_def divider_fields_def asset_fields_def qrcode_fields_def
      barcode_fields_def table_fields_def list_fields_def)


lemma find_known:
  "find_field text_fields ''content'' = Some (field dec_string t_content (\<lambda>x. t_content_update (\<lambda>_. x)))"
  "find_field text_fields ''align'' = Some (field dec_string t_align (\<lambda>x. t_align_update (\<lambda>_. x)))"
  "find_field text_fields ''bold'' = Some (field dec_bool t_bold (\<lambda>x. t_bold_update (\<lambda>_. x)))"
  "find_field text_fields ''italic'' = Some (field dec_bool t_italic (\<lambda>x. t_italic_update (\<lambda>_. x)))"
  "find_field text_fields ''underline'' = Some (field dec_bool t_underline (\<lambda>x. t_underline_update (\<lambda>_. x)))"
  "find_field text_fields ''strikethrough'' = Some (field dec_bool t_strikethrough (\<lambda>x. t_strikethrough_update (\<lambda>_. x)))"
  "find_field text_fields ''size'' = Some (field dec_int64 t_size (\<lambda>x. t_size_update (\<lambda>_. x)))"
  "find_field divider_fields ''style'' = Some (field dec_string d_style (\<lambda>x. d_style_update (\<lambda>_. x)))"
  "find_field divider_fields ''size'' = Some (field dec_int64 d_size (\<lambda>x. d_size_update (\<lambda>_. x)))"
  "find_field asset_fields ''name'' = Some (field dec_string a_name (\<lambda>x. a_name_update (\<lambda>_. x)))"
  "find_field asset_fields ''width'' = Some (field dec_int64 a_width (\<lambda>x. a_width_update (\<lambda>_. x)))"
  "find_field asset_fields ''align'' = Some (field dec_string a_align (\<lambda>x. a_align_update (\<lambda>_. x)))"
  "find_field qrcode_fields ''content'' = Some (field dec_string q_content (\<lambda>x. q_content_update (\<lambda>_. x)))"
  "find_field qrcode_fields ''size'' = Some (field dec_int64 q_size (\<lambda>x. q_size_update (\<lambda>_. x)))"
  "find_field qrcode_fields ''error_correction'' = Some (field dec_string q_error_correction (\<lambda>x. q_error_correction_update (\<lambda>_. x)))"
  "find_field barcode_fields ''content'' = Some (field dec_string b_content (\<lambda>x. b_content_update (\<lambda>_. x)))"
  "find_field barcode_fields ''symbology'' = Some (field dec_string b_symbology (\<lambda>x. b_symbology_update (\<lambda>_. x)))"
  "find_field barcode_fields ''height'' = Some (field dec_int64 b_height (\<lambda>x. b_height_update (\<lambda>_. x)))"
  "find_field barcode_fields ''show_text'' = Some (field dec_bool b_show_text (\<lambda>x. b_show_text_update (\<lambda>_. x)))"
  "find_field table_fields ''headers'' = Some (field dec_texts tb_headers (\<lambda>x. tb_headers_update (\<lambda>_. x)))"
  "find_field table_fields ''rows'' = Some (field (dec_slice (\<lambda>j. dec_texts j [])) tb_rows (\<lambda>x. tb_rows_update (\<lambda>_. x)))"
  "find_field item_fields ''content'' = Some (field dec_string li_content (\<lambda>x. li_content_update (\<lambda>_. x)))"
  "find_field item_fields ''checked'' = Some (field dec_bool li_checked (\<lambda>x. li_checked_update (\<lambda>_. x)))"
  "find_field item_fields ''indent'' = Some (field dec_int64 li_indent (\<lambda>x. li_indent_update (\<lambda>_. x)))"
  "find_field list_fields ''kind'' = Some (field dec_string l_kind (\<lambda>x. l_kind_update (\<lambda>_. x)))"
  "find_field list_fields ''items'' = Some (field (dec_slice decode_item) l_items (\<lambda>x. l_items_update (\<lambda>_. x)))"
  "find_field (one_field k d) k = Some (field d (\<lambda>x. x) (\<lambda>x _. x))"
  by (simp_all add: find_field_def text_fields_def divider_fields_def asset_fields_def qrcode_fields_def
      barcode_fields_def table_fields_def item_fields_def list_fields_def one_field_def)

lemmas decoding = find_fields find_known dec_fields_opt dec_fields_opt_last field_def if_Some tagged_def

lemma decode_text:
  assumes "valid_string (t_content t)" "valid_string (t_align t)" "int64_ok (t_size t)"
  shows "dec_struct text_fields (marshal_text t) zero_text = Some t"
  using assms by (cases t) (simp add: marshal_text_def decoding)

lemma decode_divider:
  "valid_string (d_style d) \<Longrightarrow> int64_ok (d_size d) \<Longrightarrow>
     dec_struct divider_fields (marshal_divider d) \<lparr>d_style = '''', d_size = 0\<rparr> = Some d"
  by (cases d) (simp add: marshal_divider_def decoding)

lemma decode_asset:
  "valid_string (a_name a) \<Longrightarrow> valid_string (a_align a) \<Longrightarrow> int64_ok (a_width a) \<Longrightarrow>
     dec_struct asset_fields (marshal_asset a) \<lparr>a_name = '''', a_width = 0, a_align = ''''\<rparr> = Some a"
  by (cases a) (simp add: marshal_asset_def decoding)

lemma decode_qrcode:
  "valid_string (q_content q) \<Longrightarrow> valid_string (q_error_correction q) \<Longrightarrow> int64_ok (q_size q) \<Longrightarrow>
     dec_struct qrcode_fields (marshal_qrcode q) \<lparr>q_content = '''', q_size = 0, q_error_correction = ''''\<rparr> = Some q"
  by (cases q) (simp add: marshal_qrcode_def decoding)

lemma decode_barcode:
  "valid_string (b_content b) \<Longrightarrow> valid_string (b_symbology b) \<Longrightarrow> int64_ok (b_height b) \<Longrightarrow>
     dec_struct barcode_fields (marshal_barcode b)
       \<lparr>b_content = '''', b_symbology = '''', b_height = 0, b_show_text = False\<rparr> = Some b"
  by (cases b) (simp add: marshal_barcode_def decoding)

lemma dec_texts_map: "list_all valid_string ss \<Longrightarrow> dec_texts (JArr (map str ss)) xs = Some ss"
  unfolding dec_texts_def dec_slice.simps by (rule dec_all_map) (auto simp: list_all_iff)

lemma decode_table:
  assumes "list_all valid_string (tb_headers t)" "list_all (list_all valid_string) (tb_rows t)"
  shows "dec_struct table_fields (marshal_table t) \<lparr>tb_headers = [], tb_rows = []\<rparr> = Some t"
proof -
  have "dec_all (\<lambda>j. dec_texts j []) (map (\<lambda>row. JArr (map str row)) (tb_rows t)) = Some (tb_rows t)"
    by (rule dec_all_map) (use assms(2) in \<open>auto simp: list_all_iff intro!: dec_texts_map\<close>)
  with assms(1) show ?thesis by (simp add: marshal_table_def decoding dec_texts_map)
qed

lemma decode_item_json:
  "valid_string (li_content i) \<Longrightarrow> int64_ok (li_indent i) \<Longrightarrow> decode_item (item_json i) = Some i"
  by (cases i) (simp add: item_json_def decode_item_def decoding)

lemma decode_list:
  assumes "valid_string (l_kind l)" "list_all (\<lambda>i. valid_string (li_content i) \<and> int64_ok (li_indent i)) (l_items l)"
  shows "dec_struct list_fields (marshal_list l) \<lparr>l_kind = '''', l_items = []\<rparr> = Some l"
proof -
  have "dec_all decode_item (map item_json (l_items l)) = Some (l_items l)"
    by (rule dec_all_map) (use assms(2) in \<open>auto simp: list_all_iff intro!: decode_item_json\<close>)
  with assms(1) show ?thesis by (cases l) (simp add: marshal_list_def decoding)
qed

section \<open>What crosses the wire unchanged\<close>

fun leaf_wire :: "element \<Rightarrow> bool" where
  "leaf_wire (EText t) \<longleftrightarrow> valid_string (t_content t) \<and> valid_string (t_align t) \<and> int64_ok (t_size t)"
| "leaf_wire (EHeading c) \<longleftrightarrow> valid_string c"
| "leaf_wire (EDivider d) \<longleftrightarrow> valid_string (d_style d) \<and> int64_ok (d_size d)"
| "leaf_wire (ESpacer h) \<longleftrightarrow> int64_ok h"
| "leaf_wire (EImage d) \<longleftrightarrow> True"
| "leaf_wire (EAsset a) \<longleftrightarrow> valid_string (a_name a) \<and> valid_string (a_align a) \<and> int64_ok (a_width a)"
| "leaf_wire (EQRCode q) \<longleftrightarrow> valid_string (q_content q) \<and> valid_string (q_error_correction q) \<and> int64_ok (q_size q)"
| "leaf_wire (EBarcode b) \<longleftrightarrow> valid_string (b_content b) \<and> valid_string (b_symbology b) \<and> int64_ok (b_height b)"
| "leaf_wire (ETable t) \<longleftrightarrow> list_all valid_string (tb_headers t) \<and> list_all (list_all valid_string) (tb_rows t)"
| "leaf_wire (EList l) \<longleftrightarrow>
     valid_string (l_kind l) \<and> list_all (\<lambda>i. valid_string (li_content i) \<and> int64_ok (li_indent i)) (l_items l)"
| "leaf_wire (EFeed n) \<longleftrightarrow> int64_ok n"
| "leaf_wire (ECut m) \<longleftrightarrow> valid_string m"
| "leaf_wire (EColumns cols) \<longleftrightarrow> True"

text \<open>Every element satisfies \<open>P\<close>, none is nil, and an element at depth \<open>d\<close> nests at most to the bound.\<close>

fun nests :: "(element \<Rightarrow> bool) \<Rightarrow> int \<Rightarrow> element \<Rightarrow> bool"
and nests_columns :: "(element \<Rightarrow> bool) \<Rightarrow> int \<Rightarrow> column list \<Rightarrow> bool"
and nests_elements :: "(element \<Rightarrow> bool) \<Rightarrow> int \<Rightarrow> element option list \<Rightarrow> bool" where
  "nests P d (EColumns cols) \<longleftrightarrow> d \<le> maxElementDepth \<and> nests_columns P (d + 1) cols"
| "nests P d el \<longleftrightarrow> d \<le> maxElementDepth \<and> P el"
| "nests_columns P d [] \<longleftrightarrow> True"
| "nests_columns P d (Column w els # cols) \<longleftrightarrow> int64_ok w \<and> nests_elements P d els \<and> nests_columns P d cols"
| "nests_elements P d [] \<longleftrightarrow> True"
| "nests_elements P d (None # els) \<longleftrightarrow> False"
| "nests_elements P d (Some el # els) \<longleftrightarrow> nests P d el \<and> nests_elements P d els"

text \<open>No other field name of an element reads as \<open>type\<close>.\<close>

lemma type_only:
  "list_all (\<lambda>(k, v). fold_name k \<noteq> fold_name ''type'') fs \<Longrightarrow>
     dec_fields (one_field ''type'' dec_string) fs a = Some a"
  by (induction fs) (auto simp: find_field_def one_field_def)

lemma decode_type:
  "list_all (\<lambda>(k, v). fold_name k \<noteq> fold_name ''type'') fs \<Longrightarrow>
     dec_struct (one_field ''type'' dec_string) (tagged typ fs) '''' = Some typ"
  by (simp add: decoding type_only)

lemma decode_leaf:
  assumes "ty \<in> fst ` set registry" and "the (map_of registry ty) (tagged ty fs) = Some el"
    and "list_all (\<lambda>(k, v). fold_name k \<noteq> fold_name ''type'') fs" and "d \<le> maxElementDepth"
  shows "decodeElement je d (tagged ty fs) = Inr el"
proof -
  have "ty \<noteq> ''columns''" using assms(1) by (auto simp: registry_defs)
  moreover obtain dec where "map_of registry ty = Some dec"
    using assms(1) by (meson map_of_eq_None_iff not_Some_eq)
  ultimately show ?thesis using assms decode_type [OF assms(3), of ty] by (subst decodeElement.simps) simp
qed

lemmas wire_decodes = decode_text decode_divider decode_asset decode_qrcode decode_barcode decode_table decode_list

lemma names_opt: "list_all Q (opt_field p k v @ fs) \<longleftrightarrow> (p \<longrightarrow> Q (k, v)) \<and> list_all Q fs"
  "list_all Q (opt_field p k v) \<longleftrightarrow> (p \<longrightarrow> Q (k, v))"
  by (simp_all add: opt_field_def)

lemma decode_singles:
  "valid_string c \<Longrightarrow> dec_struct (one_field ''content'' dec_string) (marshal_heading c) '''' = Some c"
  "int64_ok h \<Longrightarrow> dec_struct (one_field ''height'' dec_int64) (marshal_spacer h) 0 = Some h"
  "dec_struct (one_field ''data'' dec_bytes) (marshal_image bs) [] = Some bs"
  "int64_ok h \<Longrightarrow> dec_struct (one_field ''lines'' dec_int64) (marshal_feed h) 0 = Some h"
  "valid_string m \<Longrightarrow> dec_struct (one_field ''mode'' dec_string) (marshal_cut m) '''' = Some m"
  by (simp_all add: marshal_heading_def marshal_spacer_def marshal_image_def marshal_feed_def marshal_cut_def
      tagged_def one_field_def find_field_def field_def b64_round_trip opt_field_def)

lemmas marshal_leaf = marshal_text_def marshal_heading_def marshal_divider_def marshal_spacer_def marshal_image_def
  marshal_asset_def marshal_qrcode_def marshal_barcode_def marshal_table_def marshal_list_def marshal_feed_def
  marshal_cut_def

lemma leaf_decodes:
  assumes "leaf_wire el" and "\<forall>cols. el \<noteq> EColumns cols" and "d \<le> maxElementDepth"
  shows "decodeElement je d (marshal_element el) = Inr el"
proof (cases el)
  case (EText t)
  with assms decode_text [of t] show ?thesis
    by (simp add: marshal_text_def registry_defs decode_leaf names_opt)
next
  case (EHeading c)
  with assms decode_singles(1) [of c] show ?thesis
    by (simp add: marshal_heading_def registry_defs decode_leaf names_opt)
next
  case (EDivider v)
  with assms decode_divider [of v] show ?thesis
    by (simp add: marshal_divider_def registry_defs decode_leaf names_opt)
next
  case (ESpacer h)
  with assms decode_singles(2) [of h] show ?thesis
    by (simp add: marshal_spacer_def registry_defs decode_leaf names_opt)
next
  case (EImage bs)
  with assms decode_singles(3) [of bs] show ?thesis
    by (simp add: marshal_image_def registry_defs decode_leaf names_opt)
next
  case (EAsset a)
  with assms decode_asset [of a] show ?thesis
    by (simp add: marshal_asset_def registry_defs decode_leaf names_opt)
next
  case (EQRCode q)
  with assms decode_qrcode [of q] show ?thesis
    by (simp add: marshal_qrcode_def registry_defs decode_leaf names_opt)
next
  case (EBarcode b)
  with assms decode_barcode [of b] show ?thesis
    by (simp add: marshal_barcode_def registry_defs decode_leaf names_opt)
next
  case (ETable t)
  with assms decode_table [of t] show ?thesis
    by (simp add: marshal_table_def registry_defs decode_leaf names_opt)
next
  case (EList l)
  with assms decode_list [of l] show ?thesis
    by (simp add: marshal_list_def registry_defs decode_leaf names_opt)
next
  case (EFeed n)
  with assms decode_singles(4) [of n] show ?thesis
    by (simp add: marshal_feed_def registry_defs decode_leaf names_opt)
next
  case (ECut m)
  with assms decode_singles(5) [of m] show ?thesis
    by (simp add: marshal_cut_def registry_defs decode_leaf names_opt)
qed (use assms in simp)

section \<open>Columns\<close>

fun raw_column :: "column \<Rightarrow> int \<times> json list" where
  "raw_column (Column w els) = (w, marshal_elements els)"

definition decode_column :: "goerr \<Rightarrow> int \<Rightarrow> int \<times> json list \<Rightarrow> goerr + column" where
  "decode_column je d = (\<lambda>(weight, raws). case sum_map (\<lambda>raw. decodeElement je d raw) raws of
     Inl err \<Rightarrow> Inl err | Inr els \<Rightarrow> Inr (Column weight (map Some els)))"

lemma dec_raws: "dec_slice Some (JArr js) xs = Some js"
proof -
  have "dec_all Some js = Some js" by (induction js) simp_all
  then show ?thesis by simp
qed

lemma wire_column_marshal:
  "int64_ok w \<Longrightarrow>
     wire_column (JObj (opt_field (w \<noteq> 0) ''weight'' (JInt w) @ [(''elements'', JArr (marshal_elements els))]))
       = Some (w, marshal_elements els)"
  by (simp add: wire_column_def find_field_def decoding dec_raws del: dec_slice.simps)

lemma wire_columns_marshal:
  "nests_columns P d cols \<Longrightarrow> dec_all wire_column (marshal_columns cols) = Some (map raw_column cols)"
proof (induction cols)
  case (Cons c cols)
  then show ?case by (cases c) (simp add: wire_column_marshal)
qed simp

lemma decode_columns:
  assumes "d \<le> maxElementDepth" and "nests_columns P (d + 1) cols"
    and "sum_map (decode_column je (d + 1)) (map raw_column cols) = Inr cols"
  shows "decodeElement je d (marshal_element (EColumns cols)) = Inr (EColumns cols)"
proof -
  have "wire_columns (tagged ''columns'' [(''columns'', JArr (marshal_columns cols))]) = Some (map raw_column cols)"
    using wire_columns_marshal [OF assms(2)]
    by (simp add: wire_columns_def tagged_def one_field_def find_field_def field_def)
  with assms decode_type [of "[(''columns'', JArr (marshal_columns cols))]" "''columns''"] show ?thesis
    by (subst decodeElement.simps) (simp add: decode_column_def)
qed

lemma decode_marshal:
  "P = leaf_wire \<Longrightarrow> nests P d el \<Longrightarrow> decodeElement je d (marshal_element el) = Inr el"
  "P = leaf_wire \<Longrightarrow> nests_columns P d cols \<Longrightarrow> sum_map (decode_column je d) (map raw_column cols) = Inr cols"
  "P = leaf_wire \<Longrightarrow> nests_elements P d els \<Longrightarrow>
     \<exists>ys. els = map Some ys \<and> sum_map (decodeElement je d) (marshal_elements els) = Inr ys"
proof (induction P d el and P d cols and P d els rule: nests_nests_columns_nests_elements.induct)
  case (1 P d cols)
  then show ?case using decode_columns [of d P cols je] by simp
next
  case (4 P d w els cols)
  then show ?case by (auto simp: decode_column_def)
next
  case (7 P d el els)
  then show ?case by force
qed (use leaf_decodes in \<open>simp_all del: marshal_element.simps\<close>)


lemma receipt_json_facts:
  assumes "nests_elements leaf_wire 0 (r_elements r)" and "int64_ok (r_version r)" and "int64_ok (r_copies r)"
  shows "unmarshal_receipt je (marshal_receipt r) = Inr r"
proof -
  obtain ys where ys: "r_elements r = map Some ys" "sum_map (decodeElement je 0) (marshal_elements (r_elements r)) = Inr ys"
    using decode_marshal(3) [OF refl assms(1)] by blast
  have "wire_receipt (marshal_receipt r) = Some (r_version r, r_copies r, marshal_elements (r_elements r))"
    using assms(2,3) by (simp add: wire_receipt_def marshal_receipt_def find_field_def field_def dec_raws del: dec_slice.simps)
  with ys show ?thesis by (cases r) (simp add: unmarshal_receipt_def)
qed

section \<open>JSON that keeps its value as a text\<close>

text \<open>
  What \<open>encoding/json\<close> writes and reads back as the same value: strings in UTF-8 (it writes U+FFFD for other bytes), no
  number outside the integers (of which other spellings are read as the same number), and at most \<open>d\<close> arrays and objects inside each
  other (its decoder gives up at 10000).
\<close>

fun plain_json :: "nat \<Rightarrow> json \<Rightarrow> bool" where
  "plain_json d JNull \<longleftrightarrow> True"
| "plain_json d (JBool b) \<longleftrightarrow> True"
| "plain_json d (JInt n) \<longleftrightarrow> True"
| "plain_json d (JReal s) \<longleftrightarrow> False"
| "plain_json d (JStr s) \<longleftrightarrow> valid_string s"
| "plain_json d (JArr js) \<longleftrightarrow> 0 < d \<and> (\<forall>j \<in> set js. plain_json (d - 1) j)"
| "plain_json d (JObj kvs) \<longleftrightarrow> 0 < d \<and> (\<forall>(k, v) \<in> set kvs. valid_string k \<and> plain_json (d - 1) v)"

lemma plain_json_mono: "plain_json d j \<Longrightarrow> d \<le> e \<Longrightarrow> plain_json e j"
proof (induction j arbitrary: d e)
  case (JArr js)
  have "plain_json (e - 1) j" if "j \<in> set js" for j
    using JArr.IH [OF that, of "d - 1" "e - 1"] JArr.prems that by (simp add: diff_le_mono)
  with JArr.prems show ?case by simp
next
  case (JObj kvs)
  have "plain_json (e - 1) v" if "(k, v) \<in> set kvs" for k v
  proof (rule JObj.IH [OF that])
    show "v \<in> Basic_BNFs.snds (k, v)" by simp
    show "plain_json (d - 1) v" using JObj.prems(1) that by auto
    show "d - 1 \<le> e - 1" using JObj.prems(2) by simp
  qed
  with JObj.prems show ?case by auto
qed simp_all

lemma plain_str [simp]: "valid_string s \<Longrightarrow> plain_json d (str s)"
  by (simp add: str_def)

lemma plain_opt_field:
  "(\<forall>(k, v) \<in> set (opt_field p k x @ fs). Q k v) \<longleftrightarrow> (p \<longrightarrow> Q k x) \<and> (\<forall>(k, v) \<in> set fs. Q k v)"
  "(\<forall>(k, v) \<in> set (opt_field p k x). Q k v) \<longleftrightarrow> (p \<longrightarrow> Q k x)"
  by (auto simp: opt_field_def)

lemma b64_encode_ascii: "list_all (\<lambda>c. of_char c < (0x80::nat)) (b64_encode bs)"
proof -
  have alphabet: "list_all (\<lambda>c. of_char c < (0x80::nat)) b64_alphabet" by code_simp
  have c: "of_char (b64_char n) < (0x80::nat)" if "n < 64" for n
    using alphabet that by (simp add: b64_char_def list_all_length b64_alphabet_facts(1))
  have u: "unat x div 4 < 64" "unat x mod 4 * 16 + unat y div 16 < 64" "unat x mod 16 * 4 + unat y div 64 < 64"
    "unat x mod 4 * 16 < 64" "unat x mod 16 * 4 < 64" "unat x mod 64 < 64" for x y :: byte
  proof -
    have x: "unat x < 256" "unat y < 256" using unsigned_less [of x, where 'a = nat] unsigned_less [of y, where 'a = nat] by simp_all
    then show "unat x div 4 < 64" "unat x mod 4 * 16 < 64" "unat x mod 16 * 4 < 64" "unat x mod 64 < 64" by simp_all
    have "unat y div 16 < 16" "unat y div 64 < 4" "unat x mod 4 < 4" "unat x mod 16 < 16" using x(2) by simp_all
    then show "unat x mod 4 * 16 + unat y div 16 < 64" "unat x mod 16 * 4 + unat y div 64 < 64" by linarith+
  qed
  show ?thesis by (induction bs rule: b64_encode.induct) (simp_all add: c u)
qed

lemma plain_leaf:
  assumes "leaf_wire el" and "\<forall>cols. el \<noteq> EColumns cols"
  shows "plain_json 3 (marshal_element el)"
  using assms b64_encode_ascii
  by (cases el)
    (auto simp: marshal_leaf tagged_def plain_opt_field valid_string_ascii item_json_def list_all_iff opt_field_def)

lemma plain_leaf_at:
  assumes "leaf_wire el" and "\<forall>cols. el \<noteq> EColumns cols" and "d \<le> 32"
  shows "plain_json (4 * nat (34 - d)) (marshal_element el)"
  by (rule plain_json_mono [OF plain_leaf [OF assms(1,2)]]) (use assms(3) in arith)

lemma plain_marshal:
  "P = leaf_wire \<Longrightarrow> nests P d el \<Longrightarrow> plain_json (4 * nat (34 - d)) (marshal_element el)"
  "P = leaf_wire \<Longrightarrow> d \<le> maxElementDepth + 1 \<Longrightarrow> nests_columns P d cols \<Longrightarrow> \<forall>j \<in> set (marshal_columns cols). plain_json (2 + 4 * nat (34 - d)) j"
  "P = leaf_wire \<Longrightarrow> nests_elements P d els \<Longrightarrow> \<forall>j \<in> set (marshal_elements els). plain_json (4 * nat (34 - d)) j"
proof (induction P d el and P d cols and P d els rule: nests_nests_columns_nests_elements.induct)
  case (1 P d cols)
  then have "nat (34 - d) = Suc (nat (34 - (d + 1)))" by (simp add: maxElementDepth_def nat_eq_iff)
  then have d: "4 * nat (34 - d) = Suc (Suc (2 + 4 * nat (34 - (d + 1))))" by simp
  from 1 have "\<forall>j \<in> set (marshal_columns cols). plain_json (2 + 4 * nat (34 - (d + 1))) j" by (simp add: maxElementDepth_def)
  then show ?case unfolding d by (simp add: tagged_def valid_string_ascii)
next
  case (4 P d w els cols)
  then have "\<forall>j \<in> set (marshal_elements els). plain_json (4 * nat (34 - d)) j" by simp
  with 4 show ?case by (simp add: plain_opt_field valid_string_ascii)
qed (simp_all add: maxElementDepth_def plain_leaf_at del: marshal_element.simps)

lemma plain_receipt:
  assumes "nests_elements leaf_wire 0 (r_elements r)"
  shows "plain_json 138 (marshal_receipt r)"
  using plain_marshal(3) [OF refl assms] by (simp add: marshal_receipt_def valid_string_ascii)

section \<open>What the decoder lets in\<close>

lemma find_field_in: "find_field fs k = Some d \<Longrightarrow> d \<in> snd ` set fs"
  by (auto simp: find_field_def image_iff find_Some_iff split: option.splits dest!: map_of_SomeD)
    (metis nth_mem snd_conv)+

lemma dec_fields_inv:
  assumes keep: "\<And>d v a a'. d \<in> snd ` set fs \<Longrightarrow> d v a = Some a' \<Longrightarrow> P a \<Longrightarrow> P a'"
  shows "dec_fields fs kvs a = Some a' \<Longrightarrow> P a \<Longrightarrow> P a'"
proof (induction kvs arbitrary: a)
  case (Cons kv kvs)
  obtain k v where kv: "kv = (k, v)" by (cases kv)
  show ?case
  proof (cases "find_field fs k")
    case None
    with Cons kv show ?thesis by simp
  next
    case (Some d)
    with Cons.prems(1) kv obtain b where b: "d v a = Some b" "dec_fields fs kvs b = Some a'"
      by (auto split: option.splits)
    show ?thesis by (rule Cons.IH [OF b(2) keep [OF find_field_in [OF Some] b(1) Cons.prems(2)]])
  qed
qed simp

lemma dec_struct_inv:
  assumes "\<And>d v a a'. d \<in> snd ` set fs \<Longrightarrow> d v a = Some a' \<Longrightarrow> P a \<Longrightarrow> P a'"
    and "dec_struct fs j a = Some a'" and "P a"
  shows "P a'"
  using assms(2,3) dec_fields_inv [of fs P, OF assms(1)] by (cases j) auto

lemma dec_int64_range: "dec_int64 j i = Some n \<Longrightarrow> int64_ok i \<Longrightarrow> int64_ok n"
  by (cases j) (auto simp: dec_int64.simps(2) int64_ok_def split: if_splits)

lemma int64_ok_0: "int64_ok 0"
  by (simp add: int64_ok_def)

lemma dec_all_inv: "dec_all d js = Some xs \<Longrightarrow> (\<And>j x. d j = Some x \<Longrightarrow> P x) \<Longrightarrow> list_all P xs"
  by (induction js arbitrary: xs) (auto split: option.splits)

lemma dec_slice_inv: "dec_slice d j ys = Some xs \<Longrightarrow> (\<And>j x. d j = Some x \<Longrightarrow> P x) \<Longrightarrow> list_all P xs"
  by (cases j) (auto intro: dec_all_inv)

lemma wire_column_range: "wire_column j = Some c \<Longrightarrow> int64_ok (fst c)"
  unfolding wire_column_def
  by (rule dec_struct_inv [of _ "\<lambda>c. int64_ok (fst c)"])
    (auto simp: field_def dec_int64_range int64_ok_0)

lemma wire_columns_range: "wire_columns j = Some cs \<Longrightarrow> list_all (\<lambda>c. int64_ok (fst c)) cs"
  unfolding wire_columns_def
  by (rule dec_struct_inv [of _ "list_all (\<lambda>c. int64_ok (fst c))"])
    (auto simp: field_def one_field_def intro: dec_slice_inv wire_column_range)

lemma wire_receipt_range: "wire_receipt j = Some (v, c, es) \<Longrightarrow> int64_ok v \<and> int64_ok c"
  using dec_struct_inv [of "[(''version'', field dec_int64 fst (\<lambda>x (v, c, e). (x, c, e))),
      (''copies'', field dec_int64 (\<lambda>(v, c, e). c) (\<lambda>x (v, c, e). (v, x, e))),
      (''elements'', field (dec_slice Some) (\<lambda>(v, c, e). e) (\<lambda>x (v, c, e). (v, c, x)))]"
    "\<lambda>(v, c, e). int64_ok v \<and> int64_ok c" j "(0, 0, [])" "(v, c, es)"]
  unfolding wire_receipt_def
  by (fastforce simp: field_def dec_int64_range int64_ok_0)

lemma nests_elements_all: "nests_elements P d (map Some els) \<longleftrightarrow> list_all (nests P d) els"
  by (induction els) simp_all

lemma nests_columns_all:
  "nests_columns P d cols \<longleftrightarrow> list_all (\<lambda>c. case c of Column w els \<Rightarrow> int64_ok w \<and> nests_elements P d els) cols"
  by (induction P d cols rule: nests_nests_columns_nests_elements.induct(2)) simp_all

lemma sum_map_inv:
  "sum_map f xs = Inr ys \<Longrightarrow> (\<And>x y. x \<in> set xs \<Longrightarrow> f x = Inr y \<Longrightarrow> P y) \<Longrightarrow> list_all P ys"
proof (induction xs arbitrary: ys)
  case (Cons x xs)
  then obtain y zs where "f x = Inr y" "sum_map f xs = Inr zs" "ys = y # zs" by (auto split: sum.splits)
  moreover have "list_all P zs" by (rule Cons.IH) (use calculation Cons.prems(2) in auto)
  ultimately show ?case using Cons.prems(2) [of x y] by simp
qed simp

lemma registry_no_columns:
  "map_of registry ty = Some dec \<Longrightarrow> dec j = Some el \<Longrightarrow> \<forall>cols. el \<noteq> EColumns cols"
  by (auto simp: registry_defs split: if_splits)

text \<open>Every number of an element, columns apart, is a 64-bit one.\<close>

fun numbers_ok :: "element \<Rightarrow> bool" where
  "numbers_ok (EText t) \<longleftrightarrow> int64_ok (t_size t)"
| "numbers_ok (EDivider d) \<longleftrightarrow> int64_ok (d_size d)"
| "numbers_ok (ESpacer h) \<longleftrightarrow> int64_ok h"
| "numbers_ok (EAsset a) \<longleftrightarrow> int64_ok (a_width a)"
| "numbers_ok (EQRCode q) \<longleftrightarrow> int64_ok (q_size q)"
| "numbers_ok (EBarcode b) \<longleftrightarrow> int64_ok (b_height b)"
| "numbers_ok (EList l) \<longleftrightarrow> list_all (\<lambda>i. int64_ok (li_indent i)) (l_items l)"
| "numbers_ok (EFeed n) \<longleftrightarrow> int64_ok n"
| "numbers_ok _ \<longleftrightarrow> True"

lemma decode_item_number: "decode_item j = Some i \<Longrightarrow> int64_ok (li_indent i)"
  unfolding decode_item_def
  by (rule dec_struct_inv [of item_fields "\<lambda>i. int64_ok (li_indent i)"])
    (auto simp: item_fields_def field_def dec_int64_range int64_ok_0)

lemma decode_items_number:
  "dec_slice decode_item j is = Some is' \<Longrightarrow> list_all (\<lambda>i. int64_ok (li_indent i)) is'"
  by (rule dec_slice_inv) (auto intro: decode_item_number)

lemma decode_numbers:
  "dec_struct text_fields j zero_text = Some t \<Longrightarrow> int64_ok (t_size t)"
  "dec_struct divider_fields j \<lparr>d_style = '''', d_size = 0\<rparr> = Some d \<Longrightarrow> int64_ok (d_size d)"
  "dec_struct asset_fields j \<lparr>a_name = '''', a_width = 0, a_align = ''''\<rparr> = Some a \<Longrightarrow> int64_ok (a_width a)"
  "dec_struct qrcode_fields j \<lparr>q_content = '''', q_size = 0, q_error_correction = ''''\<rparr> = Some q \<Longrightarrow> int64_ok (q_size q)"
  "dec_struct barcode_fields j \<lparr>b_content = '''', b_symbology = '''', b_height = 0, b_show_text = False\<rparr> = Some b \<Longrightarrow>
     int64_ok (b_height b)"
  "dec_struct list_fields j \<lparr>l_kind = '''', l_items = []\<rparr> = Some l \<Longrightarrow> list_all (\<lambda>i. int64_ok (li_indent i)) (l_items l)"
  "dec_struct (one_field k dec_int64) j 0 = Some n \<Longrightarrow> int64_ok n"
  subgoal by (rule dec_struct_inv [of text_fields "\<lambda>t. int64_ok (t_size t)"])
    (auto simp: text_fields_def field_def dec_int64_range int64_ok_0)
  subgoal by (rule dec_struct_inv [of divider_fields "\<lambda>t. int64_ok (d_size t)"])
    (auto simp: divider_fields_def field_def dec_int64_range int64_ok_0)
  subgoal by (rule dec_struct_inv [of asset_fields "\<lambda>t. int64_ok (a_width t)"])
    (auto simp: asset_fields_def field_def dec_int64_range int64_ok_0)
  subgoal by (rule dec_struct_inv [of qrcode_fields "\<lambda>t. int64_ok (q_size t)"])
    (auto simp: qrcode_fields_def field_def dec_int64_range int64_ok_0)
  subgoal by (rule dec_struct_inv [of barcode_fields "\<lambda>t. int64_ok (b_height t)"])
    (auto simp: barcode_fields_def field_def dec_int64_range int64_ok_0)
  subgoal by (rule dec_struct_inv [of list_fields "\<lambda>l. list_all (\<lambda>i. int64_ok (li_indent i)) (l_items l)"])
    (auto simp: list_fields_def field_def decode_items_number)
  subgoal by (rule dec_struct_inv [of "one_field k dec_int64" int64_ok])
    (auto simp: one_field_def field_def dec_int64_range int64_ok_0)
  done

lemma registry_numbers: "map_of registry ty = Some dec \<Longrightarrow> dec j = Some el \<Longrightarrow> numbers_ok el"
  by (auto simp: registry_defs decode_numbers split: if_splits)

lemma nests_leaf: "\<forall>cols. el \<noteq> EColumns cols \<Longrightarrow> nests P d el \<longleftrightarrow> d \<le> maxElementDepth \<and> P el"
  by (cases el) simp_all

lemma decode_nests: "decodeElement je d j = Inr el \<Longrightarrow> nests numbers_ok d el"
proof (induction je d j arbitrary: el rule: decodeElement.induct)
  case (1 je d j)
  show ?case
  proof (cases "wire_columns j")
    case None
    with 1(2) show ?thesis
      by (subst (asm) decodeElement.simps) (auto simp: nests_leaf registry_no_columns registry_numbers split: if_splits option.splits)
  next
    case (Some wire)
    have "list_all (\<lambda>c. case c of Column w els \<Rightarrow> int64_ok w \<and> nests_elements numbers_ok (d + 1) els) cols"
      if ok: "\<not> maxElementDepth < d" "dec_struct (one_field ''type'' dec_string) j '''' = Some ''columns''"
        "sum_map (\<lambda>(weight, raws). case sum_map (\<lambda>raw. decodeElement je (d + 1) raw) raws of
                            Inl err \<Rightarrow> Inl err
                          | Inr els \<Rightarrow> Inr (Column weight (map Some els))) wire = Inr cols" for cols
    proof (rule sum_map_inv [OF ok(3)], clarsimp split: sum.splits)
      fix w raws els
      assume raws: "(w, raws) \<in> set wire" and els: "sum_map (decodeElement je (d + 1)) raws = Inr els"
      have "int64_ok w" using wire_columns_range [OF Some] raws by (force simp: list_all_iff)
      moreover have "list_all (nests numbers_ok (d + 1)) els"
        by (rule sum_map_inv [OF els]) (use 1(1) [OF ok(1,2) refl Some raws refl] in blast)
      ultimately show "int64_ok w \<and> nests_elements numbers_ok (d + 1) (map Some els)"
        by (simp add: nests_elements_all)
    qed
    with 1(2) Some show ?thesis
      by (subst (asm) decodeElement.simps)
        (auto simp: nests_leaf registry_no_columns registry_numbers nests_columns_all split: if_splits option.splits sum.splits)
  qed
qed

section \<open>Properties\<close>

definition sample_order :: receipt where
  "sample_order = \<lparr>r_version = 1, r_copies = 2, r_elements =
     [Some (EHeading ''Bill''),
      Some (EColumns [Column 2 [Some (EColumns [Column 0 [Some (ECut ''partial''), Some (EImage [1, 2])]])],
                      Column 0 [Some (EList \<lparr>l_kind = ''bullet'',
                        l_items = [\<lparr>li_content = ''tea'', li_checked = True, li_indent = 1\<rparr>]\<rparr>)]])]\<rparr>"

text \<open>
  (C24) A receipt whose strings are UTF-8, whose numbers fit 64 bits, which holds no nil element and
  nests columns at most 32 deep is decoded from its own encoding unchanged, by every element type's
  encoder and decoder, whatever is omitted as empty.
\<close>

theorem receipt_json_roundtrip:
  assumes "nests_elements leaf_wire 0 (r_elements r)" and "int64_ok (r_version r)" and "int64_ok (r_copies r)"
  shows "unmarshal_receipt je (marshal_receipt r) = Inr r"
  using assms by (rule receipt_json_facts)

theorem receipt_json_roundtrip_witness:
  "unmarshal_receipt (Leaf ''json'') (marshal_receipt sample_order) = Inr sample_order"
  by (rule receipt_json_roundtrip)
    (simp_all add: sample_order_def int64_ok_def maxElementDepth_def valid_string_ascii)

text \<open>
  (C25) Whatever JSON the decoder accepts, the receipt it makes has no nil element anywhere, columns nested at
  most 32 deep, and only 64-bit numbers: its version and copies, every column weight, and every size, width, height, indent
  and line count of its elements, at any depth.
\<close>

theorem decoded_receipts_bounded:
  assumes "unmarshal_receipt je j = Inr r"
  shows "nests_elements numbers_ok 0 (r_elements r) \<and> int64_ok (r_version r) \<and> int64_ok (r_copies r)"
proof -
  obtain v c raws els where w: "wire_receipt j = Some (v, c, raws)" and els: "sum_map (decodeElement je 0) raws = Inr els"
    and r: "r = \<lparr>r_version = v, r_copies = c, r_elements = map Some els\<rparr>"
    using assms by (auto simp: unmarshal_receipt_def split: option.splits sum.splits)
  have "list_all (nests numbers_ok 0) els" by (rule sum_map_inv [OF els decode_nests])
  with wire_receipt_range [OF w] r show ?thesis by (simp add: nests_elements_all)
qed

theorem decoded_receipts_bounded_witness:
  "nests_elements numbers_ok 0 (r_elements \<lparr>r_version = 0, r_copies = 3, r_elements = [Some (EFeed 2)]\<rparr>)"
proof -
  have "unmarshal_receipt (Leaf ''json'') (JObj [(''copies'', JInt 3),
      (''elements'', JArr [JObj [(''lines'', JInt 2), (''type'', JStr ''feed'')]])])
    = Inr \<lparr>r_version = 0, r_copies = 3, r_elements = [Some (EFeed 2)]\<rparr>"
    by (simp add: unmarshal_receipt_def wire_receipt_def decodeElement.simps maxElementDepth_def registry_defs
        one_field_def find_field_def field_def dec_int64.simps(2))
  from decoded_receipts_bounded [OF this] show ?thesis by blast
qed

end
