(* ===== verification/Api.thy ===== *)
theory Api
  imports Auth ReceiptJson
begin

text \<open>
  Package \<open>internal/api\<close>: the handlers of the REST API over \<open>app.Service\<close>, and the translation of errors
  to statuses.  The state is the queue's store and the world the service works in.  The text level
  of JSON is the parameter \<open>json_text\<close>: the first value of a stream, a whole text, and the encoder.
\<close>

datatype scanned = Whole json | Broken goerr | Short goerr

record json_text =
  jt_first :: "byte list \<Rightarrow> scanned"
  jt_unmarshal :: "byte list \<Rightarrow> goerr + json"
  jt_encode :: "json \<Rightarrow> byte list"
  jt_type_error :: goerr

section \<open>Statuses\<close>

fun statusForKind :: "kind \<Rightarrow> int" where
  "statusForKind KindValidation = 400"
| "statusForKind KindNotFound = 404"
| "statusForKind KindUnauthorized = 401"
| "statusForKind KindTransient = 503"
| "statusForKind KindPermanent = 500"
| "statusForKind _ = 500"

text \<open>A typed nil \<open>*apperr.Error\<close> in the chain would be dereferenced.\<close>

definition statusForError :: "goerr \<Rightarrow> int \<Rightarrow> int res" where
  "statusForError err fallback =
     (case errors_as err of
        Some (AppErr k op c) \<Rightarrow> Val (statusForKind k)
      | Some _ \<Rightarrow> Panic ''runtime error: invalid memory address or nil pointer dereference''
      | None \<Rightarrow> Val fallback)"

definition internalServerErrorMessage :: string where
  "internalServerErrorMessage = ''internal server error''"

text \<open>The encoder ends its output with a newline.\<close>

definition writeJSON :: "json_text \<Rightarrow> (string \<times> string) list \<Rightarrow> int \<Rightarrow> json \<Rightarrow> response" where
  "writeJSON jt hs status v =
     \<lparr>rs_status = status, rs_headers = hs @ [(''Content-Type'', ''application/json'')],
      rs_body = jt_encode jt v @ [10]\<rparr>"

definition error_json :: "string \<Rightarrow> json" where
  "error_json message = JObj [(''error'', str message)]"

definition writeError :: "json_text \<Rightarrow> int \<Rightarrow> goerr \<Rightarrow> response" where
  "writeError jt status err =
     (let message = (if status \<ge> 500 then internalServerErrorMessage else error_text err)
      in writeJSON jt [] status (error_json message))"

definition fail_with :: "json_text \<Rightarrow> goerr \<Rightarrow> int \<Rightarrow> response res" where
  "fail_with jt err fallback = go_bind (statusForError err fallback) (\<lambda>status. Val (writeError jt status err))"

section \<open>Reading a request\<close>

definition maxRequestBodyBytes :: nat where
  "maxRequestBodyBytes = 10 * 2 ^ 20"

text \<open>
  The decoder reads the first value of what \<open>MaxBytesReader\<close> lets through; when that is cut short, the
  error is the reader's own.  The left results are the two exits of the handlers.
\<close>

definition read_body :: "json_text \<Rightarrow> byte list \<Rightarrow> (goerr \<times> bool) + json" where
  "read_body jt body =
     (case jt_first jt (take maxRequestBodyBytes body) of
        Whole j \<Rightarrow> Inr j
      | Broken e \<Rightarrow> Inl (e, False)
      | Short e \<Rightarrow>
          if length body > maxRequestBodyBytes then Inl (Leaf ''http: request body too large'', True)
          else Inl (e, False))"

text \<open>
  \<open>printRequest\<close> and \<open>previewRequest\<close>.  The receipt decodes itself.
\<close>

definition zero_receipt :: receipt where
  "zero_receipt = \<lparr>r_version = 0, r_copies = 0, r_elements = []\<rparr>"

definition print_request_fields :: "goerr \<Rightarrow> (goerr, string \<times> receipt) own_field list" where
  "print_request_fields je =
     [(''printer'', plain dec_string fst (\<lambda>x. apfst (\<lambda>_. x))),
      (''receipt'', own (unmarshal_receipt je) (\<lambda>x. apsnd (\<lambda>_. x)))]"

definition decode_request :: "goerr \<Rightarrow> json \<Rightarrow> goerr + string \<times> receipt" where
  "decode_request je j = dec_own_struct (print_request_fields je) je j ('''', zero_receipt)"

text \<open>The common start of the two handlers that read a request.\<close>

definition with_request ::
  "json_text \<Rightarrow> request \<Rightarrow> (string \<Rightarrow> receipt \<Rightarrow> 'w \<Rightarrow> response res \<times> 'w) \<Rightarrow> 'w \<Rightarrow> response res \<times> 'w" where
  "with_request jt r k w =
     (case read_body jt (hr_body r) of
        Inl (err, True) \<Rightarrow> (Val (writeError jt 413 err), w)
      | Inl (err, False) \<Rightarrow> (fail_with jt err 400, w)
      | Inr j \<Rightarrow>
          (case decode_request (jt_type_error jt) j of
             Inl err \<Rightarrow> (fail_with jt err 400, w)
           | Inr (p, rc) \<Rightarrow> k p rc w))"

section \<open>The handlers\<close>

text \<open>What a request draws from outside: the random ID and the clock.\<close>

record draws =
  dr_new_id :: "goerr + string"
  dr_now :: time

definition PrintHandler ::
  "json_text \<Rightarrow> codecs \<Rightarrow> ('s, 'w) service \<Rightarrow> draws \<Rightarrow> ('s \<times> 'w) handler" where
  "PrintHandler jt cd svc dr r = with_request jt r (\<lambda>printer rc (s, w).
     let idempotencyKey = hr_header r ''Idempotency-Key'' in
     case service_Print cd svc (dr_new_id dr) (dr_now dr) rc printer idempotencyKey s of
       (Inl err, s) \<Rightarrow> (fail_with jt err 500, (s, w))
     | (Inr jobID, s) \<Rightarrow> (Val (writeJSON jt [] 202 (JObj [(''job_id'', str jobID)])), (s, w)))"

definition PreviewHandler ::
  "json_text \<Rightarrow> codecs \<Rightarrow> face \<Rightarrow> (int \<Rightarrow> int \<Rightarrow> int list list \<Rightarrow> goerr + byte list) \<Rightarrow> ('s, 'w) service
     \<Rightarrow> ('s \<times> 'w) handler" where
  "PreviewHandler jt cd fc png svc r = with_request jt r (\<lambda>printer rc (s, w).
     (case service_Preview cd fc png svc w rc printer of
        Val pngBytes \<Rightarrow> Val \<lparr>rs_status = 200, rs_headers = [(''Content-Type'', ''image/png'')], rs_body = pngBytes\<rparr>
      | Fail err \<Rightarrow> fail_with jt err 500
      | Panic m \<Rightarrow> Panic m
      | Diverge \<Rightarrow> Diverge, (s, w)))"

definition jobFailureMessage :: string where
  "jobFailureMessage = ''job processing failed; see server logs for details''"

definition sanitizedLastError :: "string \<Rightarrow> string" where
  "sanitizedLastError raw = (if raw = '''' then '''' else jobFailureMessage)"

text \<open>\<open>fmt_time\<close> is the JSON form of a time.\<close>

definition job_status_json :: "(time \<Rightarrow> string) \<Rightarrow> job \<Rightarrow> json" where
  "job_status_json fmt_time j = JObj
     [(''id'', str (j_id j)), (''printer_name'', str (j_printer j)), (''receipt'', marshal_receipt (j_receipt j)),
      (''state'', str (job_state_string (j_state j))), (''attempts'', JInt (j_attempts j)),
      (''last_error'', str (sanitizedLastError (j_last_error j))),
      (''created_at'', JStr (fmt_time (j_created j))), (''updated_at'', JStr (fmt_time (j_updated j)))]"

definition JobStatusHandler ::
  "json_text \<Rightarrow> (time \<Rightarrow> string) \<Rightarrow> ('s, 'w) service \<Rightarrow> string \<Rightarrow> ('s \<times> 'w) handler" where
  "JobStatusHandler jt fmt_time svc i r sw =
     (case service_JobStatus svc i (fst sw) of
        Inl err \<Rightarrow> (fail_with jt err 500, sw)
      | Inr j \<Rightarrow> (Val (writeJSON jt [] 200 (job_status_json fmt_time j)), sw))"

definition VersionHandler :: "json_text \<Rightarrow> build_info \<Rightarrow> 'w handler" where
  "VersionHandler jt b r w =
     (Val (writeJSON jt [(''Cache-Control'', ''no-store'')] 200
        (JObj [(''version'', str (bi_version b)), (''commit'', str (bi_commit b)), (''date'', str (bi_date b))])), w)"

section \<open>Properties\<close>

definition hides :: "json_text \<Rightarrow> response \<Rightarrow> bool" where
  "hides jt resp \<longleftrightarrow> (500 \<le> rs_status resp \<longrightarrow> resp = writeJSON jt [] (rs_status resp) (error_json internalServerErrorMessage))
     \<and> rs_status resp \<in> {200, 202, 400, 401, 404, 413, 500, 503}"

lemma hides_fail_with: "fail_with jt err fallback = Val resp \<Longrightarrow> fallback \<in> {400, 500} \<Longrightarrow> hides jt resp"
proof -
  have e: "hides jt (writeError jt st err)" if "st \<in> {400, 404, 401, 503, 500}" for st
    using that by (auto simp: hides_def writeError_def writeJSON_def)
  assume a: "fail_with jt err fallback = Val resp" "fallback \<in> {400, 500}"
  obtain st where "st \<in> {400, 404, 401, 503, 500}" "resp = writeError jt st err"
  proof (cases "errors_as err")
    case None
    with a that [of fallback] show ?thesis by (auto simp: fail_with_def statusForError_def)
  next
    case (Some x)
    with a(1) obtain k op c where "x = AppErr k op c" "resp = writeError jt (statusForKind k) err"
      by (cases x) (auto simp: fail_with_def statusForError_def)
    then show ?thesis using that [of "statusForKind k"] by (cases k) simp_all
  qed
  with e show ?thesis by blast
qed

lemma hides_ok: "rs_status resp \<in> {200, 202} \<Longrightarrow> hides jt resp"
  by (auto simp: hides_def)

lemma with_request_hides:
  assumes "with_request jt r k w = (Val resp, w')"
    and "\<And>p rc w w'. k p rc w = (Val resp, w') \<Longrightarrow> hides jt resp"
  shows "hides jt resp"
proof -
  have "hides jt (writeError jt 413 e)" for e by (simp add: hides_def writeError_def writeJSON_def)
  with assms show ?thesis
    by (auto simp: with_request_def intro: hides_fail_with split: sum.splits prod.splits bool.splits)
qed

lemma print_hides: "PrintHandler jt cd svc dr r sw = (Val resp, sw') \<Longrightarrow> hides jt resp"
  unfolding PrintHandler_def
  by (erule with_request_hides)
    (auto simp: Let_def hides_ok writeJSON_def intro: hides_fail_with split: prod.splits sum.splits)

lemma preview_hides: "PreviewHandler jt cd fc png svc r sw = (Val resp, sw') \<Longrightarrow> hides jt resp"
  unfolding PreviewHandler_def
  by (erule with_request_hides) (auto simp: hides_ok intro: hides_fail_with split: prod.splits go.splits)

text \<open>
  (C28) The trust boundary of the API: whatever the handlers answer, the status is one of those the
  error kinds map to (or a success, or 413), and an answer of the 500s is the same fixed message
  whatever the error was; a status query changes nothing and never shows the stored error text of a job.
\<close>

theorem api_hides_internals:
  "(\<forall>resp sw'. PrintHandler jt cd svc dr r sw = (Val resp, sw') \<longrightarrow> hides jt resp)
   \<and> (\<forall>resp sw'. PreviewHandler jt cd fc png svc r sw = (Val resp, sw') \<longrightarrow> hides jt resp \<and> sw' = sw)
   \<and> (\<forall>resp sw'. JobStatusHandler jt ft svc i r sw = (Val resp, sw') \<longrightarrow> hides jt resp \<and> sw' = sw
        \<and> (\<forall>j. service_JobStatus svc i (fst sw) = Inr j \<longrightarrow>
             resp = writeJSON jt [] 200 (job_status_json ft
               (j\<lparr>j_last_error := if j_last_error j = '''' then '''' else jobFailureMessage\<rparr>))))"
proof (intro conjI allI impI)
  fix resp sw'
  show "hides jt resp" if "PrintHandler jt cd svc dr r sw = (Val resp, sw')" using that by (rule print_hides)
  show "hides jt resp" if "PreviewHandler jt cd fc png svc r sw = (Val resp, sw')" using that by (rule preview_hides)
  show "sw' = sw" if "PreviewHandler jt cd fc png svc r sw = (Val resp, sw')"
    using that by (auto simp: PreviewHandler_def with_request_def split: prod.splits sum.splits bool.splits)
  show "hides jt resp" "sw' = sw" if "JobStatusHandler jt ft svc i r sw = (Val resp, sw')"
    using that by (auto simp: JobStatusHandler_def hides_ok writeJSON_def intro: hides_fail_with split: sum.splits)
  show "resp = writeJSON jt [] 200 (job_status_json ft
      (j\<lparr>j_last_error := if j_last_error j = '''' then '''' else jobFailureMessage\<rparr>))"
    if "JobStatusHandler jt ft svc i r sw = (Val resp, sw')" "service_JobStatus svc i (fst sw) = Inr j" for j
    using that by (auto simp: JobStatusHandler_def job_status_json_def sanitizedLastError_def jobFailureMessage_def)
qed

definition bare_json :: json_text where
  "bare_json = \<lparr>jt_first = (\<lambda>bs. Short (Leaf ''unexpected EOF'')), jt_unmarshal = (\<lambda>bs. Inl (Leaf ''unexpected EOF'')),
     jt_encode = (\<lambda>j. []), jt_type_error = Leaf ''type''\<rparr>"

theorem api_hides_internals_witness:
  "\<exists>resp. JobStatusHandler bare_json (\<lambda>t. dec_int t) sample_service ''7f''
        \<lparr>hr_method = ''GET'', hr_path = '''', hr_query = '''', hr_header = (\<lambda>h. ''''), hr_body = []\<rparr>
        ([(''7f'', sample_job\<lparr>j_last_error := ''dial 10.0.0.7''\<rparr>)], []) = (Val resp, ([(''7f'', sample_job\<lparr>j_last_error := ''dial 10.0.0.7''\<rparr>)], []))
      \<and> hides bare_json resp"
proof -
  let ?r = "\<lparr>hr_method = ''GET'', hr_path = '''', hr_query = '''', hr_header = (\<lambda>h. ''''), hr_body = []\<rparr>"
  let ?sw = "([(''7f'', sample_job\<lparr>j_last_error := ''dial 10.0.0.7''\<rparr>)], []) :: (string \<times> job) list \<times> byte list"
  obtain resp sw' where h: "JobStatusHandler bare_json (\<lambda>t. dec_int t) sample_service ''7f'' ?r ?sw = (Val resp, sw')"
    by (auto simp: JobStatusHandler_def service_JobStatus_def queue_Get_def bolt_get_def NewQueue_def
      NewWithRetry_def db_view_def list_bbolt_def list_bucket_def plain_codec_def bolt_ops_def split: sum.splits)
  with api_hides_internals show ?thesis by blast
qed

end
