(* ===== verification/WebPages.thy ===== *)
theory WebPages
  imports Api
begin

text \<open>
  Package \<open>internal/webui\<close>: the pages of the Web UI, their models, and the handlers behind them.  The
  templates, \<open>mime\<close>, the multipart parser, the HMAC and the clock's display are parameters.
\<close>

section \<open>What the pages use from outside\<close>

record asset_row =
  ar_name :: string
  ar_size :: string
  ar_modified :: string
  ar_is_image :: bool

record printer_row =
  pw_name :: string
  pw_transport :: string
  pw_address :: string
  pw_width_dots :: int
  pw_dpi :: int
  pw_cut :: string
  pw_partial_cut :: string
  pw_status :: string
  pw_status_class :: string

record dashboard_page =
  dp_printer_count :: int
  dp_printers_online :: int
  dp_status_message :: string
  dp_asset_count :: int
  dp_queue_pending :: int
  dp_queue_running :: int
  dp_queue_done :: int
  dp_queue_failed :: int
  dp_queue_cancelled :: int
  dp_queue_total :: int

record preview_page =
  pv_receipt_json :: string
  pv_printer :: string
  pv_message :: string
  pv_image_data_uri :: string
  pv_printers :: "string list"

record print_page =
  pt_receipt_json :: string
  pt_printer :: string
  pt_message :: string
  pt_csrf_token :: string
  pt_job_id :: string
  pt_printers :: "string list"

text \<open>A page model names the template that renders it.\<close>

datatype page =
    ErrorPage string
  | DashboardPage dashboard_page
  | PrintersPage "printer_row list"
  | AssetsPage "asset_row list" string
  | PreviewPage preview_page
  | PrintPage print_page

text \<open>A parsed multipart form: its values, and its files with what opening and then reading each gives.\<close>

record multipart =
  mp_values :: "(string \<times> string) list"
  mp_files :: "(string \<times> (goerr + (goerr + byte list))) list"

text \<open>
  \<open>we_execute version page\<close> is \<open>ExecuteTemplate\<close>; \<open>we_multipart\<close> reads a multipart body of at most so
  many bytes; \<open>we_media\<close> is \<open>mime.ParseMediaType\<close>; \<open>we_disposition\<close> is \<open>mime.FormatMediaType\<close> with a
  \<open>filename\<close>.
\<close>

record web_env =
  we_json :: json_text
  we_codecs :: codecs
  we_face :: face
  we_png :: "int \<Rightarrow> int \<Rightarrow> int list list \<Rightarrow> goerr + byte list"
  we_secret :: "byte list"
  we_hmac :: "byte list \<Rightarrow> byte list \<Rightarrow> byte list"
  we_media :: "string \<Rightarrow> string \<times> goerr option"
  we_multipart :: "nat \<Rightarrow> request \<Rightarrow> goerr + multipart"
  we_execute :: "string \<Rightarrow> page \<Rightarrow> goerr + byte list"
  we_disposition :: "string \<Rightarrow> string \<Rightarrow> string"
  we_mod_time :: "time \<Rightarrow> string"
  we_moved :: "string \<Rightarrow> request \<Rightarrow> response"
  we_static :: "request \<Rightarrow> response"

section \<open>Rendering\<close>

definition web_maxRequestBodyBytes :: nat where
  "web_maxRequestBodyBytes = 10 * 2 ^ 20"

definition render :: "web_env \<Rightarrow> string \<Rightarrow> int \<Rightarrow> page \<Rightarrow> response" where
  "render we version status data =
     (case we_execute we version data of
        Inl err \<Rightarrow> http_Error [] ''internal server error'' 500
      | Inr buf \<Rightarrow> \<lparr>rs_status = status, rs_headers = [(''Content-Type'', ''text/html; charset=utf-8'')], rs_body = buf\<rparr>)"

definition statusForErr :: "goerr \<Rightarrow> int res" where
  "statusForErr err =
     (case errors_as err of
        Some (AppErr k op c) \<Rightarrow>
          Val (case k of KindValidation \<Rightarrow> 400 | KindNotFound \<Rightarrow> 404 | KindUnauthorized \<Rightarrow> 401
                 | KindTransient \<Rightarrow> 503 | KindPermanent \<Rightarrow> 500 | _ \<Rightarrow> 500)
      | Some _ \<Rightarrow> Panic ''runtime error: invalid memory address or nil pointer dereference''
      | None \<Rightarrow> Val 500)"

definition renderError :: "web_env \<Rightarrow> string \<Rightarrow> string \<Rightarrow> goerr \<Rightarrow> response res" where
  "renderError we version title err =
     go_bind (statusForErr err) (\<lambda>status.
       Val (render we version status (ErrorPage (title @ '' could not load right now. Please try again shortly.''))))"

text \<open>\<open>http.Redirect\<close> in answer to a \<open>POST\<close>, to a clean absolute path.\<close>

definition redirect :: "string \<Rightarrow> response" where
  "redirect url = \<lparr>rs_status = 303, rs_headers = [(''Location'', url)], rs_body = []\<rparr>"

abbreviation version_of :: "('s, 'w) service \<Rightarrow> string" where
  "version_of svc \<equiv> bi_version (sv_build svc)"

section \<open>The CSRF token\<close>

text \<open>\<open>read\<close> is \<open>rand.Read\<close>.\<close>

definition mustRandomBytes :: "(nat \<Rightarrow> goerr + byte list) \<Rightarrow> nat \<Rightarrow> byte list res" where
  "mustRandomBytes read n =
     (case read n of
        Inl err \<Rightarrow> Panic (''webui: failed to generate CSRF secret: '' @ error_text err)
      | Inr b \<Rightarrow> Val b)"

definition csrfTokenMessage :: string where
  "csrfTokenMessage = ''receiptd-webui-csrf''"

definition csrfFieldName :: string where
  "csrfFieldName = ''csrf_token''"

text \<open>\<open>base64.RawURLEncoding\<close>.\<close>

definition raw_url_encode :: "byte list \<Rightarrow> string" where
  "raw_url_encode bs = map (\<lambda>c. if c = CHR ''+'' then CHR ''-'' else if c = CHR ''/'' then CHR ''_'' else c)
     (filter (\<lambda>c. c \<noteq> CHR ''='') (b64_encode bs))"

definition csrfToken :: "web_env \<Rightarrow> string" where
  "csrfToken we = raw_url_encode (we_hmac we (we_secret we) (bytes csrfTokenMessage))"

definition errCSRF :: goerr where
  "errCSRF = Leaf ''missing or invalid CSRF token''"

text \<open>
  \<open>r.Form\<close>, which \<open>FormValue\<close> looks through: after \<open>ParseForm\<close>, and after \<open>ParseMultipartForm\<close>, which adds
  the values of the multipart form.  \<open>FormValue\<close> itself parses nothing once one of them has been called.
\<close>

definition form_values :: "web_env \<Rightarrow> request \<Rightarrow> (string \<times> string) list" where
  "form_values we r = fst (ParseForm (we_media we) web_maxRequestBodyBytes r)"

definition all_values :: "web_env \<Rightarrow> request \<Rightarrow> (string \<times> string) list" where
  "all_values we r = form_values we r
     @ (case we_multipart we web_maxRequestBodyBytes r of Inl e \<Rightarrow> [] | Inr mp \<Rightarrow> mp_values mp)"

text \<open>\<open>form\<close> is the request's \<open>r.Form\<close>.\<close>

definition verifyCSRF :: "web_env \<Rightarrow> (string \<times> string) list \<Rightarrow> bool" where
  "verifyCSRF we form \<longleftrightarrow> form_value form csrfFieldName = csrfToken we"

section \<open>The Dashboard and its poll\<close>

definition onlinePrinterCount :: "printer_summary list \<Rightarrow> int" where
  "onlinePrinterCount printers = fold (\<lambda>p online. if pm_online p then online + 1 else online) printers 0"

definition printerStatusMessage :: "int \<Rightarrow> int \<Rightarrow> string" where
  "printerStatusMessage online n =
     (if n = 0 then ''No printers configured''
      else if online = n then ''All printers online''
      else dec_int (n - online) @ '' of '' @ dec_int n @ '' printers offline'')"

text \<open>A nil asset store is dereferenced.\<close>

definition with_assets ::
  "('s, 'w) service \<Rightarrow> 's \<times> 'w \<Rightarrow> ('w asset_ops \<Rightarrow> response res \<times> ('s \<times> 'w)) \<Rightarrow> response res \<times> ('s \<times> 'w)" where
  "with_assets svc sw k =
     (case sv_assets svc of
        None \<Rightarrow> (Panic ''runtime error: invalid memory address or nil pointer dereference'', sw)
      | Some ops \<Rightarrow> k ops)"

definition DashboardHandler :: "web_env \<Rightarrow> ('s, 'w) service \<Rightarrow> ('s \<times> 'w) handler" where
  "DashboardHandler we svc r sw =
     (let fail = renderError we (version_of svc) ''Dashboard'' in
      case sw of (s, w) \<Rightarrow>
      (case service_ListPrinters svc w of
         (Inl err, w) \<Rightarrow> (fail err, (s, w))
       | (Inr printers, w) \<Rightarrow> with_assets svc (s, w) (\<lambda>ops.
           (case service_ListAssets ops w of
              Inl err \<Rightarrow> (fail err, (s, w))
            | Inr assetList \<Rightarrow>
                (case service_QueueSummary svc s of
                   Inl err \<Rightarrow> (fail err, (s, w))
                 | Inr q \<Rightarrow>
                     let online = onlinePrinterCount printers in
                     (Val (render we (version_of svc) 200 (DashboardPage
                        \<lparr>dp_printer_count = int (length printers), dp_printers_online = online,
                         dp_status_message = printerStatusMessage online (int (length printers)),
                         dp_asset_count = int (length assetList),
                         dp_queue_pending = qs_pending q, dp_queue_running = qs_running q, dp_queue_done = qs_done q,
                         dp_queue_failed = qs_failed q, dp_queue_cancelled = qs_cancelled q,
                         dp_queue_total = queue_Total q\<rparr>)), (s, w)))))))"

definition writeStatusJSON :: "json_text \<Rightarrow> int \<Rightarrow> json \<Rightarrow> response" where
  "writeStatusJSON jt status v =
     \<lparr>rs_status = status,
      rs_headers = [(''Content-Type'', ''application/json; charset=utf-8''), (''Cache-Control'', ''no-store'')],
      rs_body = jt_encode jt v @ [10]\<rparr>"

definition writeStatusError :: "json_text \<Rightarrow> goerr \<Rightarrow> response res" where
  "writeStatusError jt err =
     go_bind (statusForErr err) (\<lambda>status.
       Val (writeStatusJSON jt status (JObj [(''error'', str ''Status could not load right now. Please try again shortly.'')])))"

definition status_json :: "printer_summary list \<Rightarrow> queue_summary \<Rightarrow> json" where
  "status_json printers q =
     (let online = onlinePrinterCount printers; n = int (length printers) in JObj
        [(''printer_count'', JInt n), (''printers_online'', JInt online),
         (''status_message'', str (printerStatusMessage online n)),
         (''queue_pending'', JInt (qs_pending q)), (''queue_running'', JInt (qs_running q)),
         (''queue_done'', JInt (qs_done q)), (''queue_failed'', JInt (qs_failed q)),
         (''queue_cancelled'', JInt (qs_cancelled q)), (''queue_total'', JInt (queue_Total q))])"

definition StatusHandler :: "web_env \<Rightarrow> ('s, 'w) service \<Rightarrow> ('s \<times> 'w) handler" where
  "StatusHandler we svc r sw =
     (case sw of (s, w) \<Rightarrow>
      (case service_ListPrinters svc w of
         (Inl err, w) \<Rightarrow> (writeStatusError (we_json we) err, (s, w))
       | (Inr printers, w) \<Rightarrow>
           (case service_QueueSummary svc s of
              Inl err \<Rightarrow> (writeStatusError (we_json we) err, (s, w))
            | Inr q \<Rightarrow> (Val (writeStatusJSON (we_json we) 200 (status_json printers q)), (s, w)))))"

section \<open>Printers\<close>

definition capabilityText :: "bool \<Rightarrow> string" where
  "capabilityText supported = (if supported then ''Yes'' else ''No'')"

definition printerStatusText :: "bool \<Rightarrow> string" where
  "printerStatusText online = (if online then ''Online'' else ''Offline'')"

definition printerStatusClass :: "bool \<Rightarrow> string" where
  "printerStatusClass online = (if online then ''online'' else ''offline'')"

definition printer_row_of :: "printer_summary \<Rightarrow> printer_row" where
  "printer_row_of s =
     \<lparr>pw_name = pm_name s, pw_transport = pm_transport s, pw_address = pm_address s,
      pw_width_dots = pm_width_dots s, pw_dpi = pm_dpi s,
      pw_cut = capabilityText (pm_supports_cut s), pw_partial_cut = capabilityText (pm_supports_partial s),
      pw_status = printerStatusText (pm_online s), pw_status_class = printerStatusClass (pm_online s)\<rparr>"

definition PrintersHandler :: "web_env \<Rightarrow> ('s, 'w) service \<Rightarrow> ('s \<times> 'w) handler" where
  "PrintersHandler we svc r sw =
     (case sw of (s, w) \<Rightarrow>
      (case service_ListPrinters svc w of
         (Inl err, w) \<Rightarrow> (renderError we (version_of svc) ''Printers'' err, (s, w))
       | (Inr summaries, w) \<Rightarrow>
           (Val (render we (version_of svc) 200 (PrintersPage (map printer_row_of summaries))), (s, w))))"

section \<open>Preview and Print\<close>

definition empty_preview :: preview_page where
  "empty_preview = \<lparr>pv_receipt_json = '''', pv_printer = '''', pv_message = '''', pv_image_data_uri = '''', pv_printers = []\<rparr>"

definition parse_message :: string where
  "parse_message = ''The submitted receipt JSON could not be parsed. Check the JSON and try again.''"

text \<open>\<open>json.Unmarshal\<close> of a form value into a receipt.\<close>

definition unmarshal_text :: "web_env \<Rightarrow> string \<Rightarrow> goerr + receipt" where
  "unmarshal_text we text =
     (case jt_unmarshal (we_json we) (bytes text) of
        Inl err \<Rightarrow> Inl err
      | Inr j \<Rightarrow> unmarshal_receipt (jt_type_error (we_json we)) j)"

definition Preview_Show :: "web_env \<Rightarrow> ('s, 'w) service \<Rightarrow> ('s \<times> 'w) handler" where
  "Preview_Show we svc r sw =
     (Val (render we (version_of svc) 200 (PreviewPage (empty_preview\<lparr>pv_printers := service_PrinterNames svc\<rparr>))), sw)"

definition Preview_Generate :: "web_env \<Rightarrow> ('s, 'w) service \<Rightarrow> ('s \<times> 'w) handler" where
  "Preview_Generate we svc r sw =
     (let fail = renderError we (version_of svc) ''Preview'' in
      (case snd (ParseForm (we_media we) web_maxRequestBodyBytes r) of
         Some err \<Rightarrow> fail (wrap KindValidation ''webui.Preview'' (Some err))
       | None \<Rightarrow>
           let receiptJSON = form_value (form_values we r) ''receipt''; printerName = form_value (form_values we r) ''printer'' in
           (case unmarshal_text we receiptJSON of
              Inl err \<Rightarrow> Val (render we (version_of svc) 400 (PreviewPage
                (empty_preview\<lparr>pv_receipt_json := receiptJSON, pv_printer := printerName, pv_message := parse_message,
                               pv_printers := service_PrinterNames svc\<rparr>)))
            | Inr rc \<Rightarrow>
                (case service_Preview (we_codecs we) (we_face we) (we_png we) svc (snd sw) rc printerName of
                   Fail err \<Rightarrow> fail err
                 | Panic m \<Rightarrow> Panic m
                 | Diverge \<Rightarrow> Diverge
                 | Val pngBytes \<Rightarrow> Val (render we (version_of svc) 200 (PreviewPage
                     (empty_preview\<lparr>pv_receipt_json := receiptJSON, pv_printer := printerName,
                        pv_image_data_uri := ''data:image/png;base64,'' @ b64_encode pngBytes,
                        pv_printers := service_PrinterNames svc\<rparr>))))), sw))"

definition empty_print :: print_page where
  "empty_print = \<lparr>pt_receipt_json = '''', pt_printer = '''', pt_message = '''', pt_csrf_token = '''', pt_job_id = '''',
     pt_printers = []\<rparr>"

definition Print_Show :: "web_env \<Rightarrow> ('s, 'w) service \<Rightarrow> ('s \<times> 'w) handler" where
  "Print_Show we svc r sw =
     (Val (render we (version_of svc) 200 (PrintPage
        (empty_print\<lparr>pt_job_id := form_value (fst (ParseQuery (hr_query r))) ''job'', pt_csrf_token := csrfToken we,
                     pt_printers := service_PrinterNames svc\<rparr>))), sw)"

definition Print_Submit :: "web_env \<Rightarrow> ('s, 'w) service \<Rightarrow> draws \<Rightarrow> ('s \<times> 'w) handler" where
  "Print_Submit we svc dr r sw =
     (let fail = renderError we (version_of svc) ''Print'' in
      case sw of (s, w) \<Rightarrow>
      (case snd (ParseForm (we_media we) web_maxRequestBodyBytes r) of
         Some err \<Rightarrow> (fail (wrap KindValidation ''webui.Print'' (Some err)), (s, w))
       | None \<Rightarrow>
         if \<not> verifyCSRF we (form_values we r) then (fail (wrap KindValidation ''webui.Print'' (Some errCSRF)), (s, w))
         else
           let receiptJSON = form_value (form_values we r) ''receipt''; printerName = form_value (form_values we r) ''printer'' in
           (case unmarshal_text we receiptJSON of
              Inl err \<Rightarrow> (Val (render we (version_of svc) 400 (PrintPage
                (empty_print\<lparr>pt_receipt_json := receiptJSON, pt_printer := printerName, pt_message := parse_message,
                             pt_csrf_token := csrfToken we, pt_printers := service_PrinterNames svc\<rparr>))), (s, w))
            | Inr rc \<Rightarrow>
                (case service_Print (we_codecs we) svc (dr_new_id dr) (dr_now dr) rc printerName '''' s of
                   (Inl err, s) \<Rightarrow> (fail err, (s, w))
                 | (Inr jobID, s) \<Rightarrow> (Val (redirect (''/print?job='' @ QueryEscape jobID)), (s, w))))))"

section \<open>Assets\<close>

text \<open>The rounding of a quotient to the nearest integer, halves to even.\<close>

definition half_even :: "int \<Rightarrow> int \<Rightarrow> int" where
  "half_even a b =
     (let q = a div b; r = a mod b in
      if 2 * r > b \<or> 2 * r = b \<and> odd q then q + 1 else q)"

text \<open>\<open>float64(n)\<close> for \<open>0 \<le> n < 2 ^ 63\<close>: 53 significant bits, in units of \<open>u\<close>.\<close>

fun float_unit :: "nat \<Rightarrow> int \<Rightarrow> int" where
  "float_unit 0 n = 1"
| "float_unit (Suc k) n = (if n < 2 ^ 53 * 2 ^ k then float_unit k n else 2 ^ Suc k)"

definition float64 :: "int \<Rightarrow> int" where
  "float64 n = (let u = float_unit 10 n in half_even n u * u)"

text \<open>The loop of \<open>formatSize\<close>; \<open>div\<close> is an \<open>int64\<close> but a power of 1024 at most \<open>n\<close>.\<close>

function size_loop :: "int \<Rightarrow> int \<Rightarrow> nat \<Rightarrow> int \<times> nat" where
  "size_loop n dv ex = (if n \<ge> 1024 then size_loop (n div 1024) (dv * 1024) (ex + 1) else (dv, ex))"
  by pat_completeness auto
termination by (relation "measure (\<lambda>(n, dv, ex). nat n)") auto

declare size_loop.simps [simp del]

definition formatSize :: "int \<Rightarrow> string res" where
  "formatSize n =
     (if n < 1024 then Val (dec_int n @ '' B'')
      else case size_loop (n div 1024) 1024 0 of (dv, ex) \<Rightarrow>
        if ex < 6 then
          let t = half_even (10 * float64 n) dv in
          Val (dec_int (t div 10) @ ''.'' @ dec_int (t mod 10) @ '' '' @ [''KMGTPE'' ! ex] @ ''B'')
        else Panic (''runtime error: index out of range''))"

text \<open>\<open>filepath.Ext\<close>: from the last dot of the last path element.\<close>

definition file_ext :: "string \<Rightarrow> string" where
  "file_ext p =
     (let q = takeWhile (\<lambda>c. c \<noteq> CHR ''.'' \<and> c \<noteq> CHR ''/'') (rev p); rest = drop (length q) (rev p)
      in if rest \<noteq> [] \<and> hd rest = CHR ''.'' then CHR ''.'' # rev q else '''')"

text \<open>
  \<open>strings.ToLower\<close>, for comparing with ASCII text: besides the ASCII letters, two runes have an ASCII
  letter as lower case, U+0130 and U+212A.  Other runes are left as they are.
\<close>

definition lower_rune :: "rune \<times> string \<Rightarrow> string" where
  "lower_rune = (\<lambda>(r, b). if r = 0x130 then ''i'' else if r = 0x212A then ''k'' else lower b)"

definition to_lower :: "string \<Rightarrow> string" where
  "to_lower s = concat (map lower_rune (runes s))"

definition inlineImageTypes :: "string \<rightharpoonup> string" where
  "inlineImageTypes = map_of
     [(''.png'', ''image/png''), (''.jpg'', ''image/jpeg''), (''.jpeg'', ''image/jpeg''), (''.gif'', ''image/gif''),
      (''.webp'', ''image/webp'')]"

definition isInlineExtension :: "string \<Rightarrow> bool" where
  "isInlineExtension name \<longleftrightarrow> inlineImageTypes (to_lower (file_ext name)) \<noteq> None"

text \<open>
  \<open>http.DetectContentType\<close> as far as these types go: the signatures start with bytes no earlier entry of
  its table starts with, so each type is detected exactly by its own.
\<close>

definition sniff_image :: "byte list \<Rightarrow> string option" where
  "sniff_image d =
     (if take 6 d = [0x47, 0x49, 0x46, 0x38, 0x37, 0x61] \<or> take 6 d = [0x47, 0x49, 0x46, 0x38, 0x39, 0x61] then Some ''image/gif''
      else if take 4 d = [0x52, 0x49, 0x46, 0x46] \<and> take 6 (drop 8 d) = [0x57, 0x45, 0x42, 0x50, 0x56, 0x50] then Some ''image/webp''
      else if take 8 d = [0x89, 0x50, 0x4E, 0x47, 0x0D, 0x0A, 0x1A, 0x0A] then Some ''image/png''
      else if take 3 d = [0xFF, 0xD8, 0xFF] then Some ''image/jpeg''
      else None)"

definition inlineType :: "string \<Rightarrow> byte list \<Rightarrow> string option" where
  "inlineType name data =
     (case inlineImageTypes (to_lower (file_ext name)) of
        None \<Rightarrow> None
      | Some declared \<Rightarrow> if sniff_image data \<noteq> Some declared then None else Some declared)"

definition asset_row_of :: "web_env \<Rightarrow> asset_summary \<Rightarrow> asset_row res" where
  "asset_row_of we s =
     go_bind (formatSize (am_size s)) (\<lambda>sz.
       Val \<lparr>ar_name = am_name s, ar_size = sz, ar_modified = we_mod_time we (am_mod_time s),
            ar_is_image = isInlineExtension (am_name s)\<rparr>)"

definition Assets_List :: "web_env \<Rightarrow> ('s, 'w) service \<Rightarrow> ('s \<times> 'w) handler" where
  "Assets_List we svc r sw = with_assets svc sw (\<lambda>ops.
     (case service_ListAssets ops (snd sw) of
        Inl err \<Rightarrow> renderError we (version_of svc) ''Assets'' err
      | Inr summaries \<Rightarrow>
          go_bind (go_map (asset_row_of we) summaries) (\<lambda>rows.
            Val (render we (version_of svc) 200 (AssetsPage rows (csrfToken we)))), sw))"

text \<open>\<open>ParseMultipartForm\<close>: an error of the multipart form, else that of \<open>ParseForm\<close>.\<close>

definition Assets_Upload :: "web_env \<Rightarrow> ('s, 'w) service \<Rightarrow> draws \<Rightarrow> ('s \<times> 'w) handler" where
  "Assets_Upload we svc dr r sw =
     (let fail = renderError we (version_of svc) ''Assets''; invalid = (\<lambda>err. fail (wrap KindValidation ''webui.Upload'' (Some err))) in
      (case we_multipart we web_maxRequestBodyBytes r of
         Inl err \<Rightarrow> (invalid err, sw)
       | Inr mp \<Rightarrow>
           (case snd (ParseForm (we_media we) web_maxRequestBodyBytes r) of
              Some err \<Rightarrow> (invalid err, sw)
            | None \<Rightarrow>
                if \<not> verifyCSRF we (all_values we r) then (invalid errCSRF, sw)
                else
                  (case map_of (mp_files mp) ''file'' of
                     None \<Rightarrow> (invalid (Leaf ''http: no such file''), sw)
                   | Some (Inl err) \<Rightarrow> (invalid err, sw)
                   | Some (Inr (Inl err)) \<Rightarrow> (fail (wrap KindPermanent ''webui.Upload'' (Some err)), sw)
                   | Some (Inr (Inr data)) \<Rightarrow> with_assets svc sw (\<lambda>ops.
                       (case service_UploadAsset ops (form_value (all_values we r) ''name'') data (dr_now dr) (snd sw) of
                          (Some err, w) \<Rightarrow> (fail err, (fst sw, w))
                        | (None, w) \<Rightarrow> (Val (redirect ''/assets''), (fst sw, w))))))))"

text \<open>\<open>name\<close> is the path's wildcard.\<close>

definition Assets_Content :: "web_env \<Rightarrow> ('s, 'w) service \<Rightarrow> string \<Rightarrow> ('s \<times> 'w) handler" where
  "Assets_Content we svc name r sw = with_assets svc sw (\<lambda>ops.
     (case service_GetAsset ops name (snd sw) of
        Inl err \<Rightarrow> renderError we (version_of svc) ''Assets'' err
      | Inr data \<Rightarrow>
          let (ct, disposition) = (case inlineType name data of
                Some ct \<Rightarrow> (ct, ''inline'') | None \<Rightarrow> (''application/octet-stream'', ''attachment'')) in
          Val \<lparr>rs_status = 200,
               rs_headers = [(''Content-Type'', ct), (''Content-Disposition'', we_disposition we disposition name),
                             (''Cache-Control'', ''no-store''), (''Content-Length'', dec_int (int (length data)))],
               rs_body = data\<rparr>, sw))"

definition Assets_Delete :: "web_env \<Rightarrow> ('s, 'w) service \<Rightarrow> string \<Rightarrow> ('s \<times> 'w) handler" where
  "Assets_Delete we svc name r sw =
     (let fail = renderError we (version_of svc) ''Assets'' in
      (case snd (ParseForm (we_media we) web_maxRequestBodyBytes r) of
         Some err \<Rightarrow> (fail (wrap KindValidation ''webui.Delete'' (Some err)), sw)
       | None \<Rightarrow>
           if \<not> verifyCSRF we (form_values we r) then (fail (wrap KindValidation ''webui.Delete'' (Some errCSRF)), sw)
           else with_assets svc sw (\<lambda>ops.
             (case service_DeleteAsset ops name (snd sw) of
                (Some err, w) \<Rightarrow> (fail err, (fst sw, w))
              | (None, w) \<Rightarrow> (Val (redirect ''/assets''), (fst sw, w))))))"

end
