(* ===== verification/Webui.thy ===== *)
theory Webui
  imports WebPages
begin

text \<open>
  Package \<open>internal/webui\<close>: the route table behind the security headers, and what the pages guarantee:
  sizes, escapes, no state change without the CSRF token, post-redirect-get, and how
  asset bytes are served.
\<close>

section \<open>The router\<close>

definition quoted :: "string \<Rightarrow> string" where
  "quoted s = [CHR 0x27] @ s @ [CHR 0x27]"

definition csp :: string where
  "csp = ''default-src '' @ quoted ''self'' @ ''; img-src '' @ quoted ''self'' @ '' data:; style-src '' @ quoted ''self'' @ ''; ''
     @ ''script-src '' @ quoted ''self'' @ ''; base-uri '' @ quoted ''none'' @ ''; object-src '' @ quoted ''none'' @ ''; ''
     @ ''form-action '' @ quoted ''self'' @ ''; frame-ancestors '' @ quoted ''none''"

definition secure_headers :: "(string \<times> string) list" where
  "secure_headers = [(''Content-Security-Policy'', csp), (''X-Frame-Options'', ''DENY''),
     (''X-Content-Type-Options'', ''nosniff''), (''Referrer-Policy'', ''same-origin'')]"

text \<open>The headers are set first; what the wrapped handler sets comes on top.\<close>

definition securityHeaders :: "'w handler \<Rightarrow> 'w handler" where
  "securityHeaders nxt r w =
     (case nxt r w of (res, w) \<Rightarrow>
        (go_bind res (\<lambda>resp. Val (resp\<lparr>rs_headers := fold (\<lambda>(k, v). set_header k v) (rs_headers resp) secure_headers\<rparr>)), w))"

text \<open>
  The patterns of \<open>NewRouter\<close>.  A segment that is an escaped slash counts as a final slash, so it
  matches \<open>/{$}\<close> and no wildcard.
\<close>

definition web_mux :: "web_env \<Rightarrow> ('s, 'w) service \<Rightarrow> draws \<Rightarrow> ('s \<times> 'w) handler" where
  "web_mux we svc dr r sw =
     (let p = mux_path r; segs = path_segs p; post = hr_method r = ''POST'';
          answer = (\<lambda>resp. (Val resp, sw));
          get_only = (\<lambda>h. if is_get r then h r sw else answer (not_allowed ''GET, HEAD''));
          both = (\<lambda>h h'. if is_get r then h r sw else if post then h' r sw else answer (not_allowed ''GET, HEAD, POST''));
          named = (\<lambda>verb. length segs = 3 \<and> segs ! 0 = ''assets'' \<and> segs ! 1 \<notin> {'''', ''/''} \<and> segs ! 2 = verb)
      in
      if segs = [''static''] \<and> is_get r then answer (we_moved we (p @ ''/'') r)
      else if p \<noteq> hr_path r then answer (we_moved we p r)
      else if segs \<in> {[''''], [''/'']} then get_only (DashboardHandler we svc)
      else if segs = [''status''] then get_only (StatusHandler we svc)
      else if segs = [''printers''] then get_only (PrintersHandler we svc)
      else if segs = [''assets''] then both (Assets_List we svc) (Assets_Upload we svc dr)
      else if named ''content'' then get_only (Assets_Content we svc (segs ! 1))
      else if named ''delete'' then
        (if post then Assets_Delete we svc (segs ! 1) r sw else answer (not_allowed ''POST''))
      else if segs = [''preview''] then both (Preview_Show we svc) (Preview_Generate we svc)
      else if segs = [''print''] then both (Print_Show we svc) (Print_Submit we svc dr)
      else if take 1 segs = [''static''] then get_only (\<lambda>r sw. (Val (we_static we r), sw))
      else answer not_found_page)"

definition NewRouter :: "web_env \<Rightarrow> ('s, 'w) service \<Rightarrow> draws \<Rightarrow> ('s \<times> 'w) handler" where
  "NewRouter we svc dr = securityHeaders (web_mux we svc dr)"

section \<open>Sizes\<close>

lemma half_even_bounds:
  assumes "0 < b"
  shows "c * b \<le> a \<Longrightarrow> c \<le> half_even a b" and "a \<le> c * b \<Longrightarrow> half_even a b \<le> c"
    and "2 * abs (half_even a b * b - a) \<le> b"
proof -
  let ?q = "a div b" and ?r = "a mod b"
  have a: "a = ?q * b + ?r" and r: "0 \<le> ?r" "?r < b" using assms by simp_all
  show "c \<le> half_even a b" if "c * b \<le> a"
  proof -
    have "c = c * b div b" using assms by simp
    also have "\<dots> \<le> ?q" using that assms by (rule zdiv_mono1)
    finally have "c \<le> ?q" .
    then show ?thesis by (simp add: half_even_def Let_def)
  qed
  show "half_even a b \<le> c" if "a \<le> c * b"
  proof (cases "?q < c")
    case True
    then show ?thesis by (simp add: half_even_def Let_def)
  next
    case False
    then have "c * b \<le> ?q * b" using assms by simp
    with that a r have "?r = 0" "?q * b \<le> c * b" by linarith+
    with assms show ?thesis by (simp add: half_even_def Let_def)
  qed
  show "2 * abs (half_even a b * b - a) \<le> b"
  proof -
    have "half_even a b * b - a = (if 2 * ?r > b \<or> 2 * ?r = b \<and> odd ?q then b - ?r else - ?r)"
      using a by (auto simp: half_even_def Let_def algebra_simps)
    then show ?thesis using r by auto
  qed
qed

lemma size_loop_spec:
  "size_loop m (1024 ^ Suc k) k = (dv, ex) \<Longrightarrow> 1 \<le> m \<Longrightarrow>
     \<exists>d. ex = k + d \<and> dv = 1024 ^ Suc ex \<and> 1024 ^ d \<le> m \<and> m < 1024 ^ Suc d"
proof (induction "nat m" arbitrary: m k rule: less_induct)
  case less
  show ?case
  proof (cases "1024 \<le> m")
    case True
    with less.prems(1) have "size_loop (m div 1024) (1024 ^ Suc (Suc k)) (Suc k) = (dv, ex)"
      by (simp add: size_loop.simps [of m] mult.commute)
    moreover have "nat (m div 1024) < nat m" "1 \<le> m div 1024" using True by auto
    ultimately obtain d where
      d: "ex = Suc k + d" "dv = 1024 ^ Suc ex" "1024 ^ d \<le> m div 1024" "m div 1024 < 1024 ^ Suc d"
      using less.hyps by blast
    from d(3,4) have "1024 ^ Suc d \<le> m" "m < 1024 ^ Suc (Suc d)" by simp_all
    with d(1,2) show ?thesis by (intro exI [of _ "Suc d"]) simp
  next
    case False
    with less.prems have "dv = 1024 ^ Suc k" "ex = k" by (auto simp: size_loop.simps [of m] simp del: power_Suc)
    with False less.prems(2) show ?thesis by (intro exI [of _ 0]) simp
  qed
qed

lemma float_unit_spec: "\<exists>j \<le> k. float_unit k n = 2 ^ j \<and> (n < 2 ^ 53 \<longrightarrow> j = 0)"
proof (induction k)
  case (Suc k)
  then obtain j where j: "j \<le> k" "float_unit k n = 2 ^ j" "n < 2 ^ 53 \<longrightarrow> j = 0" by blast
  have "(2 ^ 53 :: int) \<le> 2 ^ 53 * 2 ^ k" by simp
  then have u: "\<not> n < 2 ^ 53" if "\<not> n < 2 ^ 53 * 2 ^ k" using that by linarith
  show ?case
  proof (cases "n < 2 ^ 53 * 2 ^ k")
    case True
    with j show ?thesis by (intro exI [of _ j]) simp
  next
    case False
    with u show ?thesis by (intro exI [of _ "Suc k"]) simp
  qed
qed simp

lemma abs_shift: "2 * abs (A - 10 * f) \<le> d \<Longrightarrow> 2 * abs (f - n) \<le> e \<Longrightarrow> 2 * abs (A - 10 * n) \<le> d + 10 * (e :: int)"
proof -
  assume a: "2 * abs (A - 10 * f) \<le> d" "2 * abs (f - n) \<le> e"
  have "abs (A - 10 * n) \<le> abs (A - 10 * f) + abs (10 * (f - n))"
    using abs_triangle_ineq [of "A - 10 * f" "10 * (f - n)"] by (simp add: algebra_simps)
  moreover have "abs (10 * (f - n)) = 10 * abs (f - n)" by (simp only: abs_mult abs_numeral)
  moreover have "x \<le> y + z \<Longrightarrow> z = 10 * u \<Longrightarrow> 2 * y \<le> d \<Longrightarrow> 2 * u \<le> e \<Longrightarrow> 2 * x \<le> d + 10 * e" for x y z u :: int
    by linarith
  ultimately show ?thesis using a by blast
qed

text \<open>The conversion stays between powers of two it is given between, and is exact below \<open>2 ^ 53\<close>.\<close>

lemma float64_bounds:
  "1024 ^ Suc i \<le> n \<Longrightarrow> 1024 ^ Suc i \<le> float64 n" "n \<le> 1024 ^ Suc i \<Longrightarrow> float64 n \<le> 1024 ^ Suc i"
  "2 * abs (float64 n - n) \<le> (if n < 2 ^ 53 then 0 else 1024)"
proof -
  obtain j where j: "j \<le> 10" "float_unit 10 n = 2 ^ j" "n < 2 ^ 53 \<longrightarrow> j = 0" using float_unit_spec by blast
  let ?u = "2 ^ j :: int"
  have u: "0 < ?u" "float64 n = half_even n ?u * ?u" by (simp_all only: float64_def j(2) Let_def) simp
  have "(1024 :: int) = 2 ^ (10 - j) * ?u" using j(1) by (simp flip: power_add)
  then obtain c :: int where c: "1024 ^ Suc i = c * ?u" by (metis mult.assoc mult.commute power_Suc)
  show "1024 ^ Suc i \<le> float64 n" if "1024 ^ Suc i \<le> n"
    using half_even_bounds(1) [OF u(1), of c n] that u c by simp
  show "float64 n \<le> 1024 ^ Suc i" if "n \<le> 1024 ^ Suc i"
    using half_even_bounds(2) [OF u(1), of n c] that u c by simp
  have "?u \<le> 2 ^ 10" using j(1) by (intro power_increasing) auto
  moreover have "2 * abs (float64 n - n) \<le> ?u" using half_even_bounds(3) [OF u(1)] u(2) by simp
  moreover have "float64 n = n" if "n < 2 ^ 53" using j(3) that u(2) by (simp add: half_even_def Let_def)
  ultimately show "2 * abs (float64 n - n) \<le> (if n < 2 ^ 53 then 0 else 1024)" by auto
qed

section \<open>What changes state\<close>

text \<open>\<open>obs\<close> is what is looked at of the world, such as the asset files: a status check leaves it alone.\<close>

definition statuses_keep :: "('w \<Rightarrow> 'c) \<Rightarrow> ('s, 'w) service \<Rightarrow> bool" where
  "statuses_keep obs svc \<longleftrightarrow> (\<forall>np \<in> set (sv_printers svc). \<forall>w. obs (snd (pr_status (snd np) w)) = obs w)"

definition keeps :: "('w \<Rightarrow> 'c) \<Rightarrow> 's \<times> 'w \<Rightarrow> 's \<times> 'w \<Rightarrow> bool" where
  "keeps obs sw sw' \<longleftrightarrow> fst sw' = fst sw \<and> obs (snd sw') = obs (snd sw)"

lemma keeps_refl [simp]: "keeps obs sw sw"
  by (simp add: keeps_def)

lemma printer_entries_printers:
  "printer_entries svc ps = Inr es \<Longrightarrow> e \<in> set es \<Longrightarrow> (fst e, fst (snd e)) \<in> set ps"
  by (induction ps arbitrary: es) (fastforce split: option.splits sum.splits)+

lemma check_printers_obs:
  "\<forall>e \<in> set es. \<forall>w. obs (snd (pr_status (fst (snd e)) w)) = obs w \<Longrightarrow> obs (snd (check_printers es w)) = obs w"
proof (induction es arbitrary: w)
  case (Cons e es)
  obtain name p profile conn where e: "e = (name, p, profile, conn)" by (metis prod_cases4)
  from Cons.prems e have "obs (snd (printerSummaryWithStatus name p profile conn w)) = obs w"
    by (simp add: printerSummaryWithStatus_def Let_def split: prod.split) (metis snd_conv)
  with Cons show ?case by (simp add: e split: prod.split) (metis snd_conv)
qed simp

lemma ListPrinters_obs:
  assumes "statuses_keep obs svc" and "service_ListPrinters svc w = (res, w')"
  shows "obs w' = obs w"
proof (cases "printer_entries svc (sv_printers svc)")
  case (Inl e)
  with assms(2) show ?thesis by (simp add: service_ListPrinters_def)
next
  case (Inr es)
  have "\<forall>e \<in> set es. \<forall>w. obs (snd (pr_status (fst (snd e)) w)) = obs w"
    using printer_entries_printers [OF Inr] assms(1) by (fastforce simp: statuses_keep_def)
  from check_printers_obs [OF this, of w] assms(2) Inr show ?thesis
    by (auto simp: service_ListPrinters_def split: prod.splits)
qed

lemma page_reads:
  assumes "statuses_keep obs svc"
  shows "DashboardHandler we svc r sw = (res, sw') \<Longrightarrow> keeps obs sw sw'"
    and "StatusHandler we svc r sw = (res, sw') \<Longrightarrow> keeps obs sw sw'"
    and "PrintersHandler we svc r sw = (res, sw') \<Longrightarrow> keeps obs sw sw'"
    and "Assets_List we svc r sw = (res, sw') \<Longrightarrow> keeps obs sw sw'"
    and "Assets_Content we svc name r sw = (res, sw') \<Longrightarrow> keeps obs sw sw'"
    and "Preview_Show we svc r sw = (res, sw') \<Longrightarrow> keeps obs sw sw'"
    and "Preview_Generate we svc r sw = (res, sw') \<Longrightarrow> keeps obs sw sw'"
    and "Print_Show we svc r sw = (res, sw') \<Longrightarrow> keeps obs sw sw'"
proof -
  obtain s w where sw: "sw = (s, w)" by fastforce
  note l = ListPrinters_obs [OF assms]
  show "DashboardHandler we svc r sw = (res, sw') \<Longrightarrow> keeps obs sw sw'"
    by (auto simp: sw DashboardHandler_def with_assets_def keeps_def Let_def dest: l
        split: prod.splits sum.splits option.splits)
  show "StatusHandler we svc r sw = (res, sw') \<Longrightarrow> keeps obs sw sw'"
    by (auto simp: sw StatusHandler_def keeps_def dest: l split: prod.splits sum.splits)
  show "PrintersHandler we svc r sw = (res, sw') \<Longrightarrow> keeps obs sw sw'"
    by (auto simp: sw PrintersHandler_def keeps_def dest: l split: prod.splits sum.splits)
qed (auto simp: Assets_List_def Assets_Content_def with_assets_def Preview_Show_def Preview_Generate_def Print_Show_def
  Let_def split: option.splits)

lemma b64_char_not_pad: "n < 64 \<Longrightarrow> b64_char n \<noteq> CHR ''=''"
proof -
  assume "n < 64"
  then have "b64_char n \<in> set b64_alphabet" unfolding b64_char_def by (intro nth_mem) (simp add: b64_alphabet_def)
  then show ?thesis by (auto simp: b64_alphabet_def)
qed

lemma raw_url_encode_nonempty: "bs \<noteq> [] \<Longrightarrow> raw_url_encode bs \<noteq> ''''"
proof -
  assume "bs \<noteq> []"
  then obtain b bs' where bs: "bs = b # bs'" by (cases bs) auto
  have "unat b div 4 < 64" using unsigned_less [of b, where 'a = nat] by (simp add: less_mult_imp_div_less)
  then have "\<exists>cs. b64_encode bs = b64_char (unat b div 4) # cs \<and> b64_char (unat b div 4) \<noteq> CHR ''=''"
    unfolding bs by (cases bs' rule: list.exhaust; cases "tl bs'") (auto simp: b64_char_not_pad)
  then show ?thesis by (auto simp: raw_url_encode_def)
qed

lemma verifyCSRF_value:
  assumes "\<And>k m. length (we_hmac we k m) = 32" and "verifyCSRF we form"
  shows "csrfToken we \<in> snd ` set form"
proof -
  have "we_hmac we k m \<noteq> []" for k m using assms(1) [of k m] by auto
  then have "csrfToken we \<noteq> ''''" by (simp add: csrfToken_def raw_url_encode_nonempty)
  with assms(2) form_value_mem [of form csrfFieldName] show ?thesis by (simp add: verifyCSRF_def)
qed

lemma writers_need_token:
  shows "\<not> verifyCSRF we (all_values we r) \<Longrightarrow> Assets_Upload we svc dr r sw = (res, sw') \<Longrightarrow> sw' = sw"
    and "\<not> verifyCSRF we (form_values we r) \<Longrightarrow> Assets_Delete we svc name r sw = (res, sw') \<Longrightarrow> sw' = sw"
    and "\<not> verifyCSRF we (form_values we r) \<Longrightarrow> Print_Submit we svc dr r sw = (res, sw') \<Longrightarrow> sw' = sw"
  by (auto simp: Assets_Upload_def Assets_Delete_def Print_Submit_def Let_def split: prod.splits sum.splits option.splits)

lemma web_mux_keeps:
  assumes "statuses_keep obs svc"
    and "hr_method r \<noteq> ''POST'' \<or> \<not> verifyCSRF we (all_values we r) \<and> \<not> verifyCSRF we (form_values we r)"
    and "web_mux we svc dr r sw = (res, sw')"
  shows "keeps obs sw sw'"
proof -
  have get: "hr_method r \<noteq> ''POST''" if "is_get r" using that by (auto simp: is_get_def)
  note w = writers_need_token [of we r]
  show ?thesis
    using assms(2,3) get page_reads [OF assms(1)]
    by (simp add: web_mux_def Let_def split: if_splits) (metis w keeps_refl prod.inject)+
qed

section \<open>Properties\<close>

text \<open>
  (C14) No request changes the queue's store or the asset files through the Web UI unless it is a \<open>POST\<close>
  that carries the CSRF token in one of its fields: whatever its method, path, headers and body, what
  is left changed by it is at most what a printer's status check changes.
\<close>

theorem web_changes_need_token:
  assumes "\<And>k m. length (we_hmac we k m) = 32" and "statuses_keep obs svc"
    and "hr_method r \<noteq> ''POST'' \<or> csrfToken we \<notin> snd ` set (all_values we r)"
    and "NewRouter we svc dr r (s, w) = (res, (s', w'))"
  shows "s' = s \<and> obs w' = obs w"
proof -
  from assms(4) obtain res' where "web_mux we svc dr r (s, w) = (res', (s', w'))"
    by (auto simp: NewRouter_def securityHeaders_def split: prod.splits)
  moreover have "csrfToken we \<notin> snd ` set (form_values we r)" if "csrfToken we \<notin> snd ` set (all_values we r)"
    using that by (auto simp: all_values_def)
  ultimately show ?thesis
    using web_mux_keeps [OF assms(2)] assms(3) verifyCSRF_value [OF assms(1)] by (fastforce simp: keeps_def)
qed

text \<open>
  The size of an asset is shown rounded to one decimal, in the unit that leaves between 1 and 1024 of
  them (1024.0 is reached by rounding up): for every 64-bit size the unit exists, so indexing the letters never
  panics, and the shown number is off by at most half a tenth of the unit, with another 512 bytes from the
  conversion to \<open>float64\<close> for sizes of \<open>2 ^ 53\<close> and more.
\<close>

lemma formatSize_rounds:
  assumes "n < 2 ^ 63"
  shows "if n < 1024 then formatSize n = Val (dec_int n @ '' B'')
    else \<exists>t ex. ex < 6 \<and> 10 \<le> t \<and> t \<le> 10240
      \<and> 2 * abs (t * 1024 ^ Suc ex - 10 * n) \<le> 1024 ^ Suc ex + (if n < 2 ^ 53 then 0 else 10240)
      \<and> formatSize n = Val (dec_int (t div 10) @ ''.'' @ dec_int (t mod 10) @ '' '' @ [''KMGTPE'' ! ex] @ ''B'')"
proof (cases "n < 1024")
  case True
  then show ?thesis by (simp add: formatSize_def)
next
  case False
  obtain dv ex where l: "size_loop (n div 1024) (1024 ^ Suc 0) 0 = (dv, ex)" by fastforce
  from size_loop_spec [OF l] False have d: "dv = 1024 ^ Suc ex" "1024 ^ ex \<le> n div 1024" "n div 1024 < 1024 ^ Suc ex"
    by auto
  then have b: "1024 ^ Suc ex \<le> n" "n \<le> 1024 ^ Suc (Suc ex)" by simp_all
  have ex: "ex < 6"
  proof (rule ccontr)
    assume "\<not> ex < 6"
    then have "(1024 :: int) ^ Suc 6 \<le> 1024 ^ Suc ex" by (intro power_increasing) simp_all
    with b(1) assms show False by simp
  qed
  let ?f = "float64 n" and ?t = "half_even (10 * float64 n) (1024 ^ Suc ex)"
  have p: "(0 :: int) < 1024 ^ Suc ex" by simp
  note f = float64_bounds(1) [OF b(1)] float64_bounds(2) [OF b(2)] float64_bounds(3) [of n]
  have "10 \<le> ?t" by (rule half_even_bounds(1) [OF p]) (use f(1) in simp)
  moreover have "?t \<le> 10240" by (rule half_even_bounds(2) [OF p]) (use f(2) in simp)
  moreover have "2 * abs (?t * 1024 ^ Suc ex - 10 * n) \<le> 1024 ^ Suc ex + (if n < 2 ^ 53 then 0 else 10240)"
  proof -
    have "10 * (if n < 2 ^ 53 then 0 else 1024) = (if n < 2 ^ 53 then 0 else 10240 :: int)" by simp
    with abs_shift [OF half_even_bounds(3) [OF p] f(3)] show ?thesis by (simp only:)
  qed
  moreover have "formatSize n = Val (dec_int (?t div 10) @ ''.'' @ dec_int (?t mod 10) @ '' '' @ [''KMGTPE'' ! ex] @ ''B'')"
    using l d(1) ex False by (simp add: formatSize_def Let_def)
  ultimately show ?thesis using ex by (simp only: if_not_P [OF False]) blast
qed

lemma formatSize_rounds_witness:
  "\<exists>t ex. 10 \<le> t \<and> t \<le> 10240 \<and> ex < (6 :: nat)
     \<and> formatSize 1048575 = Val (dec_int (t div 10) @ ''.'' @ dec_int (t mod 10) @ '' '' @ [''KMGTPE'' ! ex] @ ''B'')"
  using formatSize_rounds [of 1048575] by auto

text \<open>Four digits are shown, though a larger unit exists.\<close>

lemma formatSize_four_digits:
  "formatSize 1023 = Val ''1023 B''" "formatSize 1048575 = Val ''1024.0 KB''"
  by code_simp+

lemma map_of_set_header [simp]: "map_of (set_header k v hs) = (map_of hs)(k \<mapsto> v)"
proof
  fix x
  have "map_of (filter (\<lambda>(k', _). k' \<noteq> k) hs) x = (if x = k then None else map_of hs x)"
    by (induction hs) (auto split: if_splits)
  then show "map_of (set_header k v hs) x = ((map_of hs)(k \<mapsto> v)) x"
    by (simp add: set_header_def map_add_def split: option.split)
qed

text \<open>
  (C35) What the Web UI serves of an uploaded file: a request for the content of an asset answers with the
  stored bytes, under a media type that only is an image type when the name's extension and
  the signature of the bytes both say so, and otherwise as a download of unspecified type; the browser is told not to guess.
\<close>

theorem asset_content_served:
  assumes "hr_method r = ''GET''" and "cleanPath (hr_path r) = hr_path r"
    and "path_segs (hr_path r) = [''assets'', name, ''content'']" and "name_ok name"
    and "sv_assets svc = Some ops" and "as_get ops name (snd sw) = Inr data"
  shows "\<exists>resp. NewRouter we svc dr r sw = (Val resp, sw) \<and> rs_status resp = 200 \<and> rs_body resp = data
    \<and> map_of (rs_headers resp) ''X-Content-Type-Options'' = Some ''nosniff''
    \<and> map_of (rs_headers resp) ''Content-Security-Policy'' = Some csp
    \<and> (case inlineType name data of
         Some t \<Rightarrow> map_of (rs_headers resp) ''Content-Type'' = Some t
           \<and> map_of (rs_headers resp) ''Content-Disposition'' = Some (we_disposition we ''inline'' name)
           \<and> t \<in> {''image/png'', ''image/jpeg'', ''image/gif'', ''image/webp''}
           \<and> inlineImageTypes (to_lower (file_ext name)) = Some t \<and> sniff_image data = Some t
       | None \<Rightarrow> map_of (rs_headers resp) ''Content-Type'' = Some ''application/octet-stream''
           \<and> map_of (rs_headers resp) ''Content-Disposition'' = Some (we_disposition we ''attachment'' name))"
proof -
  have n: "name \<noteq> ''''" "name \<noteq> ''/''" using assms(4) by (auto simp: name_ok_def)
  have m: "web_mux we svc dr r sw = Assets_Content we svc name r sw"
    using n assms(1-3) by (simp add: web_mux_def mux_path_def is_get_def)
  have t: "t \<in> {''image/png'', ''image/jpeg'', ''image/gif'', ''image/webp''} \<and> inlineImageTypes (to_lower (file_ext name)) = Some t
      \<and> sniff_image data = Some t" if "inlineType name data = Some t" for t
    using that by (auto simp: inlineType_def inlineImageTypes_def split: option.splits if_splits)
  show ?thesis
    using t assms(5,6)
    by (simp add: NewRouter_def securityHeaders_def m Assets_Content_def with_assets_def service_GetAsset_def secure_headers_def
        split: option.split)
qed

definition sample_web :: web_env where
  "sample_web = \<lparr>we_json = bare_json, we_codecs = sample_codecs, we_face = sample_face, we_png = (\<lambda>w h rows. Inr []),
     we_secret = [], we_hmac = (\<lambda>k m. replicate 32 7), we_media = (\<lambda>t. (t, None)),
     we_multipart = (\<lambda>n r. Inl (Leaf ''request Content-Type isn't multipart/form-data'')), we_execute = (\<lambda>v p. Inr []),
     we_disposition = (\<lambda>d n. d), we_mod_time = dec_int,
     we_moved = (\<lambda>p r. \<lparr>rs_status = 301, rs_headers = [(''Location'', p)], rs_body = []\<rparr>),
     we_static = (\<lambda>r. not_found_page)\<rparr>"

theorem web_changes_need_token_witness:
  "\<exists>res w'. NewRouter sample_web sample_service \<lparr>dr_new_id = Inr ''7f'', dr_now = 0\<rparr>
       \<lparr>hr_method = ''POST'', hr_path = ''/print'', hr_query = '''', hr_header = (\<lambda>h. ''text/plain''), hr_body = []\<rparr> ([], [])
     = (res, ([], w'))"
proof -
  let ?r = "\<lparr>hr_method = ''POST'', hr_path = ''/print'', hr_query = '''', hr_header = (\<lambda>h. ''text/plain''), hr_body = []\<rparr>"
  let ?dr = "\<lparr>dr_new_id = Inr ''7f'', dr_now = 0\<rparr>"
  obtain res s' w' where n: "NewRouter sample_web sample_service ?dr ?r ([], []) = (res, (s', w'))" by (metis prod_cases3)
  have k: "statuses_keep (\<lambda>w. ()) sample_service" by (simp add: statuses_keep_def)
  have v: "all_values sample_web ?r = []" by (simp add: all_values_def form_values_def sample_web_def ParseForm_def ParseQuery_def)
  from web_changes_need_token [OF _ k _ n] v n show ?thesis by (simp add: sample_web_def)
qed

definition gallery :: "((string \<times> job) list, asset_mem) service" where
  "gallery = (NewService sample_queue)\<lparr>sv_assets := Some mem_asset_ops\<rparr>"

theorem asset_content_served_witness:
  "\<exists>resp. NewRouter sample_web gallery \<lparr>dr_new_id = Inr ''7f'', dr_now = 0\<rparr>
       \<lparr>hr_method = ''GET'', hr_path = ''/assets/l.PNG/content'', hr_query = '''', hr_header = (\<lambda>h. ''''), hr_body = []\<rparr>
       ([], [(''l.PNG'', \<lparr>ae_data = bytes ''<script>'', ae_mod_time = 0\<rparr>)])
     = (Val resp, ([], [(''l.PNG'', \<lparr>ae_data = bytes ''<script>'', ae_mod_time = 0\<rparr>)]))
     \<and> map_of (rs_headers resp) ''Content-Type'' = Some ''application/octet-stream''"
proof -
  let ?r = "\<lparr>hr_method = ''GET'', hr_path = ''/assets/l.PNG/content'', hr_query = '''', hr_header = (\<lambda>h. ''''), hr_body = []\<rparr>"
  let ?sw = "([] :: (string \<times> job) list, [(''l.PNG'', \<lparr>ae_data = bytes ''<script>'', ae_mod_time = 0\<rparr>)])"
  have p: "cleanPath (hr_path ?r) = hr_path ?r" "path_segs (hr_path ?r) = [''assets'', ''l.PNG'', ''content'']" by code_simp+
  have n: "name_ok ''l.PNG''" by (simp add: name_ok_def)
  have g: "as_get mem_asset_ops ''l.PNG'' (snd ?sw) = Inr (bytes ''<script>'')"
    by (simp add: mem_asset_ops_def mem_asset_get_def validateName_def)
  have s: "sniff_image (bytes ''<script>'') = None" by code_simp
  then have "inlineType ''l.PNG'' (bytes ''<script>'') = None" by (simp add: inlineType_def split: option.split)
  with asset_content_served [OF _ p n _ g, of gallery sample_web "\<lparr>dr_new_id = Inr ''7f'', dr_now = 0\<rparr>"] show ?thesis
    by (auto simp: gallery_def)
qed

lemma renderError_status: "renderError we v title err = Val resp \<Longrightarrow> rs_status resp \<noteq> 303"
  by (auto simp: renderError_def statusForErr_def render_def http_Error_def go_simps
    split: option.splits goerr.splits kind.splits sum.splits)

lemma render_status: "st \<noteq> 303 \<Longrightarrow> rs_status (render we v st p) \<noteq> 303"
  by (auto simp: render_def http_Error_def split: sum.splits)

lemma Print_Submit_303:
  assumes "Print_Submit we svc dr r (s, w) = (Val resp, (s', w'))" and "rs_status resp = 303"
  shows "\<exists>rc i. verifyCSRF we (form_values we r) \<and> unmarshal_text we (form_value (form_values we r) ''receipt'') = Inr rc
    \<and> service_Print (we_codecs we) svc (dr_new_id dr) (dr_now dr) rc (form_value (form_values we r) ''printer'') '''' s = (Inr i, s')
    \<and> w' = w \<and> resp = redirect (''/print?job='' @ QueryEscape i)"
  using assms by (auto simp: Print_Submit_def Let_def render_status dest: renderError_status
    split: option.splits if_splits sum.splits prod.splits)

lemma securityHeaders_Val:
  "securityHeaders h r sw = (Val resp, sw') \<Longrightarrow> \<exists>resp'. h r sw = (Val resp', sw') \<and> rs_status resp' = rs_status resp
     \<and> rs_headers resp = fold (\<lambda>(k, v). set_header k v) (rs_headers resp') secure_headers"
  by (auto simp: securityHeaders_def go_simps split: prod.splits)

text \<open>
  (C15) Printing from the browser: when a submission to \<open>/print\<close> is answered with the redirect, the form carried
  the CSRF token and a valid receipt, and the persistent store has gained exactly one pending job, for that receipt and
  printer, under a new ID.  Following the redirect changes nothing and shows exactly that ID, whatever
  characters it has, so reloading the page cannot print twice.
\<close>

theorem web_print_once:
  assumes "bolt_invar db c b" and "q_ops (sv_queue svc) = bolt_ops db c"
    and "\<And>i rc. dr_new_id dr = Inr i \<Longrightarrow> unmarshal_text we (form_value (form_values we r) ''receipt'') = Inr rc \<Longrightarrow>
           bolt_storable c (fresh_job i (dr_now dr) (new_job (form_value (form_values we r) ''printer'') rc))"
    and "hr_method r = ''POST''" and "hr_path r = ''/print''"
    and "NewRouter we svc dr r (b, w) = (Val resp, (b', w'))" and "rs_status resp = 303"
  shows "\<exists>i rc. verifyCSRF we (form_values we r) \<and> unmarshal_text we (form_value (form_values we r) ''receipt'') = Inr rc
    \<and> validate_receipt (we_codecs we) rc = None \<and> dr_new_id dr = Inr i \<and> w' = w \<and> bolt_invar db c b'
    \<and> bolt_content db c b' = (bolt_content db c b)
        (i \<mapsto> fresh_job i (dr_now dr) (new_job (form_value (form_values we r) ''printer'') rc))
    \<and> map_of (rs_headers resp) ''Location'' = Some (''/print?job='' @ QueryEscape i)
    \<and> (\<forall>r2 dr2. hr_method r2 = ''GET'' \<longrightarrow> hr_path r2 = ''/print'' \<longrightarrow> hr_query r2 = ''job='' @ QueryEscape i \<longrightarrow>
         web_mux we svc dr2 r2 (b', w') = (Val (render we (version_of svc) 200 (PrintPage
           (empty_print\<lparr>pt_job_id := i, pt_csrf_token := csrfToken we, pt_printers := service_PrinterNames svc\<rparr>))), (b', w')))"
proof -
  have p: "cleanPath ''/print'' = ''/print''" "path_segs ''/print'' = [''print'']" by code_simp+
  from securityHeaders_Val [OF assms(6) [unfolded NewRouter_def]] obtain resp' where
    m: "web_mux we svc dr r (b, w) = (Val resp', (b', w'))" "rs_status resp' = 303"
      "rs_headers resp = fold (\<lambda>(k, v). set_header k v) (rs_headers resp') secure_headers" using assms(7) by auto
  then have "Print_Submit we svc dr r (b, w) = (Val resp', (b', w'))"
    using assms(4,5) p by (simp add: web_mux_def mux_path_def is_get_def)
  from Print_Submit_303 [OF this m(2)] obtain rc i where s: "verifyCSRF we (form_values we r)"
    "unmarshal_text we (form_value (form_values we r) ''receipt'') = Inr rc"
    "service_Print (we_codecs we) svc (dr_new_id dr) (dr_now dr) rc (form_value (form_values we r) ''printer'') '''' b = (Inr i, b')"
    "w' = w" "resp' = redirect (''/print?job='' @ QueryEscape i)" by blast
  have "\<forall>i. dr_new_id dr = Inr i \<longrightarrow>
      bolt_storable c (fresh_job i (dr_now dr) ((new_job (form_value (form_values we r) ''printer'') rc)\<lparr>j_key := ''''\<rparr>))"
    using assms(3) s(2) by (simp add: new_job_def)
  note sp = service_Print_spec [OF assms(1,2) this s(3)]
  have l: "map_of (rs_headers resp) ''Location'' = Some (''/print?job='' @ QueryEscape i)"
    by (simp add: m(3) s(5) redirect_def)
  have q: "form_value (fst (ParseQuery (''job='' @ QueryEscape i))) ''job'' = i"
  proof -
    have "QueryEscape ''job'' = ''job''" by code_simp
    with ParseQuery_escaped [of "''job''" i] show ?thesis by (simp add: form_value_def)
  qed
  from sp s(1,2,4) l p q show ?thesis
    by (intro exI [of _ i] exI [of _ rc]) (auto simp: web_mux_def mux_path_def is_get_def Print_Show_def)
qed

definition tea_web :: web_env where
  "tea_web = sample_web\<lparr>we_json := bare_json\<lparr>jt_unmarshal := (\<lambda>bs. Inr (marshal_receipt sample_receipt))\<rparr>\<rparr>"

definition tea_form :: request where
  "tea_form = \<lparr>hr_method = ''POST'', hr_path = ''/print'', hr_query = '''',
     hr_header = (\<lambda>h. ''application/x-www-form-urlencoded''),
     hr_body = bytes (QueryEscape csrfFieldName @ ''='' @ QueryEscape (csrfToken tea_web))\<rparr>"

lemma length_QueryEscape: "length (QueryEscape s) \<le> 3 * length s"
  by (induction s) (simp_all add: QueryEscape_def)

lemma length_b64_encode: "length (b64_encode bs) \<le> 4 * length bs"
  by (induction bs rule: b64_encode.induct) simp_all

lemma tea_values: "form_values tea_web tea_form = [(csrfFieldName, csrfToken tea_web)]"
  "snd (ParseForm (we_media tea_web) web_maxRequestBodyBytes tea_form) = None"
proof -
  have "length (csrfToken tea_web) \<le> 4 * 32"
    using le_trans [OF length_filter_le length_b64_encode, of _ "replicate 32 7"]
    by (simp add: csrfToken_def raw_url_encode_def tea_web_def sample_web_def)
  then have "length (hr_body tea_form) \<le> 500"
    using length_QueryEscape [of "csrfToken tea_web"] length_QueryEscape [of csrfFieldName]
    by (simp add: tea_form_def bytes_def csrfFieldName_def)
  then have l: "length (hr_body tea_form) \<le> web_maxRequestBodyBytes" by (simp add: web_maxRequestBodyBytes_def)
  have m: "we_media tea_web = (\<lambda>t. (t, None))"
    by (simp_all add: tea_web_def sample_web_def)
  have q: "ParseQuery '''' = ([], None)" by (simp add: ParseQuery_def)
  have pf: "ParseForm (we_media tea_web) web_maxRequestBodyBytes tea_form = ([(csrfFieldName, csrfToken tea_web)], None)"
    using l ParseQuery_escaped [of csrfFieldName "csrfToken tea_web"]
    by (simp add: ParseForm_def tea_form_def m q)
  show "form_values tea_web tea_form = [(csrfFieldName, csrfToken tea_web)]"
    "snd (ParseForm (we_media tea_web) web_maxRequestBodyBytes tea_form) = None"
    by (simp_all add: form_values_def pf)
qed

theorem web_print_once_witness:
  "\<exists>resp b'. NewRouter tea_web sample_service \<lparr>dr_new_id = Inr ''7f'', dr_now = 3\<rparr> tea_form ([], []) = (Val resp, (b', []))
     \<and> map_of (rs_headers resp) ''Location'' = Some ''/print?job=7f''
     \<and> bolt_content list_bbolt plain_codec b' ''7f'' \<noteq> None"
proof -
  let ?dr = "\<lparr>dr_new_id = Inr ''7f'', dr_now = 3\<rparr>"
  have u: "unmarshal_text tea_web t = Inr sample_receipt" for t
    using receipt_json_facts [of sample_receipt]
    by (simp add: unmarshal_text_def tea_web_def sample_receipt_def int64_ok_def maxElementDepth_def valid_string_ascii)
  have q: "q_ops (sv_queue sample_service) = bolt_ops list_bbolt plain_codec" by (simp add: NewWithRetry_def)
  have "validate_receipt cd sample_receipt = None" for cd
    by (simp add: validate_receipt_def sample_receipt_def validate_heading_def maxCopies_def errors_join_def)
  then obtain b1 where "service_Print (we_codecs tea_web) sample_service (Inr ''7f'') 3 sample_receipt '''' '''' [] = (Inr ''7f'', b1)"
    by (simp add: service_Print_def Let_def queue_Enqueue_def q NewWithRetry_def bolt_save_def db_update_def
        list_bbolt_def plain_codec_def new_job_def)
  moreover have "form_value [(csrfFieldName, csrfToken tea_web)] k = ''''" if "k \<noteq> csrfFieldName" for k
    using that by (simp add: form_value_def)
  moreover have "QueryEscape ''7f'' = ''7f''" by code_simp
  ultimately have s: "Print_Submit tea_web sample_service ?dr tea_form ([], []) = (Val (redirect ''/print?job=7f''), (b1, []))"
    by (simp add: Print_Submit_def tea_values u verifyCSRF_def form_value_def csrfFieldName_def)
  have "cleanPath ''/print'' = ''/print''" "path_segs ''/print'' = [''print'']" by code_simp+
  with s have "web_mux tea_web sample_service ?dr tea_form ([], []) = (Val (redirect ''/print?job=7f''), (b1, []))"
    by (simp add: web_mux_def mux_path_def is_get_def tea_form_def)
  then obtain resp where n: "NewRouter tea_web sample_service ?dr tea_form ([], []) = (Val resp, (b1, []))" "rs_status resp = 303"
    by (simp add: NewRouter_def securityHeaders_def redirect_def)
  have inv: "bolt_invar list_bbolt plain_codec []" by (rule bolt_invar_list_bucket) simp
  have st: "bolt_storable plain_codec (fresh_job ''7f'' 3 (new_job '''' sample_receipt))"
    by (simp add: bolt_storable_def fresh_job_def new_job_def plain_codec_def valid_string_ascii)
  have f: "form_value (form_values tea_web tea_form) ''printer'' = ''''" by (simp add: tea_values form_value_def csrfFieldName_def)
  have e: "QueryEscape ''7f'' = ''7f''" by code_simp
  have r: "hr_method tea_form = ''POST''" "hr_path tea_form = ''/print''" by (simp_all add: tea_form_def)
  have "bolt_storable plain_codec (fresh_job i (dr_now ?dr) (new_job (form_value (form_values tea_web tea_form) ''printer'') rc))"
    if "dr_new_id ?dr = Inr i" "unmarshal_text tea_web (form_value (form_values tea_web tea_form) ''receipt'') = Inr rc" for i rc
    using that st by (simp add: u f)
  from web_print_once [OF inv q this r n] n(1) e show ?thesis by (fastforce simp: f)
qed

end
