(* ===== verification/Daemon.thy ===== *)
theory Daemon
  imports Webui
begin

text \<open>
  Package \<open>cmd/receiptd\<close>: the composition root.  \<open>build\<close> assembles the store, the service and the HTTP
  handler from a configuration, \<open>run\<close> reconciles, starts one worker per printer and serves until a
  signal.  What \<open>http.ServeMux\<close> does with the registered patterns is written out; its redirect to a
  clean path is the parameter \<open>moved\<close>.
\<close>

section \<open>Routing\<close>

record 'w wiring =
  wr_web :: web_env
  wr_time :: "time \<Rightarrow> string"
  wr_build :: build_info
  wr_fs :: "'w fsys"

abbreviation "wr_json wr \<equiv> we_json (wr_web wr)"
abbreviation "wr_codecs wr \<equiv> we_codecs (wr_web wr)"
abbreviation "wr_face wr \<equiv> we_face (wr_web wr)"
abbreviation "wr_png wr \<equiv> we_png (wr_web wr)"
abbreviation "wr_moved wr \<equiv> we_moved (wr_web wr)"

definition api_mux :: "'w wiring \<Rightarrow> ('s, 'w) service \<Rightarrow> draws \<Rightarrow> ('s \<times> 'w) handler" where
  "api_mux wr svc dr r sw =
     (let segs = path_segs (hr_path r); post = hr_method r = ''POST'' in
      if segs = [''api'', ''v1'', ''print''] then
        (if post then PrintHandler (wr_json wr) (wr_codecs wr) svc dr r sw else (Val (not_allowed ''POST''), sw))
      else if segs = [''api'', ''v1'', ''preview''] then
        (if post then PreviewHandler (wr_json wr) (wr_codecs wr) (wr_face wr) (wr_png wr) svc r sw
         else (Val (not_allowed ''POST''), sw))
      else if segs = [''api'', ''v1'', ''version''] then
        (if is_get r then VersionHandler (wr_json wr) (wr_build wr) r sw else (Val (not_allowed ''GET, HEAD''), sw))
      else if length segs = 4 \<and> take 3 segs = [''api'', ''v1'', ''jobs''] \<and> segs ! 3 \<notin> {'''', ''/''} then
        (if is_get r then JobStatusHandler (wr_json wr) (wr_time wr) svc (segs ! 3) r sw
         else (Val (not_allowed ''GET, HEAD''), sw))
      else (Val not_found_page, sw))"

definition root_mux ::
  "(string \<Rightarrow> request \<Rightarrow> response) \<Rightarrow> 'w handler \<Rightarrow> 'w handler option \<Rightarrow> 'w handler" where
  "root_mux moved api web r sw =
     (let p = mux_path r; segs = path_segs p in
      if p = '''' then (Val not_found_page, sw)
      else if segs = [''api'', ''v1''] then (Val (moved (p @ ''/'') r), sw)
      else if p \<noteq> hr_path r then (Val (moved p r), sw)
      else if take 2 segs = [''api'', ''v1''] then api r sw
      else (case web of Some h \<Rightarrow> h r sw | None \<Rightarrow> (Val not_found_page, sw)))"

section \<open>Building\<close>

definition readHeaderTimeout :: duration where "readHeaderTimeout = 5 * 1000000000"
definition readTimeout :: duration where "readTimeout = 15 * 1000000000"
definition writeTimeout :: duration where "writeTimeout = 30 * 1000000000"
definition idleTimeout :: duration where "idleTimeout = 120 * 1000000000"

text \<open>The daemon with the fields of its \<open>http.Server\<close>; what a timeout does is \<open>net/http\<close>'s.\<close>

record ('s, 'w) daemon =
  dm_addr :: string
  dm_read_timeout :: duration
  dm_read_header_timeout :: duration
  dm_write_timeout :: duration
  dm_idle_timeout :: duration
  dm_handler :: "draws \<Rightarrow> ('s \<times> 'w) handler"
  dm_service :: "('s, 'w) service"
  dm_printer_names :: "string list"

text \<open>\<open>mem\<close> and \<open>bolt\<close> are what \<open>NewMemoryStore\<close> and \<open>NewBoltStore\<close> return.\<close>

definition buildStore :: "'s store_ops \<Rightarrow> (string \<Rightarrow> goerr + 's store_ops) \<Rightarrow> queue_config \<Rightarrow> goerr + 's store_ops" where
  "buildStore mem bolt cfg = (if qc_store cfg = ''memory'' then Inr mem else bolt (qc_path cfg))"

definition add_printer ::
  "('c, 'w) net \<Rightarrow> printer_config
     \<Rightarrow> (string \<times> 'w printer) list \<times> (string \<rightharpoonup> profile) \<times> (string \<rightharpoonup> connection_summary) \<times> string list
     \<Rightarrow> (string \<times> 'w printer) list \<times> (string \<rightharpoonup> profile) \<times> (string \<rightharpoonup> connection_summary) \<times> string list" where
  "add_printer nt c = (\<lambda>(printers, profiles, connections, names).
     (AList.update (pc_name c) (NewNetworkPrinter nt (pc_connection c)) printers,
      profiles(pc_name c \<mapsto> pc_profile c),
      connections(pc_name c \<mapsto> \<lparr>cs_transport = cn_transport (pc_connection c), cs_address = cn_address (pc_connection c)\<rparr>),
      names @ [pc_name c]))"

definition buildPrinters ::
  "('c, 'w) net \<Rightarrow> printer_config list
     \<Rightarrow> (string \<times> 'w printer) list \<times> (string \<rightharpoonup> profile) \<times> (string \<rightharpoonup> connection_summary) \<times> string list" where
  "buildPrinters nt cfgs = fold (add_printer nt) cfgs ([], Map.empty, Map.empty, [])"

text \<open>The handler \<open>build\<close> puts together: each surface behind its own gate when authentication is on.\<close>

definition build_handler :: "'w wiring \<Rightarrow> config \<Rightarrow> string \<Rightarrow> ('s, 'w) service \<Rightarrow> draws \<Rightarrow> ('s \<times> 'w) handler" where
  "build_handler wr cfg token svc dr =
     (let guarded = ac_enabled (cf_auth cfg);
          api = (if guarded then Bearer token (api_mux wr svc dr) else api_mux wr svc dr);
          web = (if web_enabled (cf_web cfg)
                 then Some (if guarded then Basic token (NewRouter (wr_web wr) svc dr) else NewRouter (wr_web wr) svc dr)
                 else None)
      in root_mux (wr_moved wr) api web)"

definition build ::
  "'w wiring \<Rightarrow> 's store_ops \<Rightarrow> (string \<Rightarrow> goerr + 's store_ops) \<Rightarrow> ('c, 'w) net \<Rightarrow> string option
     \<Rightarrow> config \<Rightarrow> 'w \<Rightarrow> goerr + ('s, 'w) daemon" where
  "build wr mem bolt nt env cfg w =
     (case buildStore mem bolt (cf_queue cfg) of
        Inl err \<Rightarrow> Inl err
      | Inr store \<Rightarrow>
          (case ResolveToken env (wr_fs wr) (cf_auth cfg) w of
             Inl err \<Rightarrow> Inl err
           | Inr token \<Rightarrow>
               let q = NewWithRetry store (qc_max_attempts (cf_queue cfg)) (qc_retry_backoff (cf_queue cfg)) in
               (case buildPrinters nt (cf_printers cfg) of (printers, profiles, connections, names) \<Rightarrow>
                  let svc = \<lparr>sv_queue = q, sv_printers = printers, sv_profiles = profiles, sv_connections = connections,
                             sv_assets = Some (fs_asset_ops (wr_fs wr) (asc_path (cf_assets cfg))),
                             sv_build = wr_build wr\<rparr>
                  in Inr \<lparr>dm_addr = sc_address (cf_server cfg), dm_read_timeout = readTimeout,
                          dm_read_header_timeout = readHeaderTimeout, dm_write_timeout = writeTimeout,
                          dm_idle_timeout = idleTimeout, dm_handler = build_handler wr cfg token svc,
                          dm_service = svc, dm_printer_names = names\<rparr>)))"

section \<open>Running\<close>

definition pollInterval :: duration where
  "pollInterval = 1000000000"

text \<open>
  \<open>runWorker\<close>: process and wait, until the context is cancelled.  \<open>None\<close> is a worker that never
  returns.  The errors it logs are dropped here.
\<close>

partial_function (option) runWorker ::
  "'s queue \<Rightarrow> 'w env \<Rightarrow> string \<Rightarrow> 's \<Rightarrow> 'w \<Rightarrow> ('s \<times> 'w) option" where
  "runWorker q env printerName s w =
     (if env_ctx_err env w then Some (s, w)
      else Option.bind (ProcessNextForPrinter q env printerName s w)
        (\<lambda>(err, s, w). runWorker q env printerName s (env_sleep env pollInterval w)))"

text \<open>How the drain of a shutdown ends, and how serving ends.\<close>

datatype drain = Drained | DeadlineExceeded | RepeatSignal

datatype ending = ServerStopped "goerr option" | ServerClosed | Signalled drain

definition shutdownOnSignal :: "drain \<Rightarrow> int" where
  "shutdownOnSignal d = (case d of Drained \<Rightarrow> 0 | DeadlineExceeded \<Rightarrow> 1 | RepeatSignal \<Rightarrow> 1)"

definition exit_code :: "ending \<Rightarrow> int" where
  "exit_code end =
     (case end of ServerStopped (Some err) \<Rightarrow> 1 | ServerStopped None \<Rightarrow> 0 | ServerClosed \<Rightarrow> 0
        | Signalled dr \<Rightarrow> shutdownOnSignal dr)"

text \<open>\<open>run\<close>: the exit code, and the store the workers and the handlers start on, unless it fails before.\<close>

definition run_daemon :: "('s, 'w) daemon \<Rightarrow> time \<Rightarrow> ending \<Rightarrow> 's \<Rightarrow> int \<times> 's option \<times> 's" where
  "run_daemon d now end s =
     (case Reconcile (sv_queue (dm_service d)) now s of
        ((retried, failed, Some err), s) \<Rightarrow> (1, None, s)
      | ((retried, failed, None), s) \<Rightarrow>
          (exit_code end, Some s, s))"

text \<open>
  \<open>loadAndBuild\<close> and \<open>main\<close> of the daemon: what is printed on standard output and the exit code; \<open>ends\<close> is the
  exit code of \<open>run\<close>.  The flags are arguments.
\<close>

definition loadAndBuild :: "goerr + config \<Rightarrow> (config \<Rightarrow> goerr + ('s, 'w) daemon) \<Rightarrow> goerr + ('s, 'w) daemon" where
  "loadAndBuild loaded bld = (case loaded of Inl err \<Rightarrow> Inl err | Inr cfg \<Rightarrow> bld cfg)"

definition daemon_main :: "string \<Rightarrow> bool \<Rightarrow> goerr + ('s, 'w) daemon \<Rightarrow> (('s, 'w) daemon \<Rightarrow> int) \<Rightarrow> string \<times> int" where
  "daemon_main line showVersion built ends =
     (line @ [CHR 0x0A],
      if showVersion then 0 else (case built of Inl err \<Rightarrow> 1 | Inr d \<Rightarrow> ends d))"

section \<open>What is built\<close>

lemma add_printer_apply [simp]:
  "add_printer nt c (ps, prof, conn, ns) =
     (AList.update (pc_name c) (NewNetworkPrinter nt (pc_connection c)) ps, prof(pc_name c \<mapsto> pc_profile c),
      conn(pc_name c \<mapsto> \<lparr>cs_transport = cn_transport (pc_connection c), cs_address = cn_address (pc_connection c)\<rparr>),
      ns @ [pc_name c])"
  by (simp add: add_printer_def)

lemma buildPrinters_fold:
  "fold (add_printer nt) cfgs (ps, prof, conn, ns) = (ps', prof', conn', ns') \<Longrightarrow>
     ns' = ns @ map pc_name cfgs \<and> fst ` set ps' = fst ` set ps \<union> pc_name ` set cfgs
     \<and> (\<forall>n. n \<notin> pc_name ` set cfgs \<longrightarrow> map_of ps' n = map_of ps n \<and> prof' n = prof n \<and> conn' n = conn n)
     \<and> (distinct (map pc_name cfgs) \<longrightarrow>
          (\<forall>c \<in> set cfgs. map_of ps' (pc_name c) = Some (NewNetworkPrinter nt (pc_connection c))
             \<and> prof' (pc_name c) = Some (pc_profile c)
             \<and> conn' (pc_name c) = Some \<lparr>cs_transport = cn_transport (pc_connection c), cs_address = cn_address (pc_connection c)\<rparr>))"
proof (induction cfgs arbitrary: ps prof conn ns)
  case (Cons c cfgs)
  from Cons.prems have "fold (add_printer nt) cfgs
      (AList.update (pc_name c) (NewNetworkPrinter nt (pc_connection c)) ps, prof(pc_name c \<mapsto> pc_profile c),
       conn(pc_name c \<mapsto> \<lparr>cs_transport = cn_transport (pc_connection c), cs_address = cn_address (pc_connection c)\<rparr>),
       ns @ [pc_name c]) = (ps', prof', conn', ns')" by simp
  note ih = Cons.IH [OF this]
  show ?case
  proof (intro conjI allI impI ballI)
    show "ns' = ns @ map pc_name (c # cfgs)" "fst ` set ps' = fst ` set ps \<union> pc_name ` set (c # cfgs)"
      using ih by (simp_all add: dom_update)
    fix n assume "n \<notin> pc_name ` set (c # cfgs)"
    with ih show "map_of ps' n = map_of ps n" "prof' n = prof n" "conn' n = conn n"
      by (simp_all add: update_conv')
  next
    fix d assume d: "distinct (map pc_name (c # cfgs))" "d \<in> set (c # cfgs)"
    show "map_of ps' (pc_name d) = Some (NewNetworkPrinter nt (pc_connection d))" "prof' (pc_name d) = Some (pc_profile d)"
      "conn' (pc_name d) = Some \<lparr>cs_transport = cn_transport (pc_connection d), cs_address = cn_address (pc_connection d)\<rparr>"
      using d ih by (cases "d \<in> set cfgs"; simp add: update_conv')+
  qed
qed simp

lemma buildPrinters_ok:
  assumes "buildPrinters nt cfgs = (ps, prof, conn, ns)"
  shows "ns = map pc_name cfgs" "fst ` set ps = pc_name ` set cfgs"
    "distinct (map pc_name cfgs) \<Longrightarrow> c \<in> set cfgs \<Longrightarrow> map_of ps (pc_name c) = Some (NewNetworkPrinter nt (pc_connection c))
       \<and> prof (pc_name c) = Some (pc_profile c)
       \<and> conn (pc_name c) = Some \<lparr>cs_transport = cn_transport (pc_connection c), cs_address = cn_address (pc_connection c)\<rparr>"
  using buildPrinters_fold [OF assms [unfolded buildPrinters_def]] by auto

lemma root_mux_locked:
  assumes "api r sw = (Val a, sw)" and "\<And>h. web = Some h \<Longrightarrow> h r sw = (Val b, sw)"
  shows "\<exists>resp. root_mux moved api web r sw = (Val resp, sw)
    \<and> (resp \<in> {a, b, not_found_page} \<or> (\<exists>p. resp = moved p r))"
  using assms by (auto simp: root_mux_def Let_def split: option.split)

lemma printer_entries_Inr:
  "(\<forall>n \<in> fst ` set ps. sv_profiles svc n \<noteq> None \<and> sv_connections svc n \<noteq> None) \<Longrightarrow>
     \<exists>es. printer_entries svc ps = Inr es"
proof (induction ps)
  case (Cons np ps)
  then obtain es where "printer_entries svc ps = Inr es" by auto
  with Cons.prems show ?case by (cases np) auto
qed simp

text \<open>The parts of a built daemon.\<close>

lemma build_Inr:
  assumes "build wr mem bolt nt env cfg w = Inr d"
  obtains store token ps prof conn names where "buildStore mem bolt (cf_queue cfg) = Inr store"
    "ResolveToken env (wr_fs wr) (cf_auth cfg) w = Inr token"
    "buildPrinters nt (cf_printers cfg) = (ps, prof, conn, names)"
    "dm_service d = \<lparr>sv_queue = NewWithRetry store (qc_max_attempts (cf_queue cfg)) (qc_retry_backoff (cf_queue cfg)),
       sv_printers = ps, sv_profiles = prof, sv_connections = conn,
       sv_assets = Some (fs_asset_ops (wr_fs wr) (asc_path (cf_assets cfg))), sv_build = wr_build wr\<rparr>"
    "dm_printer_names d = names"
    "dm_handler d = build_handler wr cfg token (dm_service d)"
  using assms by (auto simp: build_def Let_def split: sum.splits prod.splits)

section \<open>Properties\<close>

text \<open>
  (C27) The daemon built from a usable configuration serves exactly its printers: the workers' names
  are the configured ones, each once, each has its printer at its own address, its profile and its
  summary, no other printer exists, and the printer list is never refused for a missing entry.
\<close>

theorem daemon_wiring:
  assumes "build wr mem bolt nt env cfg w = Inr d" and "config_usable cfg"
  shows "dm_printer_names d = map pc_name (cf_printers cfg) \<and> distinct (dm_printer_names d)
    \<and> fst ` set (sv_printers (dm_service d)) = set (dm_printer_names d)
    \<and> (\<forall>c \<in> set (cf_printers cfg).
         map_of (sv_printers (dm_service d)) (pc_name c) = Some (NewNetworkPrinter nt (pc_connection c))
         \<and> sv_profiles (dm_service d) (pc_name c) = Some (pc_profile c)
         \<and> (p_width_dots (pc_profile c) \<le> 8 * 65535 \<longrightarrow> profile_ok (pc_profile c)))
    \<and> (\<exists>es. printer_entries (dm_service d) (sv_printers (dm_service d)) = Inr es)"
proof -
  from assms(1) obtain store token ps prof conn names where b:
    "buildPrinters nt (cf_printers cfg) = (ps, prof, conn, names)"
    "sv_printers (dm_service d) = ps" "sv_profiles (dm_service d) = prof" "sv_connections (dm_service d) = conn"
    "dm_printer_names d = names"
    by (rule build_Inr) simp
  note p = buildPrinters_ok [OF b(1)]
  have u: "distinct (map pc_name (cf_printers cfg))" "list_all printer_usable (cf_printers cfg)"
    using assms(2) by (simp_all add: config_usable_def)
  have "\<forall>n \<in> fst ` set ps. prof n \<noteq> None \<and> conn n \<noteq> None"
    unfolding p(2) using p(3) [OF u(1)] by auto
  then have "\<exists>es. printer_entries (dm_service d) ps = Inr es" using b by (intro printer_entries_Inr) simp
  moreover have "profile_ok (pc_profile c)"
    if "c \<in> set (cf_printers cfg)" "p_width_dots (pc_profile c) \<le> 8 * 65535" for c
    using that u(2) printer_usable_profile by (auto simp: list_all_iff)
  ultimately show ?thesis using b p(1,2) p(3) [OF u(1)] u(1) by auto
qed

text \<open>
  (C12) With authentication on, a request that carries the token neither as a bearer nor as a basic
  credential changes nothing, whatever its method, path and body: it gets one of the two fixed 401
  responses, the fixed 404 page, or a redirect to a cleaner path.
\<close>

theorem locked_out:
  assumes "build wr mem bolt nt env cfg w = Inr d" and "ac_enabled (cf_auth cfg)"
    and "ResolveToken env (wr_fs wr) (cf_auth cfg) w = Inr token"
    and "\<not> bearer_header token (hr_header r ''Authorization'')" and "\<not> basic_header token (hr_header r ''Authorization'')"
  shows "\<exists>resp. dm_handler d dr r sw = (Val resp, sw)
    \<and> (resp \<in> {unauthorized ''Bearer'', unauthorized basic_challenge, not_found_page} \<or> (\<exists>p. resp = wr_moved wr p r))"
proof -
  from assms(1) obtain store token' ps prof conn names where b:
    "ResolveToken env (wr_fs wr) (cf_auth cfg) w = Inr token'"
    "dm_handler d = build_handler wr cfg token' (dm_service d)"
    by (rule build_Inr)
  from b(1) assms(3) have t: "token' = token" by simp
  show ?thesis
    unfolding b(2) t build_handler_def Let_def using assms(2,4,5)
    by (intro root_mux_locked) (auto simp: auth_gates split: if_splits)
qed

definition sample_wiring :: "byte list wiring" where
  "sample_wiring = \<lparr>wr_web = sample_web, wr_time = dec_int, wr_build = \<lparr>bi_version = ''1'', bi_commit = '''', bi_date = ''''\<rparr>,
     wr_fs = \<lparr>fs_read_file = (\<lambda>p w. Inr w), fs_mkdir_all = (\<lambda>p w. (None, w)), fs_write_file = (\<lambda>p d w. (None, w)),
              fs_remove = (\<lambda>p w. (None, w)), fs_read_dir = (\<lambda>p w. Inr [])\<rparr>\<rparr>"

definition locked_config :: config where
  "locked_config = sample_config\<lparr>cf_auth := \<lparr>ac_enabled = True, ac_token_file = ''''\<rparr>, cf_web := \<lparr>web_enabled = True\<rparr>\<rparr>"

abbreviation sample_build :: "goerr + ((string \<times> job) list, byte list) daemon" where
  "sample_build \<equiv> build sample_wiring (bolt_ops list_bbolt plain_codec) (\<lambda>p. Inr (bolt_ops list_bbolt plain_codec))
     sample_net (Some ''s3cret'') locked_config []"

lemma sample_built: "\<exists>d. sample_build = Inr d"
  by (simp add: build_def buildStore_def ResolveToken_def locked_config_def sample_config_def buildPrinters_def Let_def)

lemma locked_usable: "config_usable locked_config" "ac_enabled (cf_auth locked_config)"
  by (simp_all add: locked_config_def config_usable_def printer_usable_def sample_config_def sample_profile_def
      epson_tm_m30ii_def)

theorem daemon_wiring_witness:
  "\<exists>d. sample_build = Inr d \<and> dm_printer_names d = [''bar'']
     \<and> (\<exists>p. map_of (sv_printers (dm_service d)) ''bar'' = Some p)"
proof -
  obtain d where "sample_build = Inr d" using sample_built ..
  from daemon_wiring [OF this locked_usable(1)] this show ?thesis
    by (auto simp: locked_config_def sample_config_def)
qed

theorem locked_out_witness:
  "\<exists>d resp. sample_build = Inr d
     \<and> dm_handler d \<lparr>dr_new_id = Inr ''7f'', dr_now = 0\<rparr>
         \<lparr>hr_method = ''POST'', hr_path = ''/api/v1/print'', hr_query = '''', hr_header = (\<lambda>h. ''Bearer guess''), hr_body = []\<rparr> ([], []) = (Val resp, ([], []))"
proof -
  obtain d where d: "sample_build = Inr d" using sample_built ..
  have t: "ResolveToken (Some ''s3cret'') (wr_fs sample_wiring) (cf_auth locked_config) [] = Inr ''s3cret''"
    using locked_usable(2) by (simp add: ResolveToken_def)
  have "\<not> bearer_header ''s3cret'' ''Bearer guess''"
  proof
    assume "bearer_header ''s3cret'' ''Bearer guess''"
    then obtain s where "''Bearer guess'' = s @ '' '' @ ''s3cret''" by (auto simp: bearer_header_def)
    then have "last ''Bearer guess'' = last (s @ '' '' @ ''s3cret'')" by simp
    then show False by simp
  qed
  moreover have "\<not> basic_header ''s3cret'' ''Bearer guess''"
    by (auto simp: basic_header_def lower_def append_eq_Cons_conv Cons_eq_append_conv length_Suc_conv numeral_eq_Suc)
  ultimately show ?thesis
    using locked_out [OF d locked_usable(2) t,
      of "\<lparr>hr_method = ''POST'', hr_path = ''/api/v1/print'', hr_query = '''', hr_header = (\<lambda>h. ''Bearer guess''), hr_body = []\<rparr>"
         "\<lparr>dr_new_id = Inr ''7f'', dr_now = 0\<rparr>" "([], [])"] d
    by auto
qed

section \<open>Workers stop\<close>

lemma run_claimed_job_left:
  assumes "\<And>j w r w'. callProcessor env j w = Some (r, w') \<Longrightarrow> left w' \<le> (left w :: nat)"
    and "\<And>d w. left (env_sleep env d w) \<le> left w"
    and "run_claimed_job ops m env b j s w = Some (r, s', w')"
  shows "left w' \<le> left w"
proof (rule run_claimed_job_world [where I = "\<lambda>v. left v \<le> left w", OF _ order_refl assms(3)])
  fix j v r v' b
  assume "left v \<le> left w" "callProcessor env j v = Some (r, v')"
  with assms(1) [of j v r v'] assms(2) [of b v'] show "left v' \<le> left w
      \<and> (if env_ctx_err env (env_sleep env b v') then left (env_sleep env b v') \<le> left w else left (env_sleep env b v') \<le> left w)"
    by simp
qed

text \<open>
  A worker always returns after a shutdown begins.  \<open>left w\<close> counts the polls until the context is
  cancelled: processing and backing off do not push that back, and every poll brings it closer.  With
  a processor that returns, the worker's loop ends, in a cancelled context.
\<close>

lemma worker_stops:
  assumes "\<And>j w. callProcessor env j w \<noteq> None"
    and "\<And>w. left w = 0 \<Longrightarrow> env_ctx_err env w"
    and "\<And>j w r w'. callProcessor env j w = Some (r, w') \<Longrightarrow> left w' \<le> (left w :: nat)"
    and "\<And>d w. left (env_sleep env d w) \<le> left w"
    and "\<And>w. left (env_sleep env pollInterval w) \<le> left w - 1"
    and "q_ops q = bolt_ops db c"
  shows "\<exists>s' w'. runWorker q env p s w = Some (s', w') \<and> env_ctx_err env w'"
proof (induction "left w" arbitrary: s w rule: less_induct)
  case less
  show ?case
  proof (cases "env_ctx_err env w")
    case True
    then show ?thesis by (subst runWorker.simps) simp
  next
    case False
    have "\<exists>res. ProcessNextForPrinter q env p s w = Some res"
      using bolt.run_claimed_job_terminates [OF assms(1)]
      by (auto simp: ProcessNextForPrinter_def assms(6) split: prod.split sum.split option.split)
    then obtain r s1 w1 where p: "ProcessNextForPrinter q env p s w = Some (r, s1, w1)" by (metis prod_cases3)
    have "0 < left w" using False assms(2) by blast
    have "left w1 \<le> left w"
      using p run_claimed_job_left [OF assms(3,4)]
      by (auto simp: ProcessNextForPrinter_def split: prod.splits sum.splits option.splits)
    with \<open>0 < left w\<close> assms(5) [of w1] have "left (env_sleep env pollInterval w1) < left w" by linarith
    from less.hyps [OF this] False p show ?thesis by (subst runWorker.simps) simp
  qed
qed

lemma worker_stops_witness:
  "\<exists>s' w'. runWorker sample_queue
      \<lparr>env_process = (\<lambda>j w. (Val (), w)), env_sleep = (\<lambda>d w. w - 1), env_now = (\<lambda>w. 5), env_ctx_err = (\<lambda>w. w = 0)\<rparr>
      ''bar'' [(''7f'', sample_job)] (4 :: nat) = Some (s', w') \<and> w' = 0"
proof -
  let ?env = "\<lparr>env_process = (\<lambda>j w. (Val (), w)), env_sleep = (\<lambda>d w. w - 1), env_now = (\<lambda>w. 5 :: time),
    env_ctx_err = (\<lambda>w. w = (0 :: nat))\<rparr> :: nat env"
  have "\<exists>s' w'. runWorker sample_queue ?env ''bar'' [(''7f'', sample_job)] 4 = Some (s', w') \<and> env_ctx_err ?env w'"
    by (rule worker_stops [where left = "\<lambda>w. w"]) (simp_all add: callProcessor_def)
  then show ?thesis by simp
qed

end
