(* ===== verification/Client.thy ===== *)
theory Client
  imports Daemon "HOL-Library.Countable"
begin

text \<open>
  Package \<open>cmd/receipt\<close>: the command line client.  \<open>apiClient\<close> builds a request, sends it over a
  transport (\<open>http.Client\<close>, a parameter) and decodes the answer; the subcommands put that together with
  the configuration and the files.  Standard output is the text a command prints; the command tree is in
  \<open>Commands\<close>.
\<close>

section \<open>The client\<close>

text \<open>
  \<open>tp_new\<close> is the error of \<open>http.NewRequest\<close> for a method and an URL; \<open>tp_do\<close> sends a request to a base
  address and returns the status code, the status line and what reading the body gives.
\<close>

record 'w transport =
  tp_new :: "string \<Rightarrow> string \<Rightarrow> goerr option"
  tp_do :: "string \<Rightarrow> request \<Rightarrow> 'w \<Rightarrow> (goerr + int \<times> string \<times> (goerr + byte list)) \<times> 'w"

record api_client =
  cl_base_url :: string
  cl_token :: string

definition apiBaseURL :: "string \<Rightarrow> string" where
  "apiBaseURL address =
     (if take 1 address = '':'' then ''http://localhost'' @ address else ''http://'' @ address)"

definition newAPIClient :: "string option \<Rightarrow> 'w fsys \<Rightarrow> config \<Rightarrow> 'w \<Rightarrow> goerr + api_client" where
  "newAPIClient env fs cfg w =
     (case ResolveToken env fs (cf_auth cfg) w of
        Inl err \<Rightarrow> Inl err
      | Inr token \<Rightarrow> Inr \<lparr>cl_base_url = apiBaseURL (sc_address (cf_server cfg)), cl_token = token\<rparr>)"

definition client_request :: "api_client \<Rightarrow> string \<Rightarrow> string \<Rightarrow> byte list option \<Rightarrow> request" where
  "client_request c method path body =
     \<lparr>hr_method = method, hr_path = path, hr_query = '''',
      hr_header = (\<lambda>h. if h = ''Content-Type'' \<and> body \<noteq> None then ''application/json''
                       else if h = ''Authorization'' \<and> cl_token c \<noteq> '''' then ''Bearer '' @ cl_token c
                       else ''''),
      hr_body = (case body of None \<Rightarrow> [] | Some b \<Rightarrow> b)\<rparr>"

text \<open>The error of a response: the server's message when the body has one.\<close>

definition response_error :: "json_text \<Rightarrow> byte list \<Rightarrow> string \<Rightarrow> goerr" where
  "response_error jt data status =
     (case jt_unmarshal jt data of
        Inl err \<Rightarrow> errorf ''receiptd: unexpected response: %s'' [FStr status]
      | Inr j \<Rightarrow>
          (case dec_struct (one_field ''error'' dec_string) j '''' of
             None \<Rightarrow> errorf ''receiptd: unexpected response: %s'' [FStr status]
           | Some msg \<Rightarrow>
               if msg \<noteq> '''' then errorf ''receiptd: %s (%s)'' [FStr msg, FStr status]
               else errorf ''receiptd: unexpected response: %s'' [FStr status]))"

definition client_do ::
  "json_text \<Rightarrow> 'w transport \<Rightarrow> api_client \<Rightarrow> string \<Rightarrow> string \<Rightarrow> byte list option \<Rightarrow> 'w
     \<Rightarrow> (goerr + byte list) \<times> 'w" where
  "client_do jt tp c method path body w =
     (case tp_new tp method (cl_base_url c @ path) of
        Some err \<Rightarrow> (Inl err, w)
      | None \<Rightarrow>
          (case tp_do tp (cl_base_url c) (client_request c method path body) w of
             (Inl err, w) \<Rightarrow>
               (Inl (Wrapf (sprintf ''connecting to receiptd at %s: '' [FStr (cl_base_url c)]) err), w)
           | (Inr (code, status, read), w) \<Rightarrow>
               (case read of
                  Inl err \<Rightarrow> (Inl (Wrapf ''reading response from receiptd: '' err), w)
                | Inr data \<Rightarrow>
                    if code \<ge> 400 then (Inl (response_error jt data status), w) else (Inr data, w))))"

definition print_request_json :: "string \<Rightarrow> receipt \<Rightarrow> json" where
  "print_request_json printerName r = JObj [(''printer'', str printerName), (''receipt'', marshal_receipt r)]"

definition client_preview ::
  "json_text \<Rightarrow> 'w transport \<Rightarrow> api_client \<Rightarrow> receipt \<Rightarrow> string \<Rightarrow> 'w \<Rightarrow> (goerr + byte list) \<times> 'w" where
  "client_preview jt tp c r printerName w =
     client_do jt tp c ''POST'' ''/api/v1/preview'' (Some (jt_encode jt (print_request_json printerName r))) w"

text \<open>Decoding a response body into a struct that \<open>d\<close> reads.\<close>

definition decode_body :: "json_text \<Rightarrow> (json \<Rightarrow> goerr + 'a) \<Rightarrow> (goerr + byte list) \<times> 'w \<Rightarrow> (goerr + 'a) \<times> 'w" where
  "decode_body jt d res =
     (case res of
        (Inl err, w) \<Rightarrow> (Inl err, w)
      | (Inr data, w) \<Rightarrow>
          (case jt_unmarshal jt data of Inl err \<Rightarrow> (Inl err, w) | Inr j \<Rightarrow> (d j, w)))"

definition type_checked :: "json_text \<Rightarrow> 'a option \<Rightarrow> goerr + 'a" where
  "type_checked jt x = (case x of None \<Rightarrow> Inl (jt_type_error jt) | Some a \<Rightarrow> Inr a)"

definition client_print ::
  "json_text \<Rightarrow> 'w transport \<Rightarrow> api_client \<Rightarrow> receipt \<Rightarrow> string \<Rightarrow> 'w \<Rightarrow> (goerr + string) \<times> 'w" where
  "client_print jt tp c r printerName w =
     decode_body jt (\<lambda>j. type_checked jt (dec_struct (one_field ''job_id'' dec_string) j ''''))
       (client_do jt tp c ''POST'' ''/api/v1/print'' (Some (jt_encode jt (print_request_json printerName r))) w)"

definition version_fields :: "build_info field list" where
  "version_fields =
     [(''version'', field dec_string bi_version (\<lambda>x. bi_version_update (\<lambda>_. x))),
      (''commit'', field dec_string bi_commit (\<lambda>x. bi_commit_update (\<lambda>_. x))),
      (''date'', field dec_string bi_date (\<lambda>x. bi_date_update (\<lambda>_. x)))]"

definition client_version :: "json_text \<Rightarrow> 'w transport \<Rightarrow> api_client \<Rightarrow> 'w \<Rightarrow> (goerr + build_info) \<times> 'w" where
  "client_version jt tp c w =
     decode_body jt (\<lambda>j. type_checked jt (dec_struct version_fields j \<lparr>bi_version = '''', bi_commit = '''', bi_date = ''''\<rparr>))
       (client_do jt tp c ''GET'' ''/api/v1/version'' None w)"

record job_status =
  js_id :: string
  js_printer :: string
  js_receipt :: receipt
  js_state :: string
  js_attempts :: int
  js_last_error :: string
  js_created :: time
  js_updated :: time

text \<open>\<open>parse_time\<close> is \<open>time.Time\<close>'s own decoder.\<close>

definition job_status_fields :: "goerr \<Rightarrow> (json \<Rightarrow> goerr + time) \<Rightarrow> (goerr, job_status) own_field list" where
  "job_status_fields je parse_time =
     [(''id'', plain dec_string js_id (\<lambda>x. js_id_update (\<lambda>_. x))),
      (''printer_name'', plain dec_string js_printer (\<lambda>x. js_printer_update (\<lambda>_. x))),
      (''receipt'', own (unmarshal_receipt je) (\<lambda>x. js_receipt_update (\<lambda>_. x))),
      (''state'', plain dec_string js_state (\<lambda>x. js_state_update (\<lambda>_. x))),
      (''attempts'', plain dec_int64 js_attempts (\<lambda>x. js_attempts_update (\<lambda>_. x))),
      (''last_error'', plain dec_string js_last_error (\<lambda>x. js_last_error_update (\<lambda>_. x))),
      (''created_at'', own parse_time (\<lambda>x. js_created_update (\<lambda>_. x))),
      (''updated_at'', own parse_time (\<lambda>x. js_updated_update (\<lambda>_. x)))]"

definition client_jobStatus ::
  "json_text \<Rightarrow> (json \<Rightarrow> goerr + time) \<Rightarrow> 'w transport \<Rightarrow> api_client \<Rightarrow> string \<Rightarrow> 'w \<Rightarrow> (goerr + job_status) \<times> 'w" where
  "client_jobStatus jt parse_time tp c i w =
     decode_body jt (\<lambda>j. dec_own_struct (job_status_fields (jt_type_error jt) parse_time) (jt_type_error jt) j
         \<lparr>js_id = '''', js_printer = '''', js_receipt = zero_receipt, js_state = '''', js_attempts = 0,
          js_last_error = '''', js_created = 0, js_updated = 0\<rparr>)
       (client_do jt tp c ''GET'' (''/api/v1/jobs/'' @ i) None w)"

section \<open>The commands\<close>

definition readReceiptFile :: "json_text \<Rightarrow> 'w fsys \<Rightarrow> string \<Rightarrow> 'w \<Rightarrow> goerr + receipt" where
  "readReceiptFile jt fs path w =
     (case fs_read_file fs path w of
        Inl err \<Rightarrow> Inl (oe_error err)
      | Inr data \<Rightarrow>
          (case jt_unmarshal jt data of
             Inl err \<Rightarrow> Inl err
           | Inr j \<Rightarrow> unmarshal_receipt (jt_type_error jt) j))"

text \<open>\<open>load\<close> is \<open>config.Load(configPath)\<close> in the state of the files.\<close>

definition runPrint ::
  "json_text \<Rightarrow> 'w fsys \<Rightarrow> ('w \<Rightarrow> goerr + config) \<Rightarrow> string option \<Rightarrow> 'w transport \<Rightarrow> string \<Rightarrow> string \<Rightarrow> 'w
     \<Rightarrow> (goerr + string) \<times> 'w" where
  "runPrint jt fs load env tp inPath printerName w =
     (case load w of
        Inl err \<Rightarrow> (Inl err, w)
      | Inr cfg \<Rightarrow>
          (case readReceiptFile jt fs inPath w of
             Inl err \<Rightarrow> (Inl err, w)
           | Inr r \<Rightarrow>
               (case newAPIClient env fs cfg w of
                  Inl err \<Rightarrow> (Inl err, w)
                | Inr c \<Rightarrow>
                    (case client_print jt tp c r printerName w of
                       (Inl err, w) \<Rightarrow> (Inl err, w)
                     | (Inr jobID, w) \<Rightarrow> (Inr (jobID @ [CHR 0x0A]), w)))))"

definition runPreview ::
  "json_text \<Rightarrow> 'w fsys \<Rightarrow> ('w \<Rightarrow> goerr + config) \<Rightarrow> string option \<Rightarrow> 'w transport \<Rightarrow> string \<Rightarrow> string \<Rightarrow> string \<Rightarrow> 'w
     \<Rightarrow> goerr option \<times> 'w" where
  "runPreview jt fs load env tp inPath outPath printerName w =
     (case load w of
        Inl err \<Rightarrow> (Some err, w)
      | Inr cfg \<Rightarrow>
          (case readReceiptFile jt fs inPath w of
             Inl err \<Rightarrow> (Some err, w)
           | Inr r \<Rightarrow>
               (case newAPIClient env fs cfg w of
                  Inl err \<Rightarrow> (Some err, w)
                | Inr c \<Rightarrow>
                    (case client_preview jt tp c r printerName w of
                       (Inl err, w) \<Rightarrow> (Some err, w)
                     | (Inr png, w) \<Rightarrow> apfst (map_option oe_error) (fs_write_file fs outPath png w)))))"

definition runJobs ::
  "json_text \<Rightarrow> (json \<Rightarrow> goerr + time) \<Rightarrow> 'w fsys \<Rightarrow> ('w \<Rightarrow> goerr + config) \<Rightarrow> string option \<Rightarrow> 'w transport \<Rightarrow> string \<Rightarrow> 'w
     \<Rightarrow> (goerr + job_status) \<times> 'w" where
  "runJobs jt parse_time fs load env tp i w =
     (case load w of
        Inl err \<Rightarrow> (Inl err, w)
      | Inr cfg \<Rightarrow>
          (case newAPIClient env fs cfg w of
             Inl err \<Rightarrow> (Inl err, w)
           | Inr c \<Rightarrow> client_jobStatus jt parse_time tp c i w))"

definition serverVersion ::
  "json_text \<Rightarrow> 'w fsys \<Rightarrow> ('w \<Rightarrow> goerr + config) \<Rightarrow> string option \<Rightarrow> 'w transport \<Rightarrow> 'w \<Rightarrow> (goerr + build_info) \<times> 'w" where
  "serverVersion jt fs load env tp w =
     (case load w of
        Inl err \<Rightarrow> (Inl err, w)
      | Inr cfg \<Rightarrow>
          (case newAPIClient env fs cfg w of
             Inl err \<Rightarrow> (Inl err, w)
           | Inr c \<Rightarrow> client_version jt tp c w))"

definition version_line :: "string \<Rightarrow> build_info \<Rightarrow> string" where
  "version_line what b =
     sprintf ''%s %s (commit %s, built %s)'' [FStr what, FStr (bi_version b), FStr (bi_commit b), FStr (bi_date b)]"

definition runVersion ::
  "json_text \<Rightarrow> build_info \<Rightarrow> 'w fsys \<Rightarrow> ('w \<Rightarrow> goerr + config) \<Rightarrow> string option \<Rightarrow> 'w transport \<Rightarrow> 'w \<Rightarrow> string \<times> 'w" where
  "runVersion jt own_build fs load env tp w =
     (case serverVersion jt fs load env tp w of
        (Inl err, w) \<Rightarrow>
          (version_line ''receipt'' own_build @ [CHR 0x0A]
             @ sprintf ''receiptd unavailable (%v)'' [FStr (error_text err)] @ [CHR 0x0A], w)
      | (Inr b, w) \<Rightarrow>
          (version_line ''receipt'' own_build @ [CHR 0x0A] @ version_line ''receiptd'' b @ [CHR 0x0A], w))"

text \<open>
  \<open>render\<close>, offline: the receipt is read, validated, laid out for the zero profile with an empty
  asset store, painted and encoded; nothing is written unless all of it succeeds.
\<close>

definition runRender ::
  "json_text \<Rightarrow> codecs \<Rightarrow> face \<Rightarrow> (int \<Rightarrow> int \<Rightarrow> int list list \<Rightarrow> goerr + byte list) \<Rightarrow> 'w fsys \<Rightarrow> string \<Rightarrow> string \<Rightarrow> 'w
     \<Rightarrow> unit res \<times> 'w" where
  "runRender jt cd fc png fs inPath outPath w =
     (case readReceiptFile jt fs inPath w of
        Inl err \<Rightarrow> (Fail err, w)
      | Inr r \<Rightarrow>
          (case validate_receipt cd r of
             Some err \<Rightarrow> (Fail err, w)
           | None \<Rightarrow>
               (case go_bind (Build cd (Some (\<lambda>name. as_get mem_asset_ops name [])) r zero_profile (EmbeddedFont fc))
                       (\<lambda>doc. go_bind (Paint cd doc) (EncodePNG png)) of
                  Val bs \<Rightarrow>
                    (case fs_write_file fs outPath bs w of
                       (Some err, w) \<Rightarrow> (Fail (oe_error err), w)
                     | (None, w) \<Rightarrow> (Val (), w))
                | Fail err \<Rightarrow> (Fail err, w)
                | Panic m \<Rightarrow> (Panic m, w)
                | Diverge \<Rightarrow> (Diverge, w))))"

section \<open>From the command line to the queue\<close>

text \<open>
  What \<open>encoding/json\<close> documents of the values \<open>plain_json\<close> describes (UTF-8 strings, integers, nested at most 10000
  deep): an object that was encoded is the first value of its own text, and a text that ends in a newline is
  decoded to the value it encodes.
\<close>

definition json_text_ok :: "json_text \<Rightarrow> bool" where
  "json_text_ok jt \<longleftrightarrow>
     (\<forall>kvs. plain_json 10000 (JObj kvs) \<longrightarrow> jt_first jt (jt_encode jt (JObj kvs)) = Whole (JObj kvs))
   \<and> (\<forall>j. plain_json 10000 j \<longrightarrow> jt_unmarshal jt (jt_encode jt j @ [10]) = Inr j)"

lemma plain_print_request:
  assumes "nests_elements leaf_wire 0 (r_elements r)" and "valid_string pn"
  shows "plain_json 10000 (print_request_json pn r)"
proof -
  have "plain_json 9999 (marshal_receipt r)" by (rule plain_json_mono [OF plain_receipt [OF assms(1)]]) simp
  with assms(2) show ?thesis by (simp add: print_request_json_def valid_string_ascii)
qed

text \<open>The transport delivers: an answer is one the daemon gave to the very request.\<close>

definition delivers ::
  "(draws \<Rightarrow> 'w handler) \<Rightarrow> draws set \<Rightarrow> 'w transport \<Rightarrow> bool" where
  "delivers handler D tp \<longleftrightarrow> (\<forall>base req w code status data w'.
     tp_do tp base req w = (Inr (code, status, Inr data), w') \<longrightarrow>
       (\<exists>dr \<in> D. \<exists>resp. handler dr req w = (Val resp, w') \<and> rs_status resp = code \<and> rs_body resp = data))"

lemma client_do_Inr:
  assumes "delivers handler D tp" and "client_do jt tp c m p body w = (Inr data, w')"
  shows "\<exists>dr \<in> D. \<exists>resp. handler dr (client_request c m p body) w = (Val resp, w')
    \<and> rs_status resp < 400 \<and> rs_body resp = data"
proof -
  from assms(2) obtain code status where
    "tp_do tp (cl_base_url c) (client_request c m p body) w = (Inr (code, status, Inr data), w')" "code < 400"
    by (auto simp: client_do_def split: option.splits prod.splits sum.splits if_splits)
  with assms(1) show ?thesis unfolding delivers_def by blast
qed

lemma fail_with_status: "fail_with jt err fallback = Val resp \<Longrightarrow> 400 \<le> fallback \<Longrightarrow> 400 \<le> rs_status resp"
proof -
  have k: "400 \<le> statusForKind k" for k by (cases k) simp_all
  then show "fail_with jt err fallback = Val resp \<Longrightarrow> 400 \<le> fallback \<Longrightarrow> 400 \<le> rs_status resp"
    by (auto simp: fail_with_def statusForError_def writeError_def writeJSON_def Let_def go_simps
        split: option.splits goerr.splits)
qed

lemma decode_print_request:
  assumes "nests_elements leaf_wire 0 (r_elements r)" "int64_ok (r_version r)" "int64_ok (r_copies r)" "valid_string pn"
  shows "decode_request je (print_request_json pn r) = Inr (pn, r)"
  using receipt_json_facts [OF assms(1-3), of je] assms(4)
  by (simp add: decode_request_def print_request_json_def print_request_fields_def find_field_def plain_def own_def field_def)

lemma PrintHandler_success:
  assumes "PrintHandler jt cd svc dr req (s, w) = (Val resp, (s', w'))" and "rs_status resp < 400"
    and "read_body jt (hr_body req) = Inr j" and "decode_request (jt_type_error jt) j = Inr (pn, r)"
  shows "\<exists>i. service_Print cd svc (dr_new_id dr) (dr_now dr) r pn (hr_header req ''Idempotency-Key'') s = (Inr i, s')
    \<and> w' = w \<and> resp = writeJSON jt [] 202 (JObj [(''job_id'', str i)])"
  using assms fail_with_status [of jt _ 500 resp]
  by (auto simp: PrintHandler_def with_request_def Let_def split: prod.splits sum.splits)

lemma api_print_path: "cleanPath ''/api/v1/print'' = ''/api/v1/print''"
  "path_segs ''/api/v1/print'' = [''api'', ''v1'', ''print'']"
  by code_simp+

lemma root_mux_api: "hr_path r = ''/api/v1/print'' \<Longrightarrow> root_mux moved api web r sw = api r sw"
  by (simp add: root_mux_def mux_path_def api_print_path)

text \<open>The print route of a built daemon: refused by the gate, or the print handler.\<close>

lemma print_route:
  assumes "build wr mem bolt nt env cfg w0 = Inr d" and "hr_path req = ''/api/v1/print''" and "hr_method req = ''POST''"
    and "dm_handler d dr req sw = (Val resp, sw')" and "rs_status resp < 400"
  shows "PrintHandler (wr_json wr) (wr_codecs wr) (dm_service d) dr req sw = (Val resp, sw')"
proof -
  from assms(1) obtain token where h: "dm_handler d = build_handler wr cfg token (dm_service d)"
    by (rule build_Inr)
  have "(if ac_enabled (cf_auth cfg) then Bearer token (api_mux wr (dm_service d) dr) else api_mux wr (dm_service d) dr) req sw
      = (Val resp, sw')"
    using assms(4) unfolding h build_handler_def Let_def root_mux_api [OF assms(2)] .
  moreover have "rs_status (unauthorized ''Bearer'') = 401" by (simp add: unauthorized_def http_Error_def)
  ultimately have "api_mux wr (dm_service d) dr req sw = (Val resp, sw')"
    using assms(5) by (auto simp: Bearer_def split: if_splits option.splits)
  then show ?thesis using assms(2,3) by (simp add: api_mux_def api_print_path)
qed

text \<open>
  When the client's \<open>print\<close> reports an ID, the daemon it talked to has put into its persistent store, under
  that ID, one new pending job for exactly the given printer and receipt.
\<close>

lemma client_print_stored:
  assumes "build wr mem bolt nt env cfg w0 = Inr d" and "buildStore mem bolt (cf_queue cfg) = Inr (bolt_ops db c)"
    and "json_text_ok (wr_json wr)" and "delivers (dm_handler d) D tp" and "bolt_invar db c b"
    and "nests_elements leaf_wire 0 (r_elements r)" and "int64_ok (r_version r)" and "int64_ok (r_copies r)"
    and "valid_string pn" and "length (jt_encode (wr_json wr) (print_request_json pn r)) \<le> maxRequestBodyBytes"
    and "\<forall>dr \<in> D. \<forall>i. dr_new_id dr = Inr i \<longrightarrow> bolt_storable c (fresh_job i (dr_now dr) (new_job pn r))"
    and "client_print (wr_json wr) tp cl r pn (b, w) = (Inr i, (b', w'))"
  shows "validate_receipt (wr_codecs wr) r = None \<and> w' = w \<and> bolt_invar db c b'
    \<and> (\<exists>now. bolt_content db c b' = (bolt_content db c b)(i \<mapsto> fresh_job i now (new_job pn r)))"
proof -
  let ?jt = "wr_json wr"
  let ?req = "client_request cl ''POST'' ''/api/v1/print'' (Some (jt_encode ?jt (print_request_json pn r)))"
  from assms(12) obtain data j where c: "client_do ?jt tp cl ''POST'' ''/api/v1/print''
        (Some (jt_encode ?jt (print_request_json pn r))) (b, w) = (Inr data, (b', w'))"
    and j: "jt_unmarshal ?jt data = Inr j" "dec_struct (one_field ''job_id'' dec_string) j '''' = Some i"
    by (auto simp: client_print_def decode_body_def type_checked_def split: prod.splits sum.splits option.splits)
  from client_do_Inr [OF assms(4) c] obtain dr resp where dr: "dr \<in> D"
    and h: "dm_handler d dr ?req (b, w) = (Val resp, (b', w'))" "rs_status resp < 400" "rs_body resp = data" by blast
  have p: "PrintHandler ?jt (wr_codecs wr) (dm_service d) dr ?req (b, w) = (Val resp, (b', w'))"
    by (rule print_route [OF assms(1) _ _ h(1,2)]) (simp_all add: client_request_def)
  have body: "read_body ?jt (hr_body ?req) = Inr (print_request_json pn r)"
    using assms(3,10) plain_print_request [OF assms(6,9)]
    by (simp add: read_body_def client_request_def json_text_ok_def print_request_json_def del: plain_json.simps)
  from PrintHandler_success [OF p h(2) body decode_print_request [OF assms(6-9)]] obtain k where
    s: "service_Print (wr_codecs wr) (dm_service d) (dr_new_id dr) (dr_now dr) r pn '''' b = (Inr k, b')" "w' = w"
      "resp = writeJSON ?jt [] 202 (JObj [(''job_id'', str k)])"
    by (auto simp: client_request_def)
  have q: "q_ops (sv_queue (dm_service d)) = bolt_ops db c"
    using assms(1,2) by (auto elim!: build_Inr simp: NewWithRetry_def)
  have e: "(new_job pn r)\<lparr>j_key := ''''\<rparr> = new_job pn r" by (simp add: new_job_def)
  have st: "\<forall>i. dr_new_id dr = Inr i \<longrightarrow> bolt_storable c (fresh_job i (dr_now dr) ((new_job pn r)\<lparr>j_key := ''''\<rparr>))"
    using assms(11) dr by (simp add: e)
  note sp = service_Print_spec [OF assms(5) q st s(1)]
  then have k: "dr_new_id dr = Inr k" by auto
  have vk: "valid_string k" using assms(11) dr k by (auto simp: bolt_storable_def fresh_job_def)
  moreover have "dec_struct (one_field ''job_id'' dec_string) (JObj [(''job_id'', str k)]) '''' = Some i"
  proof -
    have "jt_unmarshal ?jt data = Inr (JObj [(''job_id'', str k)])"
      using h(3) s(3) assms(3) vk by (auto simp: writeJSON_def json_text_ok_def valid_string_ascii)
    with j show ?thesis by simp
  qed
  ultimately have "k = i" by (simp add: one_field_def find_field_def field_def)
  with sp s(2) show ?thesis by auto
qed

text \<open>A text form of JSON that gives the two messages and the file of the example one byte each.\<close>

instance json :: countable
  by countable_datatype

abbreviation "tea_request \<equiv> print_request_json ''bar'' sample_receipt"

abbreviation "tea_reply \<equiv> JObj [(''job_id'', str ''7f'')]"

abbreviation "tea_file \<equiv> marshal_receipt sample_receipt"

definition tiny_decode :: "byte list \<Rightarrow> json" where
  "tiny_decode bs = (if take 1 bs = [1] then tea_request else if take 1 bs = [2] then tea_reply
     else if take 1 bs = [4] then tea_file
     else from_nat (length (takeWhile (\<lambda>b. b = 0) bs)))"

definition tiny_json :: json_text where
  "tiny_json = \<lparr>jt_first = (\<lambda>bs. Whole (tiny_decode bs)), jt_unmarshal = (\<lambda>bs. Inr (tiny_decode bs)),
     jt_encode = (\<lambda>j. if j = tea_request then [1] else if j = tea_reply then [2]
       else if j = tea_file then [4] else replicate (to_nat j) 0 @ [3]),
     jt_type_error = Leaf ''type''\<rparr>"

lemma tiny_parts [simp]:
  "jt_first tiny_json bs = Whole (tiny_decode bs)" "jt_unmarshal tiny_json bs = Inr (tiny_decode bs)"
  "jt_encode tiny_json tea_request = [1]" "jt_encode tiny_json tea_reply = [2]"
  "jt_type_error tiny_json = Leaf ''type''"
  by (simp_all add: tiny_json_def print_request_json_def)

lemma tiny_decode_encode: "tiny_decode (jt_encode tiny_json j @ bs) = j"
proof -
  have z: "takeWhile (\<lambda>b. b = 0) (replicate n 0 @ (3 :: byte) # bs) = replicate n 0" for n
    by (induction n) simp_all
  have "take 1 (replicate n 0 @ 3 # bs) \<notin> {[1], [2], [4 :: byte]}" for n by (cases n) simp_all
  then have "tiny_decode (replicate n 0 @ 3 # bs) = from_nat n" for n
    by (simp only: tiny_decode_def z) simp
  moreover have "tiny_decode (1 # bs) = tea_request" "tiny_decode (2 # bs) = tea_reply"
    "tiny_decode (4 # bs) = tea_file" by (simp_all add: tiny_decode_def)
  moreover have "jt_encode tiny_json j = (if j = tea_request then [1] else if j = tea_reply then [2]
      else if j = tea_file then [4] else replicate (to_nat j) 0 @ [3])" by (simp add: tiny_json_def)
  ultimately show ?thesis by simp
qed

lemma tiny_json_ok: "json_text_ok tiny_json"
  using tiny_decode_encode [of _ "[]"] by (simp add: json_text_ok_def tiny_decode_encode)

abbreviation "tiny_wiring \<equiv> sample_wiring\<lparr>wr_web := sample_web\<lparr>we_json := tiny_json\<rparr>\<rparr>"

abbreviation tiny_build :: "goerr + ((string \<times> job) list, byte list) daemon" where
  "tiny_build \<equiv> build tiny_wiring (bolt_ops list_bbolt plain_codec) (\<lambda>p. Inr (bolt_ops list_bbolt plain_codec))
     sample_net (Some ''s3cret'') locked_config []"

abbreviation "tea_draws \<equiv> \<lparr>dr_new_id = Inr ''7f'', dr_now = 3\<rparr>"

text \<open>A transport that hands each request to the handler.\<close>

definition direct :: "(draws \<Rightarrow> 'w handler) \<Rightarrow> 'w transport" where
  "direct handler = \<lparr>tp_new = (\<lambda>m u. None),
     tp_do = (\<lambda>base req w. case handler tea_draws req w of
        (Val resp, w') \<Rightarrow> (Inr (rs_status resp, '''', Inr (rs_body resp)), w')
      | (_, w') \<Rightarrow> (Inl (Leaf ''EOF''), w'))\<rparr>"

lemma direct_delivers: "delivers handler {tea_draws} (direct handler)"
  by (auto simp: delivers_def direct_def split: prod.splits go.splits)

lemma tea_valid: "validate_receipt cd sample_receipt = None"
  by (simp add: validate_receipt_def sample_receipt_def validate_heading_def maxCopies_def errors_join_def)

lemma tea_printed:
  assumes "tiny_build = Inr d"
  shows "\<exists>b'. client_print tiny_json (direct (dm_handler d)) \<lparr>cl_base_url = base, cl_token = ''s3cret''\<rparr>
         sample_receipt ''bar'' ([], []) = (Inr ''7f'', (b', []))"
proof -
  let ?cl = "\<lparr>cl_base_url = base, cl_token = ''s3cret''\<rparr>"
  let ?req = "client_request ?cl ''POST'' ''/api/v1/print'' (Some [1])"
  have r: "hr_path ?req = ''/api/v1/print''" "hr_method ?req = ''POST''" "hr_body ?req = [1]"
    "hr_header ?req ''Authorization'' = ''Bearer s3cret''" "hr_header ?req ''Idempotency-Key'' = ''''"
    by (simp_all add: client_request_def)
  have c: "bearerCredential ?req = Some ''s3cret''" unfolding bearerCredential_def r(4) by code_simp
  have gate: "Bearer ''s3cret'' nxt ?req sw = nxt ?req sw" for nxt and sw :: "(string \<times> job) list \<times> byte list"
    by (simp add: Bearer_def c tokensEqual_def)
  from assms obtain token where tk: "ResolveToken (Some ''s3cret'') (wr_fs tiny_wiring) (cf_auth locked_config) [] = Inr token"
    and hd: "dm_handler d = build_handler tiny_wiring locked_config token (dm_service d)"
    by (rule build_Inr)
  have "token = ''s3cret''" using tk locked_usable(2) by (simp add: ResolveToken_def)
  with locked_usable(2) have h: "dm_handler d tea_draws ?req sw = api_mux tiny_wiring (dm_service d) tea_draws ?req sw" for sw
    unfolding hd build_handler_def Let_def by (simp only: root_mux_api [OF r(1)] if_True gate)
  from assms have q: "sv_queue (dm_service d) = NewWithRetry (bolt_ops list_bbolt plain_codec) 3 5000000000"
    by (elim build_Inr) (simp add: buildStore_def locked_config_def sample_config_def)
  have dec: "decode_request (Leaf ''type'') tea_request = Inr (''bar'', sample_receipt)"
    by (rule decode_print_request)
      (simp_all add: sample_receipt_def int64_ok_def maxElementDepth_def valid_string_ascii)
  have enc: "tiny_decode [2, 10] = tea_reply" "tiny_decode [1] = tea_request"
    by (simp_all add: tiny_decode_def)
  obtain b' where pr: "service_Print sample_codecs (dm_service d) (Inr ''7f'') 3 sample_receipt ''bar'' '''' [] = (Inr ''7f'', b')"
    by (simp add: service_Print_def tea_valid Let_def queue_Enqueue_def q NewWithRetry_def bolt_save_def db_update_def
        list_bbolt_def plain_codec_def new_job_def)
  have "api_mux tiny_wiring (dm_service d) tea_draws ?req ([], []) = (Val (writeJSON tiny_json [] 202 tea_reply), (b', []))"
    using pr by (simp add: api_mux_def r api_print_path PrintHandler_def with_request_def read_body_def maxRequestBodyBytes_def enc dec
        sample_wiring_def sample_web_def)
  with h show ?thesis
    by (simp add: client_print_def client_do_def direct_def enc writeJSON_def decode_body_def type_checked_def
        one_field_def find_field_def field_def valid_string_ascii)
qed

end
