(* ===== verification/Commands.thy ===== *)
theory Commands
  imports Client
begin

text \<open>
  Package \<open>cmd/receipt\<close>, the command tree: \<open>newRootCmd\<close> and the subcommands with their arguments and flags, and \<open>main\<close>.
  Cobra, which parses the command line, is a parameter: it gets the declarations and gives a usage error, a text of its
  own (help, version), or the subcommand to run with its flags and arguments.
\<close>

section \<open>Declarations\<close>

datatype args_check = ExactArgs nat | NoArgs

text \<open>A \<open>cobra.Command\<close> without its \<open>RunE\<close>: flags with their defaults, and the flags marked as required.\<close>

record cmd_decl =
  cd_use :: string
  cd_short :: string
  cd_args :: args_check
  cd_flags :: "(string \<times> string) list"
  cd_required :: "string list"

record root_decl =
  rd_use :: string
  rd_short :: string
  rd_version :: string
  rd_persistent :: "(string \<times> string) list"
  rd_commands :: "cmd_decl list"

datatype parsed =
  UsageError goerr
| Informed string
| Invoke nat "string \<rightharpoonup> string" "string list"

record cobra =
  cb_mark_required :: "cmd_decl \<Rightarrow> string \<Rightarrow> goerr option"
  cb_parse :: "root_decl \<Rightarrow> string list \<Rightarrow> parsed"

text \<open>
  What cobra documents: a flag that is declared can be marked as required; a command runs only with the arguments its
  check allows and with every required flag given.
\<close>

fun args_allowed :: "args_check \<Rightarrow> string list \<Rightarrow> bool" where
  "args_allowed (ExactArgs n) args \<longleftrightarrow> length args = n"
| "args_allowed NoArgs args \<longleftrightarrow> args = []"

definition cobra_ok :: "cobra \<Rightarrow> bool" where
  "cobra_ok cb \<longleftrightarrow>
     (\<forall>d n. n \<in> fst ` set (cd_flags d) \<longrightarrow> cb_mark_required cb d n = None)
   \<and> (\<forall>rd argv i given args. cb_parse cb rd argv = Invoke i given args \<longrightarrow>
        i < length (rd_commands rd) \<and> args_allowed (cd_args (rd_commands rd ! i)) args
        \<and> set (cd_required (rd_commands rd ! i)) \<subseteq> dom given)"

text \<open>\<open>RunE\<close>: from the values of the flags and the arguments to the text printed and the error.\<close>

type_synonym 'w runE = "(string \<Rightarrow> string) \<Rightarrow> string list \<Rightarrow> 'w \<Rightarrow> (string \<times> unit res) \<times> 'w"

definition mark_required :: "cobra \<Rightarrow> string \<Rightarrow> cmd_decl \<Rightarrow> cmd_decl res" where
  "mark_required cb n d =
     (case cb_mark_required cb d n of
        Some err \<Rightarrow> Panic (error_text err)
      | None \<Rightarrow> Val (d\<lparr>cd_required := cd_required d @ [n]\<rparr>))"

definition arg0 :: "string list \<Rightarrow> string res" where
  "arg0 args = (case args of [] \<Rightarrow> Panic ''index out of range [0] with length 0'' | a # _ \<Rightarrow> Val a)"

text \<open>A closure that needs \<open>args[0]\<close>.\<close>

definition with_arg0 :: "(string \<Rightarrow> 'w \<Rightarrow> (string \<times> unit res) \<times> 'w) \<Rightarrow> string list \<Rightarrow> 'w \<Rightarrow> (string \<times> unit res) \<times> 'w" where
  "with_arg0 run args w =
     (case arg0 args of Val a \<Rightarrow> run a w | Fail e \<Rightarrow> (('''', Fail e), w) | Panic m \<Rightarrow> (('''', Panic m), w)
        | Diverge \<Rightarrow> (('''', Diverge), w))"

section \<open>The subcommands\<close>

text \<open>What the commands are run with; \<open>cli_load\<close> is \<open>config.Load\<close> of a path.\<close>

record 'w cli =
  cli_json :: json_text
  cli_codecs :: codecs
  cli_face :: face
  cli_png :: "int \<Rightarrow> int \<Rightarrow> int list list \<Rightarrow> goerr + byte list"
  cli_time :: "json \<Rightarrow> goerr + time"
  cli_indent :: "job_status \<Rightarrow> string"
  cli_build :: build_info
  cli_files :: "'w fsys"
  cli_load :: "string \<Rightarrow> 'w \<Rightarrow> goerr + config"
  cli_token :: "string option"
  cli_transport :: "'w transport"

definition newRenderCmd :: "cobra \<Rightarrow> 'w cli \<Rightarrow> (cmd_decl \<times> 'w runE) res" where
  "newRenderCmd cb c =
     go_bind (mark_required cb ''out'' \<lparr>cd_use = ''render <receipt.json>'', cd_short = ''Render a Receipt to a PNG preview, offline'',
        cd_args = ExactArgs 1, cd_flags = [(''out'', '''')], cd_required = []\<rparr>) (\<lambda>d.
     Val (d, \<lambda>flag. with_arg0 (\<lambda>a w.
       apfst (Pair '''') (runRender (cli_json c) (cli_codecs c) (cli_face c) (cli_png c) (cli_files c) a (flag ''out'') w))))"

definition newPreviewCmd :: "cobra \<Rightarrow> 'w cli \<Rightarrow> (cmd_decl \<times> 'w runE) res" where
  "newPreviewCmd cb c =
     go_bind (mark_required cb ''out'' \<lparr>cd_use = ''preview <receipt.json>'',
        cd_short = ''Render a Receipt to a PNG preview via receiptd's API'',
        cd_args = ExactArgs 1, cd_flags = [(''out'', '''')], cd_required = []\<rparr>) (\<lambda>d.
     go_bind (mark_required cb ''printer'' (d\<lparr>cd_flags := cd_flags d @ [(''printer'', '''')]\<rparr>)) (\<lambda>d.
     Val (d, \<lambda>flag. with_arg0 (\<lambda>a w.
       apfst (\<lambda>e. ('''', case e of None \<Rightarrow> Val () | Some err \<Rightarrow> Fail err))
         (runPreview (cli_json c) (cli_files c) (cli_load c (flag ''config'')) (cli_token c) (cli_transport c)
            a (flag ''out'') (flag ''printer'') w)))))"

definition newPrintCmd :: "cobra \<Rightarrow> 'w cli \<Rightarrow> (cmd_decl \<times> 'w runE) res" where
  "newPrintCmd cb c =
     go_bind (mark_required cb ''printer'' \<lparr>cd_use = ''print <receipt.json>'',
        cd_short = ''Submit a Receipt to receiptd's print queue via its API'',
        cd_args = ExactArgs 1, cd_flags = [(''printer'', '''')], cd_required = []\<rparr>) (\<lambda>d.
     Val (d, \<lambda>flag. with_arg0 (\<lambda>a w.
       apfst (\<lambda>r. case r of Inl err \<Rightarrow> ('''', Fail err) | Inr text \<Rightarrow> (text, Val ()))
         (runPrint (cli_json c) (cli_files c) (cli_load c (flag ''config'')) (cli_token c) (cli_transport c)
            a (flag ''printer'') w))))"

definition newJobsCmd :: "cobra \<Rightarrow> 'w cli \<Rightarrow> (cmd_decl \<times> 'w runE) res" where
  "newJobsCmd cb c =
     Val (\<lparr>cd_use = ''jobs <job-id>'', cd_short = ''Show a print Job's current status via receiptd's API'',
           cd_args = ExactArgs 1, cd_flags = [], cd_required = []\<rparr>,
       \<lambda>flag. with_arg0 (\<lambda>a w.
         apfst (\<lambda>r. case r of Inl err \<Rightarrow> ('''', Fail err) | Inr js \<Rightarrow> (cli_indent c js, Val ()))
           (runJobs (cli_json c) (cli_time c) (cli_files c) (cli_load c (flag ''config'')) (cli_token c) (cli_transport c) a w)))"

definition newVersionCmd :: "cobra \<Rightarrow> 'w cli \<Rightarrow> (cmd_decl \<times> 'w runE) res" where
  "newVersionCmd cb c =
     Val (\<lparr>cd_use = ''version'', cd_short = ''Show this CLI's version and the daemon's'', cd_args = NoArgs, cd_flags = [],
           cd_required = []\<rparr>,
       \<lambda>flag args w. apfst (\<lambda>text. (text, Val ()))
         (runVersion (cli_json c) (cli_build c) (cli_files c) (cli_load c (flag ''config'')) (cli_token c) (cli_transport c) w))"

section \<open>The root and main\<close>

definition newRootCmd :: "cobra \<Rightarrow> 'w cli \<Rightarrow> (root_decl \<times> 'w runE list) res" where
  "newRootCmd cb c =
     go_bind (newRenderCmd cb c) (\<lambda>render.
     go_bind (newPreviewCmd cb c) (\<lambda>preview.
     go_bind (newPrintCmd cb c) (\<lambda>print.
     go_bind (newJobsCmd cb c) (\<lambda>jobs.
     go_bind (newVersionCmd cb c) (\<lambda>version.
     let cmds = [render, preview, print, jobs, version] in
     Val (\<lparr>rd_use = ''receipt'', rd_short = ''Receiptd's CLI client'',
           rd_version = sprintf ''%s (commit %s, built %s)''
             [FStr (bi_version (cli_build c)), FStr (bi_commit (cli_build c)), FStr (bi_date (cli_build c))],
           rd_persistent = [(''config'', ''/etc/receiptd/config.yaml'')], rd_commands = map fst cmds\<rparr>, map snd cmds))))))"

text \<open>The value of a flag: as given, or its default.\<close>

definition flag_value :: "(string \<times> string) list \<Rightarrow> (string \<rightharpoonup> string) \<Rightarrow> string \<Rightarrow> string" where
  "flag_value decls given n =
     (case given n of Some v \<Rightarrow> v | None \<Rightarrow> (case map_of decls n of Some v \<Rightarrow> v | None \<Rightarrow> ''''))"

definition execute :: "cobra \<Rightarrow> root_decl \<times> 'w runE list \<Rightarrow> string list \<Rightarrow> 'w \<Rightarrow> (string \<times> unit res) \<times> 'w" where
  "execute cb root argv w =
     (case root of (rd, runs) \<Rightarrow>
        case cb_parse cb rd argv of
          UsageError err \<Rightarrow> (('''', Fail err), w)
        | Informed text \<Rightarrow> ((text, Val ()), w)
        | Invoke i given args \<Rightarrow>
            (if i < length runs then (runs ! i) (flag_value (rd_persistent rd @ cd_flags (rd_commands rd ! i)) given) args w
             else (('''', Panic ''no such command''), w)))"

text \<open>The exit code of the process: \<open>main\<close> exits with 1 after an error, a panic of the Go runtime exits with 2.\<close>

definition go_exit :: "unit res \<Rightarrow> int res" where
  "go_exit r = (case r of Val _ \<Rightarrow> Val 0 | Fail err \<Rightarrow> Val 1 | Panic m \<Rightarrow> Val 2 | Diverge \<Rightarrow> Diverge)"

definition receipt_main :: "cobra \<Rightarrow> 'w cli \<Rightarrow> string list \<Rightarrow> 'w \<Rightarrow> (string \<times> int res) \<times> 'w" where
  "receipt_main cb c argv w =
     (case newRootCmd cb c of
        Val root \<Rightarrow> apfst (apsnd go_exit) (execute cb root argv w)
      | Fail e \<Rightarrow> (('''', Val 1), w)
      | Panic m \<Rightarrow> (('''', Val 2), w)
      | Diverge \<Rightarrow> (('''', Diverge), w))"

section \<open>The commands do not crash\<close>




lemma mark_required_Val: "cobra_ok cb \<Longrightarrow> n \<in> fst ` set (cd_flags d) \<Longrightarrow>
    mark_required cb n d = Val (d\<lparr>cd_required := cd_required d @ [n]\<rparr>)"
  by (simp add: cobra_ok_def mark_required_def)

lemmas new_cmd_defs = newRenderCmd_def newPreviewCmd_def newPrintCmd_def newJobsCmd_def newVersionCmd_def


text \<open>What the \<open>print\<close> command runs.\<close>

lemma print_command:
  assumes "cobra_ok cb" and "newRootCmd cb c = Val (rd, runs)"
  shows "2 < length runs"
    and "cd_args (rd_commands rd ! 2) = ExactArgs 1"
    and "(runs ! 2) flag [a] w = apfst (\<lambda>r. case r of Inl err \<Rightarrow> ('''', Fail err) | Inr text \<Rightarrow> (text, Val ()))
         (runPrint (cli_json c) (cli_files c) (cli_load c (flag ''config'')) (cli_token c) (cli_transport c) a (flag ''printer'') w)"
  using assms(2)
  by (auto simp: newRootCmd_def new_cmd_defs mark_required_Val [OF assms(1)] Let_def with_arg0_def arg0_def)

lemma go_exit_0: "go_exit r = Val 0 \<longleftrightarrow> r = Val ()"
  by (cases r) (auto simp: go_exit_def)

section \<open>Properties\<close>


text \<open>
  (C2) The whole way of a print job: when \<open>receipt print\<close> exits with the code 0, it has printed the ID of a
  job, and the daemon it talked to has put into its persistent (bbolt) store, under that ID, one new pending job for exactly
  the printer of the command line and the receipt in the file, which is valid; every other job is as before.  This is for
  a file and a printer name in UTF-8, a request within the daemon's size limit, IDs that can be stored, and a transport that
  hands the request to the daemon and its answer back.
\<close>

theorem cli_print_reaches_queue:
  assumes "build wr mem bolt nt env cfg w0 = Inr d" and "buildStore mem bolt (cf_queue cfg) = Inr (bolt_ops db cdc)"
    and "json_text_ok (wr_json wr)" and "delivers (dm_handler d) D (cli_transport c)" and "bolt_invar db cdc b"
    and "cobra_ok cb" and "cli_json c = wr_json wr" and "newRootCmd cb c = Val (rd, runs)"
    and "cb_parse cb rd argv = Invoke 2 given args" and "given ''printer'' = Some pn"
    and "readReceiptFile (cli_json c) (cli_files c) (hd args) (b, w) = Inr r"
    and "nests_elements leaf_wire 0 (r_elements r)" and "int64_ok (r_version r)" and "int64_ok (r_copies r)"
    and "valid_string pn" and "length (jt_encode (wr_json wr) (print_request_json pn r)) \<le> maxRequestBodyBytes"
    and "\<forall>dr \<in> D. \<forall>i. dr_new_id dr = Inr i \<longrightarrow> bolt_storable cdc (fresh_job i (dr_now dr) (new_job pn r))"
    and "receipt_main cb c argv (b, w) = ((out, Val 0), (b', w'))"
  shows "validate_receipt (wr_codecs wr) r = None \<and> w' = w \<and> bolt_invar db cdc b'
    \<and> (\<exists>i now. out = i @ [CHR 0x0A]
         \<and> bolt_content db cdc b' = (bolt_content db cdc b)(i \<mapsto> fresh_job i now (new_job pn r)))"
proof -
  note cmd = print_command [OF assms(6,8)]
  have "args_allowed (cd_args (rd_commands rd ! 2)) args" using assms(6,9) unfolding cobra_ok_def by blast
  then obtain a where a: "args = [a]" by (auto simp: cmd(2) length_Suc_conv)
  let ?flag = "flag_value (rd_persistent rd @ cd_flags (rd_commands rd ! 2)) given"
  have "(runs ! 2) ?flag [a] (b, w) = ((out, Val ()), (b', w'))"
    using assms(18,8,9) cmd(1) a
    by (cases "(runs ! 2) ?flag [a] (b, w)") (auto simp: receipt_main_def execute_def go_exit_0 apsnd_def map_prod_def split: prod.splits)
  then have "runPrint (cli_json c) (cli_files c) (cli_load c (?flag ''config'')) (cli_token c) (cli_transport c) a pn (b, w)
      = (Inr out, (b', w'))"
    using assms(10) unfolding cmd(3)
    by (cases "runPrint (cli_json c) (cli_files c) (cli_load c (?flag ''config'')) (cli_token c) (cli_transport c) a pn (b, w)")
      (auto simp: flag_value_def split: sum.splits)
  then obtain cl i where "client_print (wr_json wr) (cli_transport c) cl r pn (b, w) = (Inr i, (b', w'))" "out = i @ [CHR 0x0A]"
    using assms(7,11) a by (auto simp: runPrint_def split: sum.splits prod.splits)
  with client_print_stored [OF assms(1-5) assms(12-17)] show ?thesis by blast
qed

text \<open>A command line of the form \<open>print <printer> <file>\<close>, the only one this stand-in for cobra accepts.\<close>

definition sample_cobra :: cobra where
  "sample_cobra = \<lparr>cb_mark_required = (\<lambda>d n. if n \<in> fst ` set (cd_flags d) then None else Some (Leaf n)),
     cb_parse = (\<lambda>rd argv. case argv of
        [cmd, pn, file] \<Rightarrow>
          (if cmd = ''print'' \<and> 2 < length (rd_commands rd) \<and> cd_args (rd_commands rd ! 2) = ExactArgs 1
              \<and> set (cd_required (rd_commands rd ! 2)) \<subseteq> {''printer''}
           then Invoke 2 [''printer'' \<mapsto> pn] [file] else UsageError (Leaf ''usage''))
      | _ \<Rightarrow> UsageError (Leaf ''usage''))\<rparr>"

lemma sample_cobra_ok: "cobra_ok sample_cobra"
  by (auto simp: cobra_ok_def sample_cobra_def split: list.splits if_splits)

definition tea_fs :: "'w fsys" where
  "tea_fs = \<lparr>fs_read_file = (\<lambda>p w. Inr [4]), fs_mkdir_all = (\<lambda>p w. (None, w)), fs_write_file = (\<lambda>p bs w. (None, w)),
     fs_remove = (\<lambda>p w. (None, w)), fs_read_dir = (\<lambda>p w. Inr [])\<rparr>"

definition tea_cli :: "'w transport \<Rightarrow> 'w cli" where
  "tea_cli tp = \<lparr>cli_json = tiny_json, cli_codecs = sample_codecs, cli_face = sample_face, cli_png = (\<lambda>w h rows. Inr []),
     cli_time = (\<lambda>j. Inr 0), cli_indent = js_state, cli_build = \<lparr>bi_version = ''dev'', bi_commit = ''none'', bi_date = ''unknown''\<rparr>,
     cli_files = tea_fs, cli_load = (\<lambda>p w. Inr locked_config), cli_token = Some ''s3cret'', cli_transport = tp\<rparr>"

lemma tea_cli_simps [simp]:
  "cli_json (tea_cli tp) = tiny_json" "cli_codecs (tea_cli tp) = sample_codecs" "cli_face (tea_cli tp) = sample_face"
  "cli_files (tea_cli tp) = tea_fs" "cli_load (tea_cli tp) p w = Inr locked_config" "cli_token (tea_cli tp) = Some ''s3cret''"
  "cli_transport (tea_cli tp) = tp"
  by (simp_all add: tea_cli_def)

abbreviation "tea_line \<equiv> [''print'', ''bar'', ''tea.json'']"

lemma tea_root:
  obtains rd runs where "newRootCmd sample_cobra (tea_cli tp) = Val (rd, runs)"
    "cb_parse sample_cobra rd tea_line = Invoke 2 [''printer'' \<mapsto> ''bar''] [''tea.json'']"
  by (simp add: newRootCmd_def new_cmd_defs mark_required_Val [OF sample_cobra_ok] Let_def, simp add: sample_cobra_def)

lemma tea_file_read: "readReceiptFile tiny_json tea_fs path w = Inr sample_receipt"
proof -
  have "unmarshal_receipt (Leaf ''type'') tea_file = Inr sample_receipt"
    by (rule receipt_json_facts) (simp_all add: sample_receipt_def int64_ok_def maxElementDepth_def valid_string_ascii)
  then show ?thesis by (simp add: readReceiptFile_def tea_fs_def tiny_decode_def)
qed

lemma tea_run:
  assumes "tiny_build = Inr d"
  obtains b' where "receipt_main sample_cobra (tea_cli (direct (dm_handler d))) tea_line ([], []) = ((''7f'' @ [CHR 0x0A], Val 0), (b', []))"
proof -
  obtain rd runs where r: "newRootCmd sample_cobra (tea_cli (direct (dm_handler d))) = Val (rd, runs)"
    "cb_parse sample_cobra rd tea_line = Invoke 2 [''printer'' \<mapsto> ''bar''] [''tea.json'']" by (rule tea_root)
  note cmd = print_command [OF sample_cobra_ok r(1)]
  obtain b' where b: "client_print tiny_json (direct (dm_handler d)) \<lparr>cl_base_url = apiBaseURL '':8080'', cl_token = ''s3cret''\<rparr>
      sample_receipt ''bar'' ([], []) = (Inr ''7f'', (b', []))" using tea_printed [OF assms] by blast
  have "newAPIClient (Some ''s3cret'') fs locked_config w = Inr \<lparr>cl_base_url = apiBaseURL '':8080'', cl_token = ''s3cret''\<rparr>"
    for fs :: "((string \<times> job) list \<times> byte list) fsys" and w
    using locked_usable(2) by (simp add: newAPIClient_def ResolveToken_def) (simp add: locked_config_def sample_config_def)
  then have "runPrint tiny_json tea_fs (\<lambda>w. Inr locked_config) (Some ''s3cret'') (direct (dm_handler d)) ''tea.json'' ''bar'' ([], [])
      = (Inr (''7f'' @ [CHR 0x0A]), (b', []))"
    using b by (simp add: runPrint_def tea_file_read)
  moreover have "cli_load (tea_cli (direct (dm_handler d))) p = (\<lambda>w. Inr locked_config)" for p
    by (simp add: fun_eq_iff)
  ultimately have "receipt_main sample_cobra (tea_cli (direct (dm_handler d))) tea_line ([], []) = ((''7f'' @ [CHR 0x0A], Val 0), (b', []))"
    using r cmd(1) by (simp add: receipt_main_def execute_def cmd(3) go_exit_def flag_value_def)
  then show thesis by (rule that)
qed


theorem cli_print_reaches_queue_witness:
  "\<exists>d b' i. tiny_build = Inr d
     \<and> receipt_main sample_cobra (tea_cli (direct (dm_handler d))) tea_line ([], []) = ((i @ [CHR 0x0A], Val 0), (b', []))
     \<and> bolt_content list_bbolt plain_codec b' i \<noteq> None"
proof -
  obtain d where d: "tiny_build = Inr d"
    using sample_built by (simp add: build_def buildStore_def ResolveToken_def locked_config_def sample_config_def
        buildPrinters_def Let_def)
  have st: "buildStore (bolt_ops list_bbolt plain_codec) (\<lambda>p. Inr (bolt_ops list_bbolt plain_codec)) (cf_queue locked_config)
      = Inr (bolt_ops list_bbolt plain_codec)" by (simp add: buildStore_def)
  have inv: "bolt_invar list_bbolt plain_codec []" by (rule bolt_invar_list_bucket) simp
  have jt: "json_text_ok (wr_json tiny_wiring)" using tiny_json_ok by simp
  have len: "length (jt_encode (wr_json tiny_wiring) tea_request) \<le> maxRequestBodyBytes"
    by (simp add: maxRequestBodyBytes_def)
  obtain rd runs where r: "newRootCmd sample_cobra (tea_cli (direct (dm_handler d))) = Val (rd, runs)"
    "cb_parse sample_cobra rd tea_line = Invoke 2 [''printer'' \<mapsto> ''bar''] [''tea.json'']" by (rule tea_root)
  obtain b' where m: "receipt_main sample_cobra (tea_cli (direct (dm_handler d))) tea_line ([], []) = ((''7f'' @ [CHR 0x0A], Val 0), (b', []))"
    by (rule tea_run [OF d])
  have "validate_receipt (wr_codecs tiny_wiring) sample_receipt = None \<and> ([] :: byte list) = []
    \<and> bolt_invar list_bbolt plain_codec b'
    \<and> (\<exists>i now. ''7f'' @ [CHR 0x0A] = i @ [CHR 0x0A] \<and> bolt_content list_bbolt plain_codec b'
        = (bolt_content list_bbolt plain_codec [])(i \<mapsto> fresh_job i now (new_job ''bar'' sample_receipt)))"
    by (rule cli_print_reaches_queue [OF d st jt _ inv sample_cobra_ok _ r _ _ _ _ _ _ len _ m, where D = "{tea_draws}"])
      (simp_all add: direct_delivers tea_file_read sample_receipt_def int64_ok_def maxElementDepth_def valid_string_ascii
        bolt_storable_def fresh_job_def new_job_def plain_codec_def)
  then obtain i now where "''7f'' @ [CHR 0x0A] = i @ [CHR 0x0A]" "bolt_content list_bbolt plain_codec b' i \<noteq> None" by auto
  with d m show ?thesis by metis
qed

end
