(* ===== verification/Shutdown.thy ===== *)
theory Shutdown
  imports Daemon
begin

text \<open>
  \<open>cmd/receiptd/shutdown.go\<close>: the goroutines of the running daemon and how it ends.  The main goroutine
  waits for the server or a signal and then for the drain, the deadline or a second signal; the goroutine of \<open>shutdown\<close>
  cancels the workers' context and waits for the server and all workers; the workers loop as \<open>runWorker\<close> does.
  A step is one channel operation, one check of the context, or one call of a worker; any interleaving is
  a run.
\<close>

section \<open>States and steps\<close>

datatype worker_pc = Checking | Claiming | Working | Waiting | Gone

datatype main_pc = Selecting | Draining | Exited int

text \<open>How \<open>ListenAndServe\<close> returned.\<close>

datatype serve_end = Failed | Closed

text \<open>
  \<open>sd_signals\<close> and \<open>sd_serve\<close> are the channels \<open>sigCh\<close> and \<open>serveErr\<close>, \<open>sd_done\<close> the channel \<open>done\<close> (whether
  \<open>shutdown\<close> returned nil), \<open>sd_expired\<close> whether the drain's context is done, \<open>sd_late p\<close> how many jobs the
  worker of \<open>p\<close> claimed after the cancellation.  \<open>sd_server_down\<close> says that every connection of the server is closed,
  \<open>sd_shut_returned\<close> that \<open>srv.Shutdown\<close> has returned: it does so when the connections are closed, or with an
  error, which is ignored, when its context is done.
\<close>

record running =
  sd_main :: main_pc
  sd_signals :: nat
  sd_serve :: "serve_end option"
  sd_cancelled :: bool
  sd_server_down :: bool
  sd_shut_returned :: bool
  sd_expired :: bool
  sd_done :: "bool option"
  sd_worker :: "string \<Rightarrow> worker_pc"
  sd_late :: "string \<Rightarrow> nat"

text \<open>\<open>startWorker\<close> has run, the server is starting.\<close>

definition started :: running where
  "started = \<lparr>sd_main = Selecting, sd_signals = 0, sd_serve = None, sd_cancelled = False, sd_server_down = False,
     sd_shut_returned = False, sd_expired = False, sd_done = None, sd_worker = (\<lambda>p. Checking), sd_late = (\<lambda>p. 0)\<rparr>"

definition alive :: "running \<Rightarrow> bool" where
  "alive c \<longleftrightarrow> (\<forall>n. sd_main c \<noteq> Exited n)"

inductive worker_step :: "running \<Rightarrow> running \<Rightarrow> bool" where
  check_done: "sd_worker c p = Checking \<Longrightarrow> sd_cancelled c \<Longrightarrow> worker_step c (c\<lparr>sd_worker := (sd_worker c)(p := Gone)\<rparr>)"
| check_go: "sd_worker c p = Checking \<Longrightarrow> \<not> sd_cancelled c \<Longrightarrow> worker_step c (c\<lparr>sd_worker := (sd_worker c)(p := Claiming)\<rparr>)"
| claim_job: "sd_worker c p = Claiming \<Longrightarrow>
    worker_step c (c\<lparr>sd_worker := (sd_worker c)(p := Working),
                     sd_late := (sd_late c)(p := sd_late c p + (if sd_cancelled c then 1 else 0))\<rparr>)"
| claim_none: "sd_worker c p = Claiming \<Longrightarrow> worker_step c (c\<lparr>sd_worker := (sd_worker c)(p := Waiting)\<rparr>)"
| job_over: "sd_worker c p = Working \<Longrightarrow> worker_step c (c\<lparr>sd_worker := (sd_worker c)(p := Waiting)\<rparr>)"
| wake: "sd_worker c p = Waiting \<Longrightarrow> worker_step c (c\<lparr>sd_worker := (sd_worker c)(p := Checking)\<rparr>)"

text \<open>\<open>names\<close> are the printers that have a worker.  \<open>Shutdown\<close> makes \<open>ListenAndServe\<close> return \<open>ErrServerClosed\<close>.\<close>

inductive daemon_step :: "string list \<Rightarrow> running \<Rightarrow> running \<Rightarrow> bool" for names where
  worker: "alive c \<Longrightarrow> worker_step c c' \<Longrightarrow> daemon_step names c c'"
| sig_arrives: "alive c \<Longrightarrow> sd_signals c < 2 \<Longrightarrow> daemon_step names c (c\<lparr>sd_signals := sd_signals c + 1\<rparr>)"
| serve_fails: "alive c \<Longrightarrow> sd_serve c = None \<Longrightarrow> daemon_step names c (c\<lparr>sd_serve := Some Failed\<rparr>)"
| serve_closed: "alive c \<Longrightarrow> sd_serve c = None \<Longrightarrow> sd_cancelled c \<Longrightarrow> daemon_step names c (c\<lparr>sd_serve := Some Closed\<rparr>)"
| main_serve: "sd_main c = Selecting \<Longrightarrow> sd_serve c = Some r \<Longrightarrow>
    daemon_step names c (c\<lparr>sd_main := Exited (if r = Failed then 1 else 0)\<rparr>)"
| main_signal: "sd_main c = Selecting \<Longrightarrow> sd_signals c = Suc n \<Longrightarrow>
    daemon_step names c (c\<lparr>sd_main := Draining, sd_signals := n\<rparr>)"
| cancel: "sd_main c = Draining \<Longrightarrow> \<not> sd_cancelled c \<Longrightarrow> daemon_step names c (c\<lparr>sd_cancelled := True\<rparr>)"
| expire: "sd_main c = Draining \<Longrightarrow> daemon_step names c (c\<lparr>sd_expired := True\<rparr>)"
| server_down: "sd_main c = Draining \<Longrightarrow> sd_cancelled c \<Longrightarrow>
    daemon_step names c (c\<lparr>sd_server_down := True, sd_shut_returned := True\<rparr>)"
| server_given_up: "sd_main c = Draining \<Longrightarrow> sd_cancelled c \<Longrightarrow> sd_expired c \<Longrightarrow>
    daemon_step names c (c\<lparr>sd_shut_returned := True\<rparr>)"
| drained: "sd_main c = Draining \<Longrightarrow> sd_cancelled c \<Longrightarrow> sd_done c = None \<Longrightarrow> sd_shut_returned c \<Longrightarrow>
    (\<forall>p \<in> set names. sd_worker c p = Gone) \<Longrightarrow> daemon_step names c (c\<lparr>sd_done := Some True\<rparr>)"
| ctx_done: "sd_main c = Draining \<Longrightarrow> sd_cancelled c \<Longrightarrow> sd_done c = None \<Longrightarrow> sd_expired c \<Longrightarrow>
    daemon_step names c (c\<lparr>sd_done := Some False\<rparr>)"
| main_done: "sd_main c = Draining \<Longrightarrow> sd_done c = Some clean \<Longrightarrow>
    daemon_step names c (c\<lparr>sd_main := Exited (shutdownOnSignal (if clean then Drained else DeadlineExceeded))\<rparr>)"
| main_repeat: "sd_main c = Draining \<Longrightarrow> sd_signals c = Suc n \<Longrightarrow>
    daemon_step names c (c\<lparr>sd_main := Exited (shutdownOnSignal RepeatSignal), sd_signals := n, sd_expired := True\<rparr>)"

inductive_cases worker_stepE: "worker_step c c'"

section \<open>The invariant\<close>

definition run_ok :: "string list \<Rightarrow> running \<Rightarrow> bool" where
  "run_ok names c \<longleftrightarrow>
     (sd_main c = Selecting \<longrightarrow> \<not> sd_cancelled c)
   \<and> (\<not> sd_cancelled c \<longrightarrow> sd_serve c \<noteq> Some Closed \<and> (\<forall>p. sd_late c p = 0 \<and> sd_worker c p \<noteq> Gone) \<and> sd_done c = None)
   \<and> (\<forall>p. sd_late c p \<le> 1) \<and> (\<forall>p. sd_worker c p = Claiming \<longrightarrow> sd_late c p = 0)
   \<and> (sd_shut_returned c \<longrightarrow> sd_server_down c \<or> sd_expired c)
   \<and> (sd_done c = Some True \<longrightarrow> sd_shut_returned c \<and> (\<forall>p \<in> set names. sd_worker c p = Gone))
   \<and> (\<forall>n. sd_main c = Exited n \<longrightarrow> (n = 0 \<longrightarrow> sd_done c = Some True)
        \<and> (\<exists>e. n = exit_code e \<and> (e = Signalled Drained \<longleftrightarrow> n = 0)))"

lemma run_ok_started: "run_ok names started"
  by (simp add: run_ok_def started_def)

lemma run_ok_worker:
  assumes "run_ok names c" and "alive c" and "worker_step c c'"
  shows "run_ok names c'"
  using assms(3)
proof cases
  case (check_go p)
  with assms show ?thesis by (fastforce simp: run_ok_def alive_def)
next
  case (claim_job p)
  have "sd_late c p = 0" using assms(1) claim_job(2) by (auto simp: run_ok_def dest: spec [of _ p])
  with assms claim_job show ?thesis by (auto simp: run_ok_def alive_def split: if_splits)
qed (use assms in \<open>auto simp: run_ok_def alive_def split: if_splits\<close>)

lemma run_ok_step: "daemon_step names c c' \<Longrightarrow> run_ok names c \<Longrightarrow> run_ok names c'"
proof (induction rule: daemon_step.induct)
  case (worker c c')
  then show ?case by (blast intro: run_ok_worker)
next
  case (main_serve c r)
  then have "r = Failed" by (cases r) (auto simp: run_ok_def)
  with main_serve show ?case
    by (auto simp: run_ok_def exit_code_def shutdownOnSignal_def intro!: exI [of _ "ServerStopped (Some e)" for e])
next
  case (main_done c clean)
  then show ?case
    by (auto simp: run_ok_def exit_code_def shutdownOnSignal_def intro: exI [of _ "Signalled Drained"]
        intro!: exI [of _ "Signalled DeadlineExceeded"])
next
  case (main_repeat c n)
  then show ?case
    by (auto simp: run_ok_def exit_code_def shutdownOnSignal_def intro!: exI [of _ "Signalled RepeatSignal"])
qed (auto simp: run_ok_def alive_def)

section \<open>Properties\<close>

text \<open>The drain's own context ends the wait, whatever the workers and the server do.\<close>

lemma draining_ends:
  assumes "run_ok names c" and "sd_main c = Draining"
  shows "\<exists>c' n. (daemon_step names)\<^sup>*\<^sup>* c c' \<and> sd_main c' = Exited n \<and> sd_worker c' = sd_worker c"
proof -
  let ?c1 = "c\<lparr>sd_cancelled := True\<rparr>"
  have 1: "(daemon_step names)\<^sup>*\<^sup>* c ?c1"
  proof (cases "sd_cancelled c")
    case True
    then have "?c1 = c" by simp
    then show ?thesis by simp
  next
    case False
    with assms(2) show ?thesis by (blast intro: r_into_rtranclp cancel)
  qed
  let ?c2 = "?c1\<lparr>sd_expired := True\<rparr>"
  have 2: "(daemon_step names)\<^sup>*\<^sup>* c ?c2" using assms(2) by (intro rtranclp.rtrancl_into_rtrancl [OF 1] expire) simp
  have "\<exists>c3 b. (daemon_step names)\<^sup>*\<^sup>* c c3 \<and> sd_main c3 = Draining \<and> sd_done c3 = Some b \<and> sd_worker c3 = sd_worker c"
  proof (cases "sd_done c")
    case None
    let ?c3 = "?c2\<lparr>sd_done := Some False\<rparr>"
    have "daemon_step names ?c2 ?c3" using assms(2) None by (intro ctx_done) simp_all
    with 2 have "(daemon_step names)\<^sup>*\<^sup>* c ?c3" by (rule rtranclp.rtrancl_into_rtrancl)
    then show ?thesis using assms(2) by (intro exI [of _ ?c3] exI [of _ False]) simp
  next
    case (Some b)
    with assms(2) show ?thesis by blast
  qed
  then obtain c3 b where c3: "(daemon_step names)\<^sup>*\<^sup>* c c3" "sd_main c3 = Draining" "sd_done c3 = Some b" "sd_worker c3 = sd_worker c"
    by blast
  from main_done [OF c3(2,3), of names] c3(1) have
    "(daemon_step names)\<^sup>*\<^sup>* c (c3\<lparr>sd_main := Exited (shutdownOnSignal (if b then Drained else DeadlineExceeded))\<rparr>)"
    by (blast intro: rtranclp.rtrancl_into_rtrancl)
  with c3(4) show ?thesis by fastforce
qed

text \<open>
  (C30) How the daemon ends, over every interleaving of the main goroutine, the drain, the server, the
  workers and the signals: the exit code is that of one of the endings of \<open>run_daemon\<close>; code 0 means
  that every worker has returned, so no job is cut off, and that every connection is closed unless the deadline of the drain
  had passed; after the cancellation a worker claims at most one more job; and once a signal is taken, the process can end
  without any step of a worker.
\<close>

theorem exit_means_drained:
  assumes "(daemon_step names)\<^sup>*\<^sup>* started c"
  shows "(\<forall>n. sd_main c = Exited n \<longrightarrow> (\<exists>e. n = exit_code e)
      \<and> (n = 0 \<longrightarrow> (\<forall>p \<in> set names. sd_worker c p = Gone) \<and> (\<not> sd_expired c \<longrightarrow> sd_server_down c)))
    \<and> (\<forall>p. sd_late c p \<le> 1)
    \<and> (sd_main c = Draining \<longrightarrow>
         (\<exists>c' n. (daemon_step names)\<^sup>*\<^sup>* c c' \<and> sd_main c' = Exited n \<and> sd_worker c' = sd_worker c))"
proof -
  from assms have ok: "run_ok names c"
    by (induction rule: rtranclp_induct) (auto intro: run_ok_started run_ok_step)
  with draining_ends [OF ok] show ?thesis by (auto simp: run_ok_def)
qed

text \<open>
  A run in which the deadline passes while requests are still served and the process exits with code 0 all the same:
  \<open>srv.Shutdown\<close> gives up, its error is dropped, and \<open>shutdown\<close> finds the drain over before it looks at its
  context.
\<close>

lemma undrained_exit:
  "\<exists>c. (daemon_step [])\<^sup>*\<^sup>* started c \<and> sd_main c = Exited 0 \<and> \<not> sd_server_down c"
proof -
  let ?c1 = "started\<lparr>sd_signals := 1\<rparr>" let ?c2 = "?c1\<lparr>sd_main := Draining, sd_signals := 0\<rparr>"
  let ?c3 = "?c2\<lparr>sd_cancelled := True\<rparr>" let ?c4 = "?c3\<lparr>sd_expired := True\<rparr>"
  let ?c5 = "?c4\<lparr>sd_shut_returned := True\<rparr>" let ?c6 = "?c5\<lparr>sd_done := Some True\<rparr>"
  let ?c7 = "?c6\<lparr>sd_main := Exited (shutdownOnSignal (if True then Drained else DeadlineExceeded))\<rparr>"
  have "daemon_step [] started ?c1" using sig_arrives [of started "[]"] by (simp add: alive_def started_def)
  moreover have "daemon_step [] ?c1 ?c2" using main_signal [of ?c1 0 "[]"] by (simp add: started_def)
  moreover have "daemon_step [] ?c2 ?c3" by (rule cancel) (simp_all add: started_def)
  moreover have "daemon_step [] ?c3 ?c4" by (rule expire) simp
  moreover have "daemon_step [] ?c4 ?c5" by (rule server_given_up) simp_all
  moreover have "daemon_step [] ?c5 ?c6" by (rule drained) (simp_all add: started_def)
  moreover have "daemon_step [] ?c6 ?c7" by (rule main_done) simp_all
  ultimately have "(daemon_step [])\<^sup>*\<^sup>* started ?c7"
    by (meson converse_rtranclp_into_rtranclp rtranclp.rtrancl_refl)
  then show ?thesis by (intro exI [of _ ?c7]) (simp add: started_def shutdownOnSignal_def)
qed

text \<open>
  A run in which the worker of \<open>p\<close> looks at its context, the daemon is stopped, and the worker then
  claims a job all the same.
\<close>

lemma late_claim:
  "\<exists>c. (daemon_step [p])\<^sup>*\<^sup>* started c \<and> sd_late c p = 1 \<and> sd_worker c p = Working"
proof -
  let ?c1 = "started\<lparr>sd_worker := (sd_worker started)(p := Claiming)\<rparr>"
  let ?c2 = "?c1\<lparr>sd_signals := 1\<rparr>" let ?c3 = "?c2\<lparr>sd_main := Draining, sd_signals := 0\<rparr>"
  let ?c4 = "?c3\<lparr>sd_cancelled := True\<rparr>"
  let ?c5 = "?c4\<lparr>sd_worker := (sd_worker ?c4)(p := Working), sd_late := (sd_late ?c4)(p := sd_late ?c4 p + 1)\<rparr>"
  have a: "alive started" "alive ?c1" "alive ?c4" by (simp_all add: alive_def started_def)
  have "daemon_step [p] started ?c1" using a(1) check_go [of started p] by (intro worker) (simp_all add: started_def)
  moreover have "daemon_step [p] ?c1 ?c2" using sig_arrives [OF a(2), of "[p]"] by (simp add: started_def)
  moreover have "daemon_step [p] ?c2 ?c3" using main_signal [of ?c2 0 "[p]"] by (simp add: started_def)
  moreover have "daemon_step [p] ?c3 ?c4" by (rule cancel) (simp_all add: started_def)
  moreover have "daemon_step [p] ?c4 ?c5" using claim_job [of ?c4 p] by (intro worker a(3)) simp
  ultimately have "(daemon_step [p])\<^sup>*\<^sup>* started ?c5" by (meson converse_rtranclp_into_rtranclp rtranclp.rtrancl_refl)
  then show ?thesis by (intro exI [of _ ?c5]) (simp add: started_def)
qed

theorem exit_means_drained_witness:
  "\<exists>c. (daemon_step [''bar'']) \<^sup>*\<^sup>* started c \<and> sd_late c ''bar'' = 1 \<and> (\<forall>p. sd_late c p \<le> 1)"
proof -
  obtain c where c: "(daemon_step [''bar''])\<^sup>*\<^sup>* started c" "sd_late c ''bar'' = 1" using late_claim by blast
  from exit_means_drained [OF c(1)] c show ?thesis by blast
qed

end
