(* ===== verification/Progress.thy ===== *)
theory Progress
  imports Daemon
begin

text \<open>
  What a worker gets done: rounds of its loop, that they leave no pending job of its printer behind, and what the
  printer receives in them.
\<close>

section \<open>Rounds of a worker\<close>

text \<open>
  \<open>n\<close> rounds of the loop of \<open>runWorker\<close>, with the errors it logs: \<open>None\<close> when a round does not
  return.
\<close>

fun worker_rounds ::
  "nat \<Rightarrow> 's queue \<Rightarrow> 'w env \<Rightarrow> string \<Rightarrow> 's \<Rightarrow> 'w \<Rightarrow> (goerr option list \<times> 's \<times> 'w) option" where
  "worker_rounds 0 q env p s w = Some ([], s, w)"
| "worker_rounds (Suc n) q env p s w =
     (case ProcessNextForPrinter q env p s w of
        None \<Rightarrow> None
      | Some (r, s, w) \<Rightarrow> map_option (apfst (Cons r)) (worker_rounds n q env p s (env_sleep env pollInterval w)))"

text \<open>Until its context is cancelled, the worker does these rounds.\<close>

lemma runWorker_rounds:
  assumes "\<And>w. \<not> env_ctx_err env w" and "worker_rounds n q env p s w = Some (rs, s', w')"
  shows "runWorker q env p s w = runWorker q env p s' w'"
  using assms(2)
proof (induction n arbitrary: s w rs)
  case (Suc n)
  then obtain r s1 w1 rs' where "ProcessNextForPrinter q env p s w = Some (r, s1, w1)"
    "worker_rounds n q env p s1 (env_sleep env pollInterval w1) = Some (rs', s', w')"
    by (auto split: option.splits)
  with Suc.IH assms(1) show ?case by (subst runWorker.simps) simp
qed simp

text \<open>
  A worker among the others: between its rounds, other goroutines change the store, the API and the Web UI with
  submissions, the workers of other printers with their own jobs.  The result has the store before and after each
  round.
\<close>

datatype 's happening = Round | Meanwhile "'s \<Rightarrow> 's"

definition meanwhile :: "'s happening list \<Rightarrow> ('s \<Rightarrow> 's) list" where
  "meanwhile hs = concat (map (\<lambda>h. case h of Round \<Rightarrow> [] | Meanwhile f \<Rightarrow> [f]) hs)"

fun worker_life ::
  "'s happening list \<Rightarrow> 's queue \<Rightarrow> 'w env \<Rightarrow> string \<Rightarrow> 's \<Rightarrow> 'w \<Rightarrow> (('s \<times> 's) list \<times> 's \<times> 'w) option" where
  "worker_life [] q env p s w = Some ([], s, w)"
| "worker_life (Meanwhile f # hs) q env p s w = worker_life hs q env p (f s) w"
| "worker_life (Round # hs) q env p s w =
     (case ProcessNextForPrinter q env p s w of
        None \<Rightarrow> None
      | Some (r, s', w) \<Rightarrow> map_option (apfst (Cons (s, s'))) (worker_life hs q env p s' (env_sleep env pollInterval w)))"

text \<open>
  What a round may do to a store, and the bytes that go with it, where \<open>P j\<close> is what belongs to job \<open>j\<close> when it is done:
  nothing, or the pending job of the printer \<open>p\<close> with the lowest ID is claimed and is the only one to change.
\<close>

definition round_segment ::
  "('s \<Rightarrow> (string \<rightharpoonup> job)) \<Rightarrow> string \<Rightarrow> (job \<Rightarrow> 'o list \<Rightarrow> bool) \<Rightarrow> 's \<times> 's \<Rightarrow> 'o list \<Rightarrow> bool" where
  "round_segment jobs_of p P = (\<lambda>(a, b) x. b = a \<and> x = []
     \<or> (\<exists>j j'. jobs_of a (j_id j) = Some j \<and> j_state j = JobPending \<and> j_printer j = p
          \<and> (\<forall>k \<in> ran (jobs_of a). j_state k = JobPending \<and> j_printer k = p \<longrightarrow> j_id j \<le> j_id k)
          \<and> jobs_of b = (jobs_of a)(j_id j \<mapsto> j') \<and> same_request j j' \<and> j_state j' \<noteq> JobPending
          \<and> (j_state j' = JobDone \<longrightarrow> P j x)))"

section \<open>Nothing is left pending\<close>

definition waiting :: "string \<Rightarrow> (string \<rightharpoonup> job) \<Rightarrow> string set" where
  "waiting p jobs = {i. \<exists>j. jobs i = Some j \<and> claimable p j}"

text \<open>What became of a job: untouched, or its request done or failed.\<close>

definition finished :: "job \<Rightarrow> job \<Rightarrow> bool" where
  "finished j j' \<longleftrightarrow> same_request j j' \<and> j_state j' \<in> {JobDone, JobFailed} \<and> j_attempts j < j_attempts j'"

lemma finished_not_claimable: "finished j j' \<Longrightarrow> \<not> claimable p j'"
  by (auto simp: finished_def claimable_def)

definition answers_ok :: "(string \<Rightarrow> bool) \<Rightarrow> 'w env \<Rightarrow> bool" where
  "answers_ok ok env \<longleftrightarrow> (\<forall>j w e w'. callProcessor env j w = Some (Some e, w') \<longrightarrow> ok (error_text e))"

text \<open>
  What a processor does for job \<open>j\<close>: it only adds to what the printer received, an answer of nil adds what
  \<open>P\<close> says, and its errors can be stored.
\<close>

definition served ::
  "('w \<Rightarrow> 'o list) \<Rightarrow> ('o list \<Rightarrow> bool) \<Rightarrow> (string \<Rightarrow> bool) \<Rightarrow> 'w env \<Rightarrow> job \<Rightarrow> bool" where
  "served received P ok env j \<longleftrightarrow> (\<forall>k w r w'. same_request j k \<longrightarrow> callProcessor env k w = Some (r, w') \<longrightarrow>
     (\<exists>x. received w' = received w @ x \<and> (r = None \<longrightarrow> P x)) \<and> (\<forall>e. r = Some e \<longrightarrow> ok (error_text e)))"

lemma served_error:
  "served received P ok env j \<Longrightarrow> same_request j k \<Longrightarrow> callProcessor env k w = Some (Some e, w') \<Longrightarrow>
     ok (error_text e)"
  unfolding served_def by blast

lemma same_request_attempts: "same_request j k \<Longrightarrow> same_request j (count_attempt k)"
  by (simp add: same_request_def)

context job_store
begin

text \<open>Without a cancellation and without a store error, a claimed job ends done or failed.\<close>

lemma run_claimed_job_final:
  assumes "invar s" "content s (j_id j) = Some j" "j_state j = JobRunning"
    and "answers_ok text_ok env"
    and "\<And>w. \<not> env_ctx_err env w"
    and "run_claimed_job ops m env b j s w = Some (None, s', w')"
  shows "invar s' \<and> (\<exists>j'. content s' = (content s)(j_id j \<mapsto> j') \<and> finished j j')"
proof -
  have "invar s' \<and> (\<exists>j'. content s' = (content s)(j_id j \<mapsto> j') \<and> ((None :: goerr option) = None \<longrightarrow> finished j j'))"
  proof (rule run_claimed_job_rule [OF assms(1-3) _ _ _ assms(6),
        where I = "\<lambda>k w. same_request j k \<and> j_attempts j \<le> j_attempts k" and Q = "\<lambda>r k w. r = None \<longrightarrow> finished j k"])
    fix k w pr w1 d k1 b
    assume k: "same_request j k \<and> j_attempts j \<le> j_attempts k" "j_state k = JobRunning"
      and f: "finish_attempt m pr (env_now env w1) (count_attempt k) = (d, k1)"
    have "same_request j k1 \<and> j_attempts j < j_attempts k1 \<and> (d \<longrightarrow> j_state k1 \<in> {JobDone, JobFailed})"
      using finish_attempt_run_step [OF k(2) f] k(1) by (auto simp: run_step_def same_request_def)
    then show "(\<forall>e. Some e = None \<longrightarrow> finished j k) \<and> (if d then (None :: goerr option) = None \<longrightarrow> finished j k1
       else if env_ctx_err env (env_sleep env b w1) then (None :: goerr option) = None \<longrightarrow> finished j k1
       else same_request j k1 \<and> j_attempts j \<le> j_attempts k1)"
      using assms(5) by (auto simp: finished_def)
  qed (use assms(4) in \<open>auto simp: answers_ok_def same_request_def\<close>)
  then show ?thesis by simp
qed

lemma round_final:
  assumes "invar s" and "q_ops q = ops"
    and "answers_ok text_ok env"
    and "\<And>w. \<not> env_ctx_err env w"
    and "ProcessNextForPrinter q env p s w = Some (None, s', w')"
  shows "invar s' \<and> (content s' = content s \<and> waiting p (content s) = {}
    \<or> (\<exists>i j j'. content s i = Some j \<and> claimable p j \<and> finished j j' \<and> content s' = (content s)(i \<mapsto> j')))"
  using assms(1,2,5)
proof (cases rule: process_next_cases)
  case idle
  with assms(1) show ?thesis by (auto simp: waiting_def ran_def)
next
  case (claimed j s1)
  let ?j = "running (env_now env w) j"
  have "content s1 (j_id ?j) = Some ?j" "j_state ?j = JobRunning" using claimed(5) by simp_all
  from run_claimed_job_final [OF claimed(1) this assms(3,4) claimed(6)] obtain j' where
    "invar s'" "content s' = (content s1)(j_id ?j \<mapsto> j')" "finished ?j j'" by blast
  with claimed(2,3,5) show ?thesis by (auto simp: finished_def same_request_def)
qed

lemma rounds_final:
  assumes "invar s" and "q_ops q = ops"
    and "answers_ok text_ok env"
    and "\<And>w. \<not> env_ctx_err env w"
    and "worker_rounds n q env p s w = Some (rs, s', w')" and "set rs \<subseteq> {None}"
    and "card (waiting p (content s)) \<le> n"
  shows "invar s' \<and> (\<forall>i. case content s i of None \<Rightarrow> content s' i = None
      | Some j \<Rightarrow> (\<exists>j'. content s' i = Some j' \<and> (if claimable p j then finished j j' else j' = j)))"
  using assms(1,5-7)
proof (induction n arbitrary: s w rs)
  case 0
  have "finite (waiting p (content s))"
    using content_finite [OF 0(1)] by (rule finite_subset [rotated]) (auto simp: waiting_def)
  with 0 show ?case by (auto simp: waiting_def split: option.split)
next
  case (Suc n)
  from Suc.prems obtain w1 s1 rs' where r: "ProcessNextForPrinter q env p s w = Some (None, s1, w1)"
    "worker_rounds n q env p s1 (env_sleep env pollInterval w1) = Some (rs', s', w')" "set rs' \<subseteq> {None}"
    by (auto split: option.splits)
  note f = round_final [OF Suc.prems(1) assms(2-4) r(1)]
  then have i1: "invar s1" by blast
  from f consider (idle) "content s1 = content s" "waiting p (content s) = {}"
    | (one) i j j' where "content s i = Some j" "claimable p j" "finished j j'" "content s1 = (content s)(i \<mapsto> j')" by blast
  then show ?case
  proof cases
    case idle
    then show ?thesis using Suc.IH [OF i1 r(2,3)] by simp
  next
    case one
    have w: "waiting p (content s1) = waiting p (content s) - {i}"
      using one finished_not_claimable [OF one(3), of p] by (auto simp: waiting_def)
    have fin: "finite (waiting p (content s))"
      using content_finite [OF Suc.prems(1)] by (rule finite_subset [rotated]) (auto simp: waiting_def)
    have "i \<in> waiting p (content s)" using one by (auto simp: waiting_def)
    with w fin Suc.prems(4) have "card (waiting p (content s1)) \<le> n" by (simp add: card_Diff_singleton)
    from Suc.IH [OF i1 r(2,3) this] have ih: "invar s'"
      "case content s1 k of None \<Rightarrow> content s' k = None
       | Some j \<Rightarrow> (\<exists>j'. content s' k = Some j' \<and> (if claimable p j then finished j j' else j' = j))" for k by blast+
    show ?thesis
    proof (intro conjI allI ih(1))
      fix k
      show "case content s k of None \<Rightarrow> content s' k = None
       | Some j \<Rightarrow> (\<exists>j'. content s' k = Some j' \<and> (if claimable p j then finished j j' else j' = j))"
        using ih(2) [of k] one finished_not_claimable [OF one(3), of p] by (cases "k = i") auto
    qed
  qed
qed

text \<open>What the attempts of a claimed job add to the bytes received.\<close>

lemma run_claimed_job_log:
  assumes "invar s" "content s (j_id j) = Some j" "j_state j = JobRunning"
    and "served received P text_ok env j"
    and "\<forall>d w. received (env_sleep env d w) = received w" and "\<forall>x y. P x \<longrightarrow> P (y @ x)"
    and "run_claimed_job ops m env b j s w = Some (r, s', w')"
  shows "invar s' \<and> (\<exists>j'. content s' = (content s)(j_id j \<mapsto> j') \<and> same_request j j' \<and> j_state j' \<noteq> JobPending
    \<and> (\<exists>x. received w' = received w @ x \<and> (j_state j' = JobDone \<longrightarrow> P x)))"
proof (rule run_claimed_job_rule [OF assms(1-3) _ _ _ assms(7),
      where I = "\<lambda>k v. same_request j k \<and> (\<exists>x. received v = received w @ x)"])
  fix k v pr v1 d k1 b
  assume k: "same_request j k \<and> (\<exists>x. received v = received w @ x)" "j_state k = JobRunning"
    and c: "callProcessor env (count_attempt k) v = Some (pr, v1)"
    and f: "finish_attempt m pr (env_now env v1) (count_attempt k) = (d, k1)"
  have "same_request j (count_attempt k)" using k(1) by (simp add: same_request_def)
  with assms(4) c obtain y where y: "received v1 = received v @ y" "pr = None \<longrightarrow> P y"
    unfolding served_def by blast
  from k(1) obtain z where "received v = received w @ z" by blast
  with y(1) have "received v1 = received w @ (z @ y)" by simp
  moreover have "pr = None \<longrightarrow> P (z @ y)" using y(2) by (simp add: assms(6) [rule_format, of y z])
  ultimately obtain x where x: "received v1 = received w @ x" "pr = None \<longrightarrow> P x" by (rule that)
  note s = finish_attempt_run_step [OF k(2) f]
  have r: "same_request j k1" "j_state k1 \<noteq> JobPending" using s [THEN conjunct1] k(1) by (auto simp: run_step_def same_request_def)
  have "d \<longrightarrow> j_state k1 = (if pr = None then JobDone else JobFailed)" using s by blast
  moreover have "j_state k1 = JobRunning" if "\<not> d" using s k(2) that by simp
  ultimately have q: "j_state k1 = JobDone \<longrightarrow> P x"
    using x(2) by (cases d; cases pr) simp_all
  have "\<exists>x. received v1 = received w @ x \<and> (j_state k = JobDone \<longrightarrow> P x)" using x(1) k(2) by simp
  moreover have "\<exists>x. received v1 = received w @ x \<and> (j_state k1 = JobDone \<longrightarrow> P x)"
    by (rule exI [of _ x]) (simp add: x(1) q)
  moreover have "j_state k \<noteq> JobPending" "same_request j k" using k by simp_all
  ultimately show "(\<forall>e. same_request j k \<and> j_state k \<noteq> JobPending
        \<and> (\<exists>x. received v1 = received w @ x \<and> (j_state k = JobDone \<longrightarrow> P x)))
    \<and> (if d then same_request j k1 \<and> j_state k1 \<noteq> JobPending
          \<and> (\<exists>x. received v1 = received w @ x \<and> (j_state k1 = JobDone \<longrightarrow> P x))
       else if env_ctx_err env (env_sleep env b v1) then same_request j k1 \<and> j_state k1 \<noteq> JobPending
          \<and> (\<exists>x. received (env_sleep env b v1) = received w @ x \<and> (j_state k1 = JobDone \<longrightarrow> P x))
       else same_request j k1 \<and> (\<exists>x. received (env_sleep env b v1) = received w @ x))"
    using r x(1) by (simp add: assms(5))
next
  fix k v e v'
  assume "same_request j k \<and> (\<exists>x. received v = received w @ x)"
    and "callProcessor env (count_attempt k) v = Some (Some e, v')"
  then show "text_ok (error_text e)"
    using served_error [OF assms(4) same_request_attempts] by blast
qed (simp add: same_request_def)

text \<open>
  One round and the bytes it adds: nothing is claimed, or the pending job with the lowest ID is, and a job that ends
  done has its output at the end of what was added.
\<close>

lemma round_log:
  assumes "invar s" and "q_ops q = ops"
    and "\<forall>i j. content s i = Some j \<longrightarrow> claimable p j \<longrightarrow> served received (P j) text_ok env j"
    and sleep: "\<forall>d w. received (env_sleep env d w) = received w" and more: "\<forall>j x y. P j x \<longrightarrow> P j (y @ x)"
    and "ProcessNextForPrinter q env p s w = Some (r, s', w')"
  shows "invar s' \<and> (\<exists>x. received w' = received w @ x \<and> round_segment content p P (s, s') x)"
  using assms(1,2,6)
proof (cases rule: process_next_cases)
  case idle
  with assms(1) show ?thesis by (auto simp: round_segment_def)
next
  case (claimed j s0)
  let ?j = "running (env_now env w) j"
  have "content s0 (j_id ?j) = Some ?j" "j_state ?j = JobRunning" using claimed(5) by simp_all
  moreover have "served received (P j) text_ok env ?j"
    using assms(3) claimed(2,3) by (simp add: served_def same_request_def)
  ultimately obtain j' x where f: "invar s'" "content s' = (content s0)(j_id ?j \<mapsto> j')" "same_request ?j j'"
      "j_state j' \<noteq> JobPending" "received w' = received w @ x" "j_state j' = JobDone \<longrightarrow> P j x"
    using run_claimed_job_log [OF claimed(1) _ _ _ sleep spec [OF more] claimed(6)] by blast
  have "content s' = (content s)(j_id j \<mapsto> j')" "same_request j j'"
    using f(2,3) claimed(5) by (simp_all add: same_request_def)
  then have "round_segment content p P (s, s') x"
    using f claimed(2-4) unfolding round_segment_def claimable_def by (simp only: prod.case) blast
  with f show ?thesis by blast
qed

text \<open>What a submission does to the store keeps its invariant.\<close>

lemma submission_keeps:
  assumes "invar s" and "q_ops q = ops" and "\<forall>i. idr = Inr i \<longrightarrow> storable (fresh_job i now (j\<lparr>j_key := key\<rparr>))"
  shows "invar (snd (queue_EnqueueIdempotent q idr now j key s))"
proof -
  obtain r s' where e: "queue_EnqueueIdempotent q idr now j key s = (r, s')" by fastforce
  show ?thesis
  proof (cases r)
    case (Inl err)
    with e have "st_enqueue_idem ops (j\<lparr>j_key := key\<rparr>) now idr s = (Inl err, s')"
      by (auto simp: queue_EnqueueIdempotent_def assms(2) split: prod.splits sum.splits)
    with idem_err [OF assms(1)] e assms(1) show ?thesis by (metis snd_conv)
  next
    case (Inr i)
    with enqueue_idempotent_spec [OF assms] e show ?thesis by simp
  qed
qed

lemma life_log:
  assumes "invar s" and "q_ops q = ops" and "\<forall>f \<in> set (meanwhile hs). \<forall>s. invar s \<longrightarrow> invar (f s)"
    and sleep: "\<forall>d w. received (env_sleep env d w) = received w" and more: "\<forall>j x y. P j x \<longrightarrow> P j (y @ x)"
    and "worker_life hs q env p s w = Some (rounds, s', w')"
    and "\<forall>(a, b) \<in> set rounds. \<forall>i j. content a i = Some j \<longrightarrow> claimable p j \<longrightarrow> served received (P j) text_ok env j"
  shows "invar s' \<and> (\<exists>segs. received w' = received w @ concat segs
    \<and> list_all2 (round_segment content p P) rounds segs)"
  using assms(1,3,6,7)
proof (induction hs arbitrary: s w rounds)
  case Nil
  then show ?case by (intro conjI exI [of _ "[]"]) auto
next
  case (Cons h hs)
  show ?case
  proof (cases h)
    case (Meanwhile f)
    with Cons.prems have "worker_life hs q env p (f s) w = Some (rounds, s', w')" "invar (f s)"
      "\<forall>f \<in> set (meanwhile hs). \<forall>s. invar s \<longrightarrow> invar (f s)" by (auto simp: meanwhile_def)
    from Cons.IH [OF this(2,3,1) Cons.prems(4)] show ?thesis .
  next
    case Round
    with Cons.prems(3) obtain r s1 w1 rs where r: "ProcessNextForPrinter q env p s w = Some (r, s1, w1)"
      "worker_life hs q env p s1 (env_sleep env pollInterval w1) = Some (rs, s', w')" "rounds = (s, s1) # rs"
      by (auto split: option.splits)
    have m: "\<forall>f \<in> set (meanwhile hs). \<forall>s. invar s \<longrightarrow> invar (f s)" using Cons.prems(2) by (auto simp: meanwhile_def)
    have srv: "\<forall>i j. content s i = Some j \<longrightarrow> claimable p j \<longrightarrow> served received (P j) text_ok env j"
      "\<forall>(a, b) \<in> set rs. \<forall>i j. content a i = Some j \<longrightarrow> claimable p j \<longrightarrow> served received (P j) text_ok env j"
      using Cons.prems(4) r(3) by auto
    from round_log [OF Cons.prems(1) assms(2) srv(1) sleep more r(1)] obtain x where
      x: "invar s1" "received w1 = received w @ x" "round_segment content p P (s, s1) x" by blast
    from Cons.IH [OF x(1) m r(2) srv(2)] obtain segs where ih: "invar s'" "received w' = received w1 @ concat segs"
      "list_all2 (round_segment content p P) rs segs" using sleep by auto
    then show ?thesis using x unfolding r(3) by (intro conjI exI [of _ "x # segs"]) simp_all
  qed
qed

lemma rounds_return:
  assumes "\<And>j w. callProcessor env j w \<noteq> None" and "q_ops q = ops"
  shows "\<exists>rs s' w'. worker_rounds n q env p s w = Some (rs, s', w')"
proof (induction n arbitrary: s w)
  case (Suc n)
  have "ProcessNextForPrinter q env p s w \<noteq> None"
    using run_claimed_job_terminates [OF assms(1)]
    by (simp add: ProcessNextForPrinter_def assms(2) split: prod.split sum.split option.split)
  then obtain r s1 w1 where "ProcessNextForPrinter q env p s w = Some (r, s1, w1)" by auto
  moreover obtain rs s' w' where "worker_rounds n q env p s1 (env_sleep env pollInterval w1) = Some (rs, s', w')"
    using Suc.IH by blast
  ultimately show ?case by simp
qed simp

end

section \<open>Properties\<close>

text \<open>
  (C18) Pending jobs do not wait for ever: with a processor that returns and no shutdown, as many rounds
  of a printer's worker as the persistent store has pending jobs for it always return, and if the store reported no
  error in them, every one of these jobs is done or failed, with the request it was submitted with and at
  least one attempt made, and every other job is as it was.
\<close>

theorem pending_jobs_finish:
  assumes "bolt_invar db c b" and "q_ops q = bolt_ops db c"
    and "\<And>j w. callProcessor env j w \<noteq> None"
    and "\<And>j w e w'. callProcessor env j w = Some (Some e, w') \<Longrightarrow> valid_string (error_text e)"
    and "\<And>w. \<not> env_ctx_err env w"
    and "card {i. \<exists>j. bolt_content db c b i = Some j \<and> j_state j = JobPending \<and> j_printer j = p} \<le> n"
  shows "\<exists>rs b' w'. worker_rounds n q env p b w = Some (rs, b', w')
    \<and> (set rs \<subseteq> {None} \<longrightarrow> (\<forall>i. case bolt_content db c b i of None \<Rightarrow> bolt_content db c b' i = None
         | Some j \<Rightarrow> (\<exists>j'. bolt_content db c b' i = Some j'
             \<and> (if j_state j = JobPending \<and> j_printer j = p
                then same_request j j' \<and> j_state j' \<in> {JobDone, JobFailed} \<and> j_attempts j < j_attempts j'
                else j' = j))))"
proof -
  from bolt.rounds_return [OF assms(3,2)] obtain rs b' w' where r: "worker_rounds n q env p b w = Some (rs, b', w')" by blast
  have "card (waiting p (bolt_content db c b)) \<le> n" using assms(6) by (simp add: waiting_def claimable_def)
  moreover have "answers_ok valid_string env" using assms(4) by (simp add: answers_ok_def)
  ultimately have "set rs \<subseteq> {None} \<Longrightarrow> (\<forall>i. case bolt_content db c b i of None \<Rightarrow> bolt_content db c b' i = None
      | Some j \<Rightarrow> (\<exists>j'. bolt_content db c b' i = Some j' \<and> (if claimable p j then finished j j' else j' = j)))"
    using bolt.rounds_final [OF assms(1,2) _ assms(5) r] by blast
  with r show ?thesis unfolding finished_def claimable_def by blast
qed

theorem pending_jobs_finish_witness:
  "\<exists>rs b' w'. worker_rounds 1 sample_queue willing_env ''bar'' [(''7f'', sample_job)] () = Some (rs, b', w')"
proof -
  have inv: "bolt_invar list_bbolt plain_codec [(''7f'', sample_job)]" by (rule sample_bucket [OF sample_storable sample_ids(1)])
  have c: "card {i. \<exists>j. bolt_content list_bbolt plain_codec [(''7f'', sample_job)] i = Some j
      \<and> j_state j = JobPending \<and> j_printer j = ''bar''} \<le> 1"
    by (rule order_trans [OF card_mono [of "{''7f''}"]]) (auto simp: bolt_content_def list_bbolt_def list_bucket_def split: if_splits)
  from pending_jobs_finish [OF inv queue_parts(1) _ _ _ c, of willing_env "()"] show ?thesis
    by (auto simp: willing_env_def callProcessor_def)
qed










end
