(* ===== verification/Timing.thy ===== *)
theory Timing
  imports Daemon
begin

text \<open>
  The waits of a worker on a clock: \<open>sleepCtx\<close> (\<open>internal/queue/process.go\<close>) and \<open>sleepUnlessDone\<close>
  (\<open>cmd/receiptd/daemon.go\<close>) with the cancellation of the context at a given time, and how soon a worker stops
  after it.  Time passes in the waits and in the processor; a store operation takes none.
\<close>

section \<open>A clock and a context\<close>

text \<open>The time, when the context is cancelled (if it ever is), and the rest of the world.\<close>

record 'w timed =
  tw_now :: time
  tw_cancel :: "time option"
  tw_rest :: 'w

definition ctx_done :: "'w timed \<Rightarrow> bool" where
  "ctx_done w \<longleftrightarrow> (case tw_cancel w of None \<Rightarrow> False | Some c \<Rightarrow> c \<le> tw_now w)"

text \<open>
  A timer of a negative duration fires at once.  The wait ends with the timer or with the context, whichever comes
  first; in a done context it does not wait.
\<close>

definition sleepCtx :: "duration \<Rightarrow> 'w timed \<Rightarrow> 'w timed" where
  "sleepCtx d w =
     (let fires = tw_now w + max 0 (sint d)
      in w\<lparr>tw_now := (case tw_cancel w of None \<Rightarrow> fires | Some c \<Rightarrow> min fires (max (tw_now w) c))\<rparr>)"

definition sleepUnlessDone :: "duration \<Rightarrow> 'w timed \<Rightarrow> 'w timed" where
  "sleepUnlessDone d w =
     (let fires = tw_now w + max 0 (sint d)
      in w\<lparr>tw_now := (case tw_cancel w of None \<Rightarrow> fires | Some c \<Rightarrow> min fires (max (tw_now w) c))\<rparr>)"

text \<open>The environment of a worker: the queue sleeps with \<open>sleepCtx\<close> and reads the clock.\<close>

definition timed_env :: "(job \<Rightarrow> 'w timed \<Rightarrow> unit res \<times> 'w timed) \<Rightarrow> 'w timed env" where
  "timed_env process = \<lparr>env_process = process, env_sleep = sleepCtx, env_now = tw_now, env_ctx_err = ctx_done\<rparr>"

lemma timed_env_simps [simp]:
  "env_process (timed_env process) = process" "env_sleep (timed_env process) = sleepCtx"
  "env_now (timed_env process) = tw_now" "env_ctx_err (timed_env process) = ctx_done"
  by (simp_all add: timed_env_def)

lemma sleeps_agree: "sleepUnlessDone = sleepCtx"
  by (simp add: sleepUnlessDone_def sleepCtx_def fun_eq_iff)

lemma sleepCtx_cancel:
  assumes "tw_cancel w = Some c"
  shows "tw_cancel (sleepCtx d w) = Some c" "tw_now w \<le> tw_now (sleepCtx d w)"
    "tw_now (sleepCtx d w) \<le> max (tw_now w) c" "c \<le> tw_now w \<Longrightarrow> sleepCtx d w = w"
    "tw_now (sleepCtx d w) < c \<Longrightarrow> tw_now (sleepCtx d w) = tw_now w + max 0 (sint d)"
  using assms by (auto simp: sleepCtx_def Let_def)

lemma sint_pollInterval: "sint pollInterval = 1000000000"
  by (simp add: pollInterval_def)

section \<open>How long a worker goes on\<close>

text \<open>A processor that returns within \<open>T\<close> and does not touch the clock's future.\<close>

definition prompt :: "int \<Rightarrow> (job \<Rightarrow> 'w timed \<Rightarrow> unit res \<times> 'w timed) \<Rightarrow> bool" where
  "prompt T process \<longleftrightarrow> (\<forall>j w. case process j w of (r, w') \<Rightarrow>
     r \<noteq> Diverge \<and> tw_cancel w' = tw_cancel w \<and> tw_now w \<le> tw_now w' \<and> tw_now w' \<le> tw_now w + T)"

lemma prompt_call:
  assumes "prompt T process"
  shows "callProcessor (timed_env process) j w \<noteq> None"
    and "callProcessor (timed_env process) j w = Some (r, w') \<Longrightarrow>
      tw_cancel w' = tw_cancel w \<and> tw_now w \<le> tw_now w' \<and> tw_now w' \<le> tw_now w + T"
proof -
  have "case process j w of (r, w') \<Rightarrow> r \<noteq> Diverge \<and> tw_cancel w' = tw_cancel w \<and> tw_now w \<le> tw_now w' \<and> tw_now w' \<le> tw_now w + T"
    using assms by (simp add: prompt_def)
  then show "callProcessor (timed_env process) j w \<noteq> None"
    "callProcessor (timed_env process) j w = Some (r, w') \<Longrightarrow>
      tw_cancel w' = tw_cancel w \<and> tw_now w \<le> tw_now w' \<and> tw_now w' \<le> tw_now w + T"
    by (auto simp: callProcessor_def split: prod.splits go.splits)
qed

lemma run_claimed_job_time:
  assumes "prompt T process" and "0 \<le> T" and "tw_cancel w = Some c"
    and "run_claimed_job ops m (timed_env process) b j s w = Some (r, s', w')"
  shows "tw_cancel w' = Some c \<and> tw_now w \<le> tw_now w' \<and> tw_now w' \<le> max (tw_now w) c + T"
proof (rule run_claimed_job_world [where I = "\<lambda>v. tw_cancel v = Some c \<and> tw_now w \<le> tw_now v \<and> tw_now v \<le> max (tw_now w) c",
      OF _ _ assms(4)])
  fix j v r v' b
  assume v: "tw_cancel v = Some c \<and> tw_now w \<le> tw_now v \<and> tw_now v \<le> max (tw_now w) c"
    and p: "callProcessor (timed_env process) j v = Some (r, v')"
  from prompt_call(2) [OF assms(1) p] v have v': "tw_cancel v' = Some c" "tw_now w \<le> tw_now v'" "tw_now v' \<le> max (tw_now w) c + T"
    by auto
  note z = sleepCtx_cancel [OF v'(1), of b]
  show "(tw_cancel v' = Some c \<and> tw_now w \<le> tw_now v' \<and> tw_now v' \<le> max (tw_now w) c + T)
    \<and> (if env_ctx_err (timed_env process) (env_sleep (timed_env process) b v')
       then tw_cancel (env_sleep (timed_env process) b v') = Some c \<and> tw_now w \<le> tw_now (env_sleep (timed_env process) b v')
         \<and> tw_now (env_sleep (timed_env process) b v') \<le> max (tw_now w) c + T
       else tw_cancel (env_sleep (timed_env process) b v') = Some c \<and> tw_now w \<le> tw_now (env_sleep (timed_env process) b v')
         \<and> tw_now (env_sleep (timed_env process) b v') \<le> max (tw_now w) c)"
    using v' z assms(2) by (auto simp: ctx_done_def split: if_splits)
qed (use assms(3) in simp)

lemma round_time:
  assumes "prompt T process" and "0 \<le> T" and "tw_cancel w = Some c"
    and "ProcessNextForPrinter q (timed_env process) p s w = Some (r, s', w')"
  shows "tw_cancel w' = Some c \<and> tw_now w \<le> tw_now w' \<and> tw_now w' \<le> max (tw_now w) c + T"
  using assms(2-4)
  by (auto simp: ProcessNextForPrinter_def split: prod.splits sum.splits option.splits dest!: run_claimed_job_time [OF assms(1-3)])

section \<open>Properties\<close>

text \<open>
  (C29) Shutting down is not held up by waiting: a worker whose context is cancelled at time \<open>c\<close> returns,
  and no later than one call of the processor after \<open>c\<close>, whatever jobs, retries, backoffs and polls it is in; a
  worker started after \<open>c\<close> returns at once.
\<close>

theorem worker_stops_in_time:
  assumes "prompt T process" and "0 \<le> T" and "tw_cancel w = Some c" and "q_ops q = bolt_ops db cd"
  shows "\<exists>s' w'. runWorker q (timed_env process) p s w = Some (s', w') \<and> ctx_done w'
    \<and> tw_now w' \<le> (if c \<le> tw_now w then tw_now w else c + T)"
  using assms(3)
proof (induction "nat (c - tw_now w)" arbitrary: s w rule: less_induct)
  case less
  show ?case
  proof (cases "c \<le> tw_now w")
    case True
    with less.prems show ?thesis by (subst runWorker.simps) (simp add: ctx_done_def)
  next
    case False
    with less.prems have go: "\<not> ctx_done w" by (simp add: ctx_done_def)
    have "\<exists>res. ProcessNextForPrinter q (timed_env process) p s w = Some res"
      using bolt.run_claimed_job_terminates [OF prompt_call(1) [OF assms(1)]]
      by (auto simp: ProcessNextForPrinter_def assms(4) split: prod.split sum.split option.split)
    then obtain r s1 w1 where r: "ProcessNextForPrinter q (timed_env process) p s w = Some (r, s1, w1)" by (metis prod_cases3)
    from round_time [OF assms(1,2) less.prems r] False have
      w1: "tw_cancel w1 = Some c" "tw_now w \<le> tw_now w1" "tw_now w1 \<le> c + T" by auto
    let ?w = "sleepCtx pollInterval w1"
    note z = sleepCtx_cancel [OF w1(1), of pollInterval]
    have unf: "runWorker q (timed_env process) p s w = runWorker q (timed_env process) p s1 ?w"
      by (subst runWorker.simps) (simp add: go r)
    show ?thesis
    proof (cases "c \<le> tw_now ?w")
      case True
      then have "ctx_done ?w" using z(1) by (simp add: ctx_done_def)
      then have "runWorker q (timed_env process) p s1 ?w = Some (s1, ?w)" by (subst runWorker.simps) simp
      moreover have "tw_now ?w \<le> c + T" using z(3) w1(3) assms(2) by linarith
      ultimately show ?thesis using unf \<open>ctx_done ?w\<close> False by simp
    next
      case early: False
      then have "tw_now ?w = tw_now w1 + 1000000000" using z(5) by (simp add: sint_pollInterval)
      then have "nat (c - tw_now ?w) < nat (c - tw_now w)" using w1(2) False by simp
      from less.hyps [OF this z(1), of s1] early False unf show ?thesis by simp
    qed
  qed
qed

text \<open>A worker with a job that takes two seconds, cancelled after five.\<close>

theorem worker_stops_in_time_witness:
  "\<exists>s' w'. runWorker sample_queue (timed_env (\<lambda>j w. (Val (), w\<lparr>tw_now := tw_now w + 2000000000\<rparr>))) ''bar'' [(''7f'', sample_job)]
      \<lparr>tw_now = 0, tw_cancel = Some 5000000000, tw_rest = ()\<rparr> = Some (s', w') \<and> ctx_done w' \<and> tw_now w' \<le> 7000000000"
proof -
  let ?p = "\<lambda>j (w :: unit timed). (Val () :: unit res, w\<lparr>tw_now := tw_now w + 2000000000\<rparr>)"
  have "prompt 2000000000 ?p" by (simp add: prompt_def)
  from worker_stops_in_time [OF this _ _ queue_parts(1), of "\<lparr>tw_now = 0, tw_cancel = Some 5000000000, tw_rest = ()\<rparr>" 5000000000 list_bbolt plain_codec "''bar''" "[(''7f'', sample_job)]"]
  show ?thesis by simp
qed

end
