(* ===== verification/Spec2Isabelle.thy ===== *)
theory Spec2Isabelle
  imports Spool Stores Commands Shutdown Progress Timing
begin

text \<open>
  A model of receiptd: a daemon that accepts receipts over a REST API and a Web UI, keeps them as jobs
  in a persistent queue, renders each to a bitmap and prints it on an ESC/POS printer over TCP, and its
  command line client.

  \<^bold>\<open>The program and the theories.\<close>  The theories follow the packages (paths under \<open>src/\<close>):

  \<^item> \<open>Prelude\<close>: outcomes of a Go call (\<open>Val\<close>, \<open>Fail\<close> with an error, \<open>Panic\<close>, \<open>Diverge\<close>), loops over
    them, decimal printing.  \<open>Apperr\<close> (\<open>internal/apperr\<close>): errors as trees, \<open>error_text\<close>,
    \<open>errors_as\<close>, \<open>is_kind\<close> for \<open>Is\<close>.  \<open>Text\<close>: UTF-8 runes and \<open>fmt.Errorf\<close>.
  \<^item> \<open>Receipt\<close>, \<open>Json\<close>, \<open>ReceiptJson\<close> (\<open>internal/receipt\<close>): the elements with \<open>Validate\<close>, encoding and the
    discriminated-union decoder \<open>decodeElement\<close>.
  \<^item> \<open>Job\<close>, \<open>StoreMemory\<close>, \<open>StoreBolt\<close>, \<open>Queue\<close>, \<open>QueueSystem\<close> (\<open>internal/queue\<close>): the job record, the
    \<open>Store\<close> interface as the locale \<open>job_store\<close>, its two providers (each operation is one critical section or
    transaction), \<open>Enqueue\<close>, \<open>EnqueueIdempotent\<close>, \<open>Cancel\<close>, \<open>runClaimedJob\<close>, \<open>Reconcile\<close>, and the step
    relation of workers, handlers, crashes and restarts over one store.  Its steps are single calls of the store or of the
    processor, also in the recovery (\<open>Reconcile\<close> saves one job at a time, and a crash or a store error may come between two
    saves); the lemmas \<open>process_next_is_run\<close>, \<open>enqueue_is_run\<close> and \<open>reconcile_is_run\<close> show that the functions translated in
    \<open>Queue\<close> are runs of these steps.  \<open>Spool\<close> states what the queue promises as
    an abstract machine and shows that this relation implements it; \<open>Stores\<close> compares the two providers call by call.
  \<^item> \<open>Bitmap\<close>, \<open>Layout\<close>, \<open>Document\<close>, \<open>Canvas\<close>, \<open>Render\<close> (\<open>internal/render/layout\<close>, \<open>internal/render/canvas\<close>,
    \<open>internal/printer/profile.go\<close>): packed bitmaps, wrapping, tables, columns, lists, pictures, \<open>Build\<close> (receipt
    to document) and \<open>Paint\<close> (document to canvas).  \<open>Escpos\<close> (\<open>internal/render/escpos\<close>): \<open>Encode\<close>, and the printer's
    reading of the stream as a reference.
  \<^item> \<open>Assets\<close> (\<open>internal/assets\<close>): the asset store interface as the locale \<open>asset_store\<close>, the memory and the
    filesystem store, \<open>path.Clean\<close> and \<open>path.Join\<close>.  \<open>Printer\<close> (\<open>internal/printer\<close>): the TCP printer.
  \<^item> \<open>App\<close> (\<open>internal/app\<close>): the service that the API, the Web UI and the workers share: \<open>Print\<close>, \<open>Process\<close>,
    \<open>Preview\<close>, the printer list, the assets, the queue summary.
  \<^item> \<open>Config\<close>, \<open>Auth\<close> (\<open>internal/config\<close>, \<open>internal/auth\<close>): defaults, validation, token and gates.  \<open>Http\<close>: what
    is used of \<open>net/http\<close> and \<open>net/url\<close>: requests, responses, path cleaning, form values, escapes.
  \<^item> \<open>Api\<close> (\<open>internal/api\<close>): the REST handlers and statuses.  \<open>WebPages\<close>, \<open>Webui\<close> (\<open>internal/webui\<close>): the pages and
    their handlers, the CSRF token, the route table behind the security headers.
  \<^item> \<open>Daemon\<close>, \<open>Progress\<close>, \<open>Shutdown\<close> (\<open>cmd/receiptd\<close>): \<open>build\<close> composes everything above from a configuration, \<open>runWorker\<close>
    polls the queue, \<open>Progress\<close> counts its rounds, \<open>Shutdown\<close> interleaves the goroutines of \<open>run\<close> and the drain,
    \<open>Timing\<close> puts the waits of a worker on a clock.
  \<^item> \<open>Client\<close>, \<open>Commands\<close> (\<open>cmd/receipt\<close>): the API client with what each subcommand does, and the command tree up to
    \<open>main\<close> and the exit code.

  A definition has the name of the function it translates where that is free; methods of several types are told apart by a
  prefix (\<open>bolt_claim\<close>, \<open>mem_claim\<close>, \<open>queue_Cancel\<close>, \<open>service_Print\<close>, \<open>Assets_Upload\<close>).  State is passed
  explicitly: \<open>'s\<close> is the queue's store, \<open>'w\<close> everything outside (files, the network).  The
  clock, random IDs and the like are arguments of the call that draws them.

  \<^bold>\<open>What is shown.\<close>  The properties are numbered C1 to C40 in the text before each.  From the end to the start of a job's
  life: what \<open>Process\<close> sends is, once per copy, a stream the printer reads as the painted canvas (C1); the bytes a printer
  receives from its worker are one segment per round, each for the pending job with the lowest ID at that time, whatever is
  submitted between the rounds, and a done job's ends with that stream (C3); the canvas is
  the ink of the receipt's blocks (\<open>Render\<close>), \<open>Encode\<close> is read back exactly where the dimensions of a band fit their 16 bits
  (C6, and C39 where they do not), \<open>Build\<close> and \<open>Paint\<close> never crash
  on a valid receipt without a scaled asset of zero width (C21, and C40 for exactly when \<open>Build\<close> panics).  In any
  interleaving with crashes, also in the middle of a recovery, no two workers have the same job, and the processor is called
  for an accepted job at most as often as the attempt budget allows (\<open>QueueSystem\<close>).  The queue keeps one live job per idempotency key and leaves no
  job pending (\<open>Progress\<close>).  No run, with crashes and restarts, loses a stored job or changes its request (C4), since every
  run of the queue over either store is one of the spool (C5).  The two stores give the same answers
  to the same calls.  The retry loop, the worker and the shutdown end; a worker returns at most one
  call of the processor after its cancellation (\<open>Timing\<close>); the exit code 0 tells that the workers have ended, and that
  the server has unless the deadline had passed (C30, \<open>undrained_exit\<close>).  A receipt in UTF-8 survives its own JSON encoding; every
  decoded one is bounded.  A command line \<open>print\<close> that reports an ID has put exactly that job into the store (C2), and no
  command line makes the client panic; a Web submission that is redirected has stored its job, too.  Without the token nothing changes, neither through the API nor the Web UI, and without
  the CSRF token nothing changes through the Web UI.  Assets stay inside their directory, are read
  back as written, and are served inline only as images.  The configuration check accepts exactly the usable
  configurations, and \<open>build\<close> serves exactly the configured printers.

  The contracts between components are locales: \<open>job_store\<close> (extended by \<open>lossless_store\<close>) with both stores as
  interpretations, \<open>asset_store\<close> with both asset stores, \<open>spaced_font\<close> (extended by \<open>mono_font\<close>) with the embedded
  font, \<open>printer_device\<close> with the TCP printer, \<open>simulation\<close> with the queue system over either store (\<open>boltsys\<close>,
  \<open>memsys\<close>) as an implementation of the spool.

  \<^bold>\<open>Bounds and termination.\<close>  Loops with a measure are functions with a termination proof: among them
  \<open>write_loop\<close> (the bytes left), \<open>appendRasterBands\<close> (the rows left), \<open>is_kind\<close> (the size of the error),
  \<open>size_loop\<close> (the size left), \<open>run_claimed_job\<close> (the attempts left), \<open>decodeElement\<close> (the source's own depth bound of 32).
  What depends on its caller gives an option, where \<open>None\<close> is not returning: \<open>run_claimed_job\<close> when the processor does not,
  the \<open>partial_function\<close> \<open>runWorker\<close> when its context is never cancelled; both are proved to return otherwise; a loop of the renderer that may not end is \<open>Diverge\<close>, which is proved not to occur.
  No fuel is used.  Durations and bytes are words; Go's \<open>int\<close> is unbounded where only values that were
  validated or counted reach it, and cut to its width where the width shows: the bytes of an ESC/POS
  dimension, backoffs, margins, JSON numbers.

  \<^bold>\<open>Parameters.\<close>  What is not under \<open>src/\<close> is an argument of the definitions, and what is relied on
  is a named hypothesis: bbolt (\<open>bbolt_ok\<close>) and the JSON form of a stored job (\<open>codec_ok\<close>), the text level of
  JSON (\<open>json_text_ok\<close>, only for UTF-8 strings and integers within the decoder's nesting limit), image decoding, QR codes and barcodes (\<open>codecs_ok\<close>), the glyphs of
  \<open>basicfont\<close> (\<open>face_7x13\<close>), the PNG encoder, the network (\<open>net_ok\<close>), the file system (\<open>fs_ok\<close>), YAML and its
  durations, the HTTP transport (\<open>delivers\<close>), templates, multipart forms, media types and the HMAC (\<open>web_env\<close>), and cobra's reading of a command line (\<open>cobra_ok\<close>).

  \<^bold>\<open>Not modelled.\<close>  The daemon's use of \<open>flag\<close> (it gets the path of its configuration), log output, what the
  timeouts of the HTTP server do to a slow client (their values are fields of the composed daemon), the time of a
  constant-time comparison (it is equality), the contents of the HTML
  templates and of the static files.  \<open>Cancel\<close> is a definition with its laws, but no step of the queue system,
  since nothing in the daemon calls it; the lemma \<open>cancel_races_with_claim\<close> shows what a caller would have to expect.
  Nil and empty slices are identified except where the code tells them apart.
  \<open>%q\<close> keeps every valid rune outside ASCII.  The concurrent status checks of \<open>ListPrinters\<close> take effect in one
  order, the result is sorted.  Critical sections and transactions are atomic.  The limit of
  newer Go releases on the number of query parameters is left out.  Memory is unbounded: \<open>make\<close> panics for a negative length, not
  for one that is too large.
\<close>

end
